(* ===== verification/Prelude.thy ===== *)
theory Prelude
  imports Complex_Main
begin

text \<open>
  Shared vocabulary of the development: Python exceptions as values, results and
  state-passing computations, Python list indexing, and the generic lemmas the component
  theories rely on.

  \<^item> \<open>py_exn\<close> has one constructor per exception class the modelled code raises. The message
    text of an exception is not modelled.
  \<^item> \<open>'a res\<close> is the result of a pure computation that may raise.
  \<^item> \<open>('s, 'a) pym\<close> is a method that mutates an object: it returns the new state together with
    the result also when it raises, because a Python exception does not undo the writes that
    happened before it.
  \<^item> \<open>py_get\<close> and \<open>py_set\<close> are \<open>xs[i]\<close> and \<open>xs[i] = v\<close>: a negative index counts from the end, an
    index out of range raises \<open>IndexError\<close>.
  \<^item> Python floats are exact rationals (\<open>rat\<close>); rounding, infinities and NaN are outside the
    model.
\<close>

section \<open>Exceptions and results\<close>

datatype py_exn =
    IndexError | KeyError | ValueError | TypeError | AttributeError | AssertionError
  | RuntimeError | NotImplementedError | EOFError | TimeoutError | StructError
  | UnicodeDecodeError | SignalConnectionError | RoutingException | EntityDoesNotExist
  | UnknownEntityTypeError | RunError | PlainException | CancelledError

type_synonym 'a res = "py_exn + 'a"

named_theorems res_simps \<open>unfolding of computations that may raise\<close>
named_theorems keeps_intro \<open>invariant preservation, one rule per program constructor\<close>

definition rbind :: "'a res \<Rightarrow> ('a \<Rightarrow> 'b res) \<Rightarrow> 'b res" where
  "rbind m f = (case m of Inl e \<Rightarrow> Inl e | Inr a \<Rightarrow> f a)"

definition rassert :: "bool \<Rightarrow> py_exn \<Rightarrow> unit res" where
  "rassert b e = (if b then Inr () else Inl e)"

lemma rbind_simps [simp]:
  "rbind (Inr a) f = f a"
  "rbind (Inl e) f = Inl e"
  by (simp_all add: rbind_def)

lemma rassert_simps [simp]:
  "rassert True e = Inr ()"
  "rassert False e = Inl e"
  by (simp_all add: rassert_def)

lemma rbind_eq_Inr_iff: "rbind m f = Inr b \<longleftrightarrow> (\<exists>a. m = Inr a \<and> f a = Inr b)"
  by (cases m) auto

lemma rbind_eq_Inl_iff: "rbind m f = Inl e \<longleftrightarrow> m = Inl e \<or> (\<exists>a. m = Inr a \<and> f a = Inl e)"
  by (cases m) auto

lemma rassert_eq_Inr_iff [simp]: "rassert b e = Inr u \<longleftrightarrow> b"
  by (simp add: rassert_def)

lemma rassert_eq_Inl_iff [simp]: "rassert b e = Inl e' \<longleftrightarrow> \<not> b \<and> e' = e"
  by (auto simp: rassert_def)

lemma rbind_cong [fundef_cong]:
  "m = m' \<Longrightarrow> (\<And>a. m' = Inr a \<Longrightarrow> f a = f' a) \<Longrightarrow> rbind m f = rbind m' f'"
  by (cases m') auto

lemmas rbind_iffs [res_simps] = rbind_eq_Inr_iff rbind_eq_Inl_iff

text \<open>A loop over a list whose body may raise: the first exception ends it.\<close>

fun rfold :: "('a \<Rightarrow> 's \<Rightarrow> 's res) \<Rightarrow> 'a list \<Rightarrow> 's \<Rightarrow> 's res" where
  "rfold f [] s = Inr s"
| "rfold f (x # xs) s = rbind (f x s) (rfold f xs)"

fun rmap :: "('a \<Rightarrow> 'b res) \<Rightarrow> 'a list \<Rightarrow> 'b list res" where
  "rmap f [] = Inr []"
| "rmap f (x # xs) = rbind (f x) (\<lambda>y. rbind (rmap f xs) (\<lambda>ys. Inr (y # ys)))"

lemma rfold_cong [fundef_cong]:
  "xs = xs' \<Longrightarrow> s = s' \<Longrightarrow> (\<And>x s. x \<in> set xs' \<Longrightarrow> f x s = g x s) \<Longrightarrow> rfold f xs s = rfold g xs' s'"
proof (induction xs arbitrary: xs' s s')
  case (Cons x xs)
  then show ?case by (cases xs') (auto intro!: rbind_cong)
qed simp

lemma rmap_cong [fundef_cong]:
  "xs = xs' \<Longrightarrow> (\<And>x. x \<in> set xs' \<Longrightarrow> f x = g x) \<Longrightarrow> rmap f xs = rmap g xs'"
proof (induction xs arbitrary: xs')
  case (Cons x xs)
  then show ?case by (cases xs') (auto intro!: rbind_cong)
qed simp

lemma rfold_append: "rfold f (xs @ ys) s = rbind (rfold f xs s) (rfold f ys)"
  by (induction xs arbitrary: s) (auto simp: rbind_def split: sum.splits)

lemma rfold_Inr: "(\<And>x s. x \<in> set xs \<Longrightarrow> f x s = Inr (g x s)) \<Longrightarrow> rfold f xs s = Inr (fold g xs s)"
  by (induction xs arbitrary: s) auto

lemma rfold_invariant:
  assumes "rfold f xs s = Inr s'" and "I s"
    and "\<And>x s s'. x \<in> set xs \<Longrightarrow> I s \<Longrightarrow> f x s = Inr s' \<Longrightarrow> I s'"
  shows "I s'"
  using assms
proof (induction xs arbitrary: s)
  case Nil
  then show ?case by simp
next
  case (Cons x xs)
  then obtain s1 where "f x s = Inr s1" and "rfold f xs s1 = Inr s'"
    by (auto simp: rbind_eq_Inr_iff)
  with Cons show ?case by (meson list.set_intros)
qed

lemma rmap_member: "rmap f xs = Inr ys \<Longrightarrow> y \<in> set ys \<Longrightarrow> \<exists>x \<in> set xs. f x = Inr y"
  by (induction xs arbitrary: ys) (auto simp: rbind_eq_Inr_iff)

lemma rmap_Inr: "(\<And>x. x \<in> set xs \<Longrightarrow> f x = Inr (g x)) \<Longrightarrow> rmap f xs = Inr (map g xs)"
  by (induction xs) auto

section \<open>Python lists\<close>

definition py_idx :: "nat \<Rightarrow> int \<Rightarrow> nat option" where
  "py_idx n i =
     (if 0 \<le> i \<and> i < int n then Some (nat i)
      else if - int n \<le> i \<and> i < 0 then Some (nat (int n + i))
      else None)"

definition py_get :: "'a list \<Rightarrow> int \<Rightarrow> 'a res" where
  "py_get xs i = (case py_idx (length xs) i of None \<Rightarrow> Inl IndexError | Some k \<Rightarrow> Inr (xs ! k))"

definition py_set :: "'a list \<Rightarrow> int \<Rightarrow> 'a \<Rightarrow> 'a list res" where
  "py_set xs i v =
     (case py_idx (length xs) i of None \<Rightarrow> Inl IndexError | Some k \<Rightarrow> Inr (xs[k := v]))"

lemma py_idx_bound: "py_idx n i = Some k \<Longrightarrow> k < n"
  by (auto simp: py_idx_def split: if_splits)

lemma py_idx_nonneg [simp]: "0 \<le> i \<Longrightarrow> i < int n \<Longrightarrow> py_idx n i = Some (nat i)"
  by (simp add: py_idx_def)

lemma py_idx_int [simp]: "k < n \<Longrightarrow> py_idx n (int k) = Some k"
  by (simp add: py_idx_def)

lemma py_idx_high [simp]: "int n \<le> i \<Longrightarrow> py_idx n i = None"
  by (simp add: py_idx_def)

lemma py_get_nonneg [simp]: "0 \<le> i \<Longrightarrow> i < int (length xs) \<Longrightarrow> py_get xs i = Inr (xs ! nat i)"
  by (simp add: py_get_def)

lemma py_get_int [simp]: "k < length xs \<Longrightarrow> py_get xs (int k) = Inr (xs ! k)"
  by (simp add: py_get_def)

lemma py_get_high [simp]: "int (length xs) \<le> i \<Longrightarrow> py_get xs i = Inl IndexError"
  by (simp add: py_get_def)

lemma py_set_nonneg [simp]:
  "0 \<le> i \<Longrightarrow> i < int (length xs) \<Longrightarrow> py_set xs i v = Inr (xs[nat i := v])"
  by (simp add: py_set_def)

lemma py_set_int [simp]: "k < length xs \<Longrightarrow> py_set xs (int k) v = Inr (xs[k := v])"
  by (simp add: py_set_def)

lemma py_set_high [simp]: "int (length xs) \<le> i \<Longrightarrow> py_set xs i v = Inl IndexError"
  by (simp add: py_set_def)

lemma py_get_eq_Inr_iff:
  "py_get xs i = Inr v \<longleftrightarrow> (\<exists>k. py_idx (length xs) i = Some k \<and> v = xs ! k)"
  by (auto simp: py_get_def split: option.splits)

lemma py_set_eq_Inr_iff:
  "py_set xs i v = Inr ys \<longleftrightarrow> (\<exists>k. py_idx (length xs) i = Some k \<and> ys = xs[k := v])"
  by (auto simp: py_set_def split: option.splits)

lemma py_get_eq_Inl: "py_get xs i = Inl e \<Longrightarrow> e = IndexError"
  by (auto simp: py_get_def split: option.splits)

lemma py_set_eq_Inl: "py_set xs i v = Inl e \<Longrightarrow> e = IndexError"
  by (auto simp: py_set_def split: option.splits)

lemma length_py_set: "py_set xs i v = Inr ys \<Longrightarrow> length ys = length xs"
  by (auto simp: py_set_eq_Inr_iff)

lemma py_get_py_set_same:
  "py_set xs i v = Inr ys \<Longrightarrow> py_get ys i = Inr v"
  by (auto simp: py_set_eq_Inr_iff py_get_def py_idx_bound)

text \<open>The least index of a list whose element satisfies a predicate.\<close>

fun first_index :: "('a \<Rightarrow> bool) \<Rightarrow> 'a list \<Rightarrow> nat option" where
  "first_index P [] = None"
| "first_index P (x # xs) = (if P x then Some 0 else map_option Suc (first_index P xs))"

lemma first_index_SomeD:
  "first_index P xs = Some k \<Longrightarrow> k < length xs \<and> P (xs ! k) \<and> (\<forall>j<k. \<not> P (xs ! j))"
proof (induction xs arbitrary: k)
  case Nil
  then show ?case by simp
next
  case (Cons x xs)
  show ?case
  proof (cases "P x")
    case True
    with Cons.prems show ?thesis by simp
  next
    case False
    with Cons.prems obtain k' where k: "k = Suc k'" and "first_index P xs = Some k'"
      by auto
    from Cons.IH [OF this(2)] False show ?thesis
      unfolding k by (auto simp: less_Suc_eq_0_disj)
  qed
qed

lemma first_index_None_iff: "first_index P xs = None \<longleftrightarrow> (\<forall>x\<in>set xs. \<not> P x)"
  by (induction xs) auto

lemma first_index_Some_ex: "x \<in> set xs \<Longrightarrow> P x \<Longrightarrow> \<exists>k. first_index P xs = Some k"
  using first_index_None_iff [of P xs] by (cases "first_index P xs") auto

section \<open>Methods that mutate an object\<close>

type_synonym ('s, 'a) pym = "'s \<Rightarrow> 'a res \<times> 's"

definition ret :: "'a \<Rightarrow> ('s, 'a) pym" where
  "ret a = (\<lambda>s. (Inr a, s))"

definition raise :: "py_exn \<Rightarrow> ('s, 'a) pym" where
  "raise e = (\<lambda>s. (Inl e, s))"

definition sbind :: "('s, 'a) pym \<Rightarrow> ('a \<Rightarrow> ('s, 'b) pym) \<Rightarrow> ('s, 'b) pym" where
  "sbind m f = (\<lambda>s. case m s of (Inl e, s') \<Rightarrow> (Inl e, s') | (Inr a, s') \<Rightarrow> f a s')"

definition get_st :: "('s, 's) pym" where
  "get_st = (\<lambda>s. (Inr s, s))"

definition modify :: "('s \<Rightarrow> 's) \<Rightarrow> ('s, unit) pym" where
  "modify f = (\<lambda>s. (Inr (), f s))"

definition guard :: "bool \<Rightarrow> py_exn \<Rightarrow> ('s, unit) pym" where
  "guard b e = (if b then ret () else raise e)"

text \<open>An expression of the object's state that may raise, and a write computed by one.\<close>

definition eval_st :: "('s \<Rightarrow> 'a res) \<Rightarrow> ('s, 'a) pym" where
  "eval_st f = (\<lambda>s. (f s, s))"

definition update_st :: "('s \<Rightarrow> 's res) \<Rightarrow> ('s, unit) pym" where
  "update_st f = (\<lambda>s. case f s of Inl e \<Rightarrow> (Inl e, s) | Inr s' \<Rightarrow> (Inr (), s'))"

text \<open>A method of a sub-object, run on the object that holds it.\<close>

definition zoom :: "('s \<Rightarrow> 'b) \<Rightarrow> ('b \<Rightarrow> 's \<Rightarrow> 's) \<Rightarrow> ('b, 'a) pym \<Rightarrow> ('s, 'a) pym" where
  "zoom g u m = (\<lambda>s. case m (g s) of (r, b) \<Rightarrow> (r, u b s))"

fun for_each :: "'a list \<Rightarrow> ('a \<Rightarrow> ('s, unit) pym) \<Rightarrow> ('s, unit) pym" where
  "for_each [] f = ret ()"
| "for_each (x # xs) f = sbind (f x) (\<lambda>_. for_each xs f)"

lemmas pym_defs = ret_def raise_def sbind_def get_st_def modify_def guard_def eval_st_def
  update_st_def zoom_def

text \<open>
  \<open>triple P m Q E\<close>: from a state with \<open>P\<close>, the method ends in \<open>Q\<close> when it returns and in \<open>E\<close>
  when it raises. \<open>keeps I m\<close>: the method preserves \<open>I\<close> on both exits.
\<close>

definition triple ::
    "('s \<Rightarrow> bool) \<Rightarrow> ('s, 'a) pym \<Rightarrow> ('a \<Rightarrow> 's \<Rightarrow> bool) \<Rightarrow> (py_exn \<Rightarrow> 's \<Rightarrow> bool) \<Rightarrow> bool" where
  "triple P m Q E \<longleftrightarrow>
     (\<forall>s. P s \<longrightarrow> (case m s of (Inl e, s') \<Rightarrow> E e s' | (Inr a, s') \<Rightarrow> Q a s'))"

abbreviation keeps :: "('s \<Rightarrow> bool) \<Rightarrow> ('s, 'a) pym \<Rightarrow> bool" where
  "keeps I m \<equiv> triple I m (\<lambda>_. I) (\<lambda>_. I)"

lemma triple_bind:
  "triple P m Q E \<Longrightarrow> (\<And>a. triple (Q a) (f a) R E) \<Longrightarrow> triple P (sbind m f) R E"
  by (fastforce simp: triple_def sbind_def split: prod.splits sum.splits)

lemma keeps_ret [keeps_intro]: "keeps I (ret a)"
  by (simp add: triple_def ret_def)

lemma keeps_raise [keeps_intro]: "keeps I (raise e)"
  by (simp add: triple_def raise_def)

lemma keeps_get_st [keeps_intro]: "keeps I get_st"
  by (simp add: triple_def get_st_def)

lemma keeps_eval_st [keeps_intro]: "keeps I (eval_st f)"
  by (simp add: triple_def eval_st_def split: sum.splits)

lemma keeps_guard [keeps_intro]: "keeps I (guard b e)"
  by (simp add: guard_def keeps_ret keeps_raise)

lemma keeps_modify [keeps_intro]: "(\<And>s. I s \<Longrightarrow> I (f s)) \<Longrightarrow> keeps I (modify f)"
  by (simp add: triple_def modify_def)

lemma keeps_update_st [keeps_intro]:
  "(\<And>s s'. I s \<Longrightarrow> f s = Inr s' \<Longrightarrow> I s') \<Longrightarrow> keeps I (update_st f)"
  by (simp add: triple_def update_st_def split: sum.splits)

lemma keeps_bind [keeps_intro]:
  "keeps I m \<Longrightarrow> (\<And>a. keeps I (f a)) \<Longrightarrow> keeps I (sbind m f)"
  by (rule triple_bind)

lemma keeps_zoom [keeps_intro]:
  "keeps J m \<Longrightarrow> (\<And>s. I s \<Longrightarrow> J (g s)) \<Longrightarrow> (\<And>s b. I s \<Longrightarrow> J b \<Longrightarrow> I (u b s)) \<Longrightarrow> keeps I (zoom g u m)"
  by (fastforce simp: triple_def zoom_def split: prod.splits sum.splits)

lemma keeps_for_each [keeps_intro]:
  "(\<And>x. x \<in> set xs \<Longrightarrow> keeps I (f x)) \<Longrightarrow> keeps I (for_each xs f)"
  by (induction xs) (auto intro!: keeps_intro)

lemma keeps_if [keeps_intro]:
  "(b \<Longrightarrow> keeps I m) \<Longrightarrow> (\<not> b \<Longrightarrow> keeps I n) \<Longrightarrow> keeps I (if b then m else n)"
  by simp

lemma keepsD: "keeps I m \<Longrightarrow> I s \<Longrightarrow> I (snd (m s))"
  by (cases "m s") (fastforce simp: triple_def split: prod.splits sum.splits)

text \<open>Inversion of a computation that has returned.\<close>

lemma sbind_Inr_iff:
  "sbind m f s = (Inr x, s') \<longleftrightarrow> (\<exists>a s1. m s = (Inr a, s1) \<and> f a s1 = (Inr x, s'))"
  by (cases "m s") (auto simp: sbind_def split: sum.splits)

lemma guard_Inr_iff: "guard b e s = (Inr x, s') \<longleftrightarrow> b \<and> s' = s"
  by (auto simp: guard_def ret_def raise_def)

lemma for_each_append:
  "for_each (xs @ ys) f s = sbind (for_each xs f) (\<lambda>_. for_each ys f) s"
  by (induction xs arbitrary: s) (auto simp: pym_defs split: prod.splits sum.splits)

text \<open>A loop whose body always returns is a fold.\<close>

lemma for_each_fold:
  assumes "I s" and "\<And>x s. x \<in> set xs \<Longrightarrow> I s \<Longrightarrow> f x s = (Inr (), g x s) \<and> I (g x s)"
  shows "for_each xs f s = (Inr (), fold g xs s) \<and> I (fold g xs s)"
  using assms
proof (induction xs arbitrary: s)
  case Nil
  then show ?case by (simp add: ret_def)
next
  case (Cons x xs)
  from Cons.prems have "f x s = (Inr (), g x s)" and "I (g x s)"
    by auto
  then show ?case
    using Cons.IH [of "g x s"] Cons.prems(2) by (simp add: sbind_def)
qed

end
