(* ===== verification/Entities.thy ===== *)
theory Entities
  imports Prelude
begin

text \<open>
  Identification of hardware: \<open>Path\<close> (base/hybrid/entities.py and redac/entities.py), \<open>Loc\<close>,
  \<open>EntityClass\<close> / \<open>EntityType\<close> with its class registry (redac/entities.py), and the virtual MAC
  tables of base/utils/addressing.py.

  A path is the list of its components; a component is a string or an int. The class attribute
  \<open>SCHEMA\<close> is a parameter of \<open>path_make\<close> and \<open>path_parse\<close>: \<open>base_schema\<close> for the base class,
  \<open>redac_schema\<close> for the REDAC class. Strings are ASCII.
\<close>

section \<open>Python strings\<close>

fun split_on :: "char \<Rightarrow> string \<Rightarrow> string list" where
  "split_on c [] = [[]]"
| "split_on c (x # xs) =
     (if x = c then [] # split_on c xs
      else (case split_on c xs of [] \<Rightarrow> [[x]] | w # ws \<Rightarrow> (x # w) # ws))"

fun join_with :: "char \<Rightarrow> string list \<Rightarrow> string" where
  "join_with c [] = []"
| "join_with c [w] = w"
| "join_with c (w # v # ws) = w @ c # join_with c (v # ws)"

definition strip :: "(char \<Rightarrow> bool) \<Rightarrow> string \<Rightarrow> string" where
  "strip P s = rev (dropWhile P (rev (dropWhile P s)))"

definition is_digit :: "char \<Rightarrow> bool" where
  "is_digit c \<longleftrightarrow> 48 \<le> (of_char c :: nat) \<and> (of_char c :: nat) \<le> 57"

definition is_space :: "char \<Rightarrow> bool" where
  "is_space c \<longleftrightarrow> (of_char c :: nat) \<in> {9, 10, 11, 12, 13, 28, 29, 30, 31, 32}"

definition digit_char :: "nat \<Rightarrow> char" where
  "digit_char d = char_of (48 + d)"

fun nat_str :: "nat \<Rightarrow> string" where
  "nat_str n = (if n < 10 then [digit_char n] else nat_str (n div 10) @ [digit_char (n mod 10)])"

declare nat_str.simps [simp del]

definition int_str :: "int \<Rightarrow> string" where
  "int_str i = (if i < 0 then CHR ''-'' # nat_str (nat (- i)) else nat_str (nat i))"

text \<open>Python's \<open>int(s)\<close>: blanks around, an optional sign, digits with single underscores between.\<close>

fun digits_val :: "nat \<Rightarrow> bool \<Rightarrow> string \<Rightarrow> nat option" where
  "digits_val acc d [] = (if d then Some acc else None)"
| "digits_val acc d (c # cs) =
     (if is_digit c then digits_val (10 * acc + (of_char c - 48)) True cs
      else if c = CHR ''_'' \<and> d then digits_val acc False cs
      else None)"

definition py_int :: "string \<Rightarrow> int res" where
  "py_int s =
     (let t = strip is_space s in
      case (case t of
              [] \<Rightarrow> None
            | c # cs \<Rightarrow>
                if c = CHR ''-'' then map_option (\<lambda>n. - int n) (digits_val 0 False cs)
                else if c = CHR ''+'' then map_option int (digits_val 0 False cs)
                else map_option int (digits_val 0 False t)) of
        None \<Rightarrow> Inl ValueError
      | Some i \<Rightarrow> Inr i)"

definition upper_char :: "char \<Rightarrow> char" where
  "upper_char c =
     (if 97 \<le> (of_char c :: nat) \<and> (of_char c :: nat) \<le> 122 then char_of ((of_char c :: nat) - 32)
      else c)"

lemma split_on_neq_Nil [simp]: "split_on c xs \<noteq> []"
  by (cases xs) (auto split: list.splits)

lemma split_on_no_sep: "c \<notin> set w \<Longrightarrow> split_on c w = [w]"
  by (induction w) auto

lemma split_on_append: "c \<notin> set w \<Longrightarrow> split_on c (w @ c # xs) = w # split_on c xs"
  by (induction w) auto

lemma split_on_join_with:
  "ws \<noteq> [] \<Longrightarrow> (\<And>w. w \<in> set ws \<Longrightarrow> c \<notin> set w) \<Longrightarrow> split_on c (join_with c ws) = ws"
  by (induction c ws rule: join_with.induct) (auto simp: split_on_no_sep split_on_append)

lemma hd_join_with: "w \<noteq> [] \<Longrightarrow> join_with c (w # ws) \<noteq> [] \<and> hd (join_with c (w # ws)) = hd w"
  by (cases ws) auto

lemma last_join_with:
  "ws \<noteq> [] \<Longrightarrow> last ws \<noteq> [] \<Longrightarrow> join_with c ws \<noteq> [] \<and> last (join_with c ws) = last (last ws)"
  by (induction c ws rule: join_with.induct) auto

lemma strip_ends:
  assumes "s \<noteq> []" and "\<not> P (hd s)" and "\<not> P (last s)"
  shows "strip P s = s"
proof -
  have "dropWhile P s = s"
    using assms(1,2) by (cases s) auto
  moreover have "dropWhile P (rev s) = rev s"
    using assms(1,3) by (cases s rule: rev_cases) auto
  ultimately show ?thesis
    by (simp add: strip_def)
qed

lemma of_char_digit [simp]: "d < 10 \<Longrightarrow> (of_char (digit_char d) :: nat) = 48 + d"
  by (simp add: digit_char_def)

lemma is_digit_digit_char [simp]: "d < 10 \<Longrightarrow> is_digit (digit_char d)"
  by (simp add: is_digit_def)

lemma nat_str_digits: "c \<in> set (nat_str n) \<Longrightarrow> is_digit c"
proof (induction n rule: nat_str.induct)
  case (1 n)
  then show ?case
    by (subst (asm) (2) nat_str.simps) (auto split: if_splits)
qed

lemma nat_str_neq_Nil [simp]: "nat_str n \<noteq> []"
  by (subst nat_str.simps) simp

lemma digits_val_digit_char:
  "d < 10 \<Longrightarrow> digits_val acc b (digit_char d # cs) = digits_val (10 * acc + d) True cs"
  by simp

lemma digits_val_nat_str:
  "digits_val acc d (nat_str n @ rest) = digits_val (acc * 10 ^ length (nat_str n) + n) True rest"
proof (induction n arbitrary: acc d rest rule: nat_str.induct)
  case (1 n)
  show ?case
  proof (cases "n < 10")
    case True
    then show ?thesis
      by (simp add: nat_str.simps [of n] mult.commute)
  next
    case False
    let ?m = "n div 10"
    have len: "length (nat_str n) = Suc (length (nat_str ?m))"
      using False by (simp add: nat_str.simps [of n])
    have "digits_val acc d (nat_str n @ rest)
        = digits_val (acc * 10 ^ length (nat_str ?m) + ?m) True (digit_char (n mod 10) # rest)"
      using False 1 [OF False, of acc d "digit_char (n mod 10) # rest"]
      by (simp add: nat_str.simps [of n])
    also have "\<dots> = digits_val (acc * 10 ^ length (nat_str n) + n) True rest"
    proof -
      have "10 * (acc * 10 ^ length (nat_str ?m) + ?m) + n mod 10 = acc * 10 ^ length (nat_str n) + n"
        unfolding len by (simp add: algebra_simps)
      then show ?thesis by (simp only: digits_val_digit_char mod_less_divisor zero_less_numeral)
    qed
    finally show ?thesis .
  qed
qed

lemma digit_not_space: "is_digit c \<Longrightarrow> \<not> is_space c"
  by (auto simp: is_digit_def is_space_def)

lemma digit_not_sign: "is_digit c \<Longrightarrow> c \<noteq> CHR ''-'' \<and> c \<noteq> CHR ''+'' \<and> c \<noteq> CHR ''/''"
  by (auto simp: is_digit_def)

lemma minus_not_space: "\<not> is_space CHR ''-''"
  by (simp add: is_space_def)

lemma last_int_str_digit: "is_digit (last (int_str i))"
  by (metis int_str_def last_ConsR last_in_set nat_str_digits nat_str_neq_Nil)

lemma strip_int_str: "strip is_space (int_str i) = int_str i"
proof (rule strip_ends)
  show "int_str i \<noteq> []"
    by (simp add: int_str_def)
  show "\<not> is_space (hd (int_str i))"
    using nat_str_digits [OF hd_in_set [OF nat_str_neq_Nil]]
    by (simp add: int_str_def minus_not_space digit_not_space)
  show "\<not> is_space (last (int_str i))"
    by (simp add: digit_not_space last_int_str_digit)
qed

lemma py_int_int_str [simp]: "py_int (int_str i) = Inr i"
proof (cases "i < 0")
  case True
  then show ?thesis
    using digits_val_nat_str [of 0 False "nat (- i)" "[]"]
    by (simp add: py_int_def strip_int_str Let_def) (simp add: int_str_def)
next
  case False
  obtain c cs where c: "nat_str (nat i) = c # cs"
    by (cases "nat_str (nat i)") auto
  then have "is_digit c"
    using nat_str_digits [of c "nat i"] by simp
  with False c show ?thesis
    using digits_val_nat_str [of 0 False "nat i" "[]"] digit_not_sign [of c]
    by (simp add: py_int_def strip_int_str Let_def) (simp add: int_str_def)
qed

lemma int_str_no_slash: "CHR ''/'' \<notin> set (int_str i)"
  by (auto simp: int_str_def dest: nat_str_digits digit_not_sign)

section \<open>Path\<close>

datatype part = PS string | PI int

type_synonym path = "part list"

datatype part_type = TStr | TInt

definition base_schema :: "part_type list" where
  "base_schema = []"

definition redac_schema :: "part_type list" where
  "redac_schema = [TStr, TStr, TStr, TInt]"

fun part_str :: "part \<Rightarrow> string" where
  "part_str (PS s) = s"
| "part_str (PI i) = int_str i"

fun coerce_part :: "part_type \<Rightarrow> part \<Rightarrow> part res" where
  "coerce_part TStr p = Inr (PS (part_str p))"
| "coerce_part TInt (PS s) = rbind (py_int s) (\<lambda>i. Inr (PI i))"
| "coerce_part TInt (PI i) = Inr (PI i)"

definition parse_part :: "part_type list \<Rightarrow> nat \<Rightarrow> part \<Rightarrow> part res" where
  "parse_part schema depth p =
     (if schema = [] then Inr p else rbind (py_get schema (int depth)) (\<lambda>t. coerce_part t p))"

definition path_make :: "part_type list \<Rightarrow> part list \<Rightarrow> path res" where
  "path_make schema parts = rmap (\<lambda>(d, p). parse_part schema d p) (enumerate 0 parts)"

definition path_make_root :: "part_type list \<Rightarrow> part \<Rightarrow> path res" where
  "path_make_root schema p = rbind (parse_part schema 0 p) (\<lambda>r. Inr [r])"

definition path_parse ::
    "part_type list \<Rightarrow> (string \<rightharpoonup> path) \<Rightarrow> string \<Rightarrow> path res" where
  "path_parse schema aliases s =
     (let t = strip (\<lambda>c. c = CHR ''/'') s in
      if t = [] then path_make schema []
      else case split_on CHR ''/'' t of
             [] \<Rightarrow> Inl ValueError
           | w # ws \<Rightarrow>
               (case aliases w of
                  None \<Rightarrow> path_make schema (map PS (w # ws))
                | Some alias \<Rightarrow> path_make schema (alias @ map PS ws)))"

definition path_str :: "path \<Rightarrow> string" where
  "path_str p = join_with CHR ''/'' (map part_str p)"

definition path_parent :: "path \<Rightarrow> path" where
  "path_parent p = butlast p"

definition path_id :: "path \<Rightarrow> part res" where
  "path_id p = py_get p (- 1)"

definition path_root :: "path \<Rightarrow> part res" where
  "path_root p = py_get p 0"

definition path_to_root :: "path \<Rightarrow> path" where
  "path_to_root p = take 1 p"

definition path_depth :: "path \<Rightarrow> nat" where
  "path_depth p = length p"

text \<open>\<open>Path.join\<close>: another path is concatenated, a single component is appended.\<close>

fun path_join :: "path \<Rightarrow> path + part \<Rightarrow> path" where
  "path_join p (Inl q) = p @ q"
| "path_join p (Inr x) = p @ [x]"

definition path_to_cluster :: "path \<Rightarrow> path" where
  "path_to_cluster p = take 2 p"

definition path_to_block :: "path \<Rightarrow> path" where
  "path_to_block p = take 3 p"

definition path_to_function :: "path \<Rightarrow> path" where
  "path_to_function p = take 4 p"

definition path_to_mac :: "path \<Rightarrow> string res" where
  "path_to_mac p =
     rbind (py_get p 0) (\<lambda>r. case r of
        PS s \<Rightarrow> Inr (map (\<lambda>c. upper_char (if c = CHR '':'' then CHR ''-'' else c)) s)
      | PI _ \<Rightarrow> Inl AttributeError)"

text \<open>
  The paths that the REDAC class prints faithfully: at most four components, strings without a
  slash at the first three levels and an int at the fourth, no empty component at either end.
\<close>

definition canonical_path :: "path \<Rightarrow> bool" where
  "canonical_path p \<longleftrightarrow>
     length p \<le> 4 \<and>
     (\<forall>i<length p. case p ! i of PS s \<Rightarrow> i < 3 \<and> CHR ''/'' \<notin> set s | PI _ \<Rightarrow> i = 3) \<and>
     (p \<noteq> [] \<longrightarrow> part_str (hd p) \<noteq> [] \<and> part_str (last p) \<noteq> [])"

lemma redac_schema_nth: "d < 4 \<Longrightarrow> redac_schema ! d = (if d < 3 then TStr else TInt)"
  by (auto simp: redac_schema_def less_Suc_eq numeral_eq_Suc)

lemma parse_part_printed:
  assumes "d < 4" and "case q of PS s \<Rightarrow> d < 3 \<and> CHR ''/'' \<notin> set s | PI _ \<Rightarrow> d = 3"
  shows "parse_part redac_schema d (PS (part_str q)) = Inr q"
proof -
  have "py_get redac_schema (int d) = Inr (redac_schema ! d)"
    using assms(1) by (subst py_get_int) (simp_all add: redac_schema_def)
  moreover have "redac_schema \<noteq> []"
    by (simp add: redac_schema_def)
  ultimately show ?thesis
    using assms by (cases q) (simp_all add: parse_part_def redac_schema_nth)
qed

lemma rmap_enumerate:
  assumes "\<And>i. i < length xs \<Longrightarrow> f (n + i, xs ! i) = Inr (ys ! i)" and "length ys = length xs"
  shows "rmap f (enumerate n xs) = Inr ys"
  using assms
proof (induction xs arbitrary: n ys)
  case Nil
  then show ?case by simp
next
  case (Cons x xs)
  then obtain z zs where ys: "ys = z # zs"
    by (cases ys) auto
  have "rmap f (enumerate (Suc n) xs) = Inr zs"
  proof (rule Cons.IH)
    fix i
    assume "i < length xs"
    then show "f (Suc n + i, xs ! i) = Inr (zs ! i)"
      using Cons.prems(1) [of "Suc i"] by (simp add: ys)
  qed (use Cons.prems(2) ys in simp)
  moreover have "f (n, x) = Inr z"
    using Cons.prems(1) [of 0] by (simp add: ys)
  ultimately show ?case by (simp add: ys)
qed

lemma canonical_path_parts_no_slash:
  assumes "canonical_path p" and "w \<in> set (map part_str p)"
  shows "CHR ''/'' \<notin> set w"
proof -
  from assms(2) obtain i where "i < length p" and w: "w = part_str (p ! i)"
    by (auto simp: in_set_conv_nth)
  with assms(1) have "case p ! i of PS s \<Rightarrow> i < 3 \<and> CHR ''/'' \<notin> set s | PI _ \<Rightarrow> i = 3"
    by (simp add: canonical_path_def)
  then show ?thesis
    by (cases "p ! i") (auto simp: w int_str_no_slash)
qed

lemma strip_path_str:
  assumes "canonical_path p" and "p \<noteq> []"
  shows "strip (\<lambda>c. c = CHR ''/'') (path_str p) = path_str p \<and> path_str p \<noteq> []"
proof -
  let ?ws = "map part_str p"
  have ne: "?ws \<noteq> []" "hd ?ws \<noteq> []" "last ?ws \<noteq> []"
    using assms by (simp_all add: canonical_path_def hd_map last_map)
  have h: "path_str p \<noteq> []" "hd (path_str p) = hd (hd ?ws)"
    using hd_join_with [of "hd ?ws" "CHR ''/''" "tl ?ws"] ne by (simp_all add: path_str_def)
  have l: "last (path_str p) = last (last ?ws)"
    using last_join_with [of ?ws "CHR ''/''"] ne by (simp add: path_str_def)
  have "hd (path_str p) \<noteq> CHR ''/''"
    using canonical_path_parts_no_slash [OF assms(1) hd_in_set [OF ne(1)]] ne(2)
    by (metis h(2) hd_in_set)
  moreover have "last (path_str p) \<noteq> CHR ''/''"
    using canonical_path_parts_no_slash [OF assms(1) last_in_set [OF ne(1)]] ne(3)
    by (metis l last_in_set)
  ultimately show ?thesis
    using h(1) strip_ends [of "path_str p" "\<lambda>c. c = CHR ''/''"] by simp
qed

lemma path_parse_path_str:
  assumes "canonical_path p" and "aliases (part_str (hd p)) = None"
  shows "path_parse redac_schema aliases (path_str p) = Inr p"
proof (cases "p = []")
  case True
  then show ?thesis
    by (simp add: path_parse_def path_str_def strip_def path_make_def)
next
  case False
  let ?ws = "map part_str p"
  have sp: "split_on CHR ''/'' (path_str p) = ?ws"
    unfolding path_str_def
    by (rule split_on_join_with) (use False canonical_path_parts_no_slash [OF assms(1)] in auto)
  have mk: "path_make redac_schema (map PS ?ws) = Inr p"
    unfolding path_make_def
  proof (rule rmap_enumerate)
    fix i
    assume i: "i < length (map PS ?ws)"
    then have "i < 4" and "case p ! i of PS s \<Rightarrow> i < 3 \<and> CHR ''/'' \<notin> set s | PI _ \<Rightarrow> i = 3"
      using assms(1) by (auto simp: canonical_path_def)
    then show "(case (0 + i, map PS ?ws ! i) of (d, q) \<Rightarrow> parse_part redac_schema d q) = Inr (p ! i)"
      using i by (simp add: parse_part_printed)
  qed simp
  obtain w ws where w: "?ws = w # ws"
    using False by (cases p) auto
  then have "aliases w = None"
    using assms(2) False by (cases p) auto
  then show ?thesis
    using strip_path_str [OF assms(1) False] sp mk w by (simp add: path_parse_def Let_def)
qed

lemma path_join_assoc_str:
  "p \<noteq> [] \<Longrightarrow> q \<noteq> [] \<Longrightarrow> path_str (path_join p (Inl q)) = path_str p @ CHR ''/'' # path_str q"
proof (induction p rule: induct_list012)
  case 1
  then show ?case by simp
next
  case (2 x)
  then show ?case by (cases q) (auto simp: path_str_def)
next
  case (3 x y zs)
  then show ?case by (simp add: path_str_def)
qed

section \<open>Loc\<close>

type_synonym loc = "int list"

definition new_stack :: "int \<Rightarrow> loc" where
  "new_stack s = [s]"

definition new_carrier :: "int \<Rightarrow> int \<Rightarrow> loc" where
  "new_carrier s c = [s, c]"

definition new_cluster :: "int \<Rightarrow> int \<Rightarrow> int \<Rightarrow> loc" where
  "new_cluster s c k = [s, c, k]"

definition new_lane :: "int \<Rightarrow> int \<Rightarrow> int \<Rightarrow> int \<Rightarrow> loc" where
  "new_lane s c k l = [s, c, k, l]"

definition stack_id :: "loc \<Rightarrow> int res" where
  "stack_id l = py_get l 0"

definition carrier_id :: "loc \<Rightarrow> int res" where
  "carrier_id l = py_get l 1"

definition cluster_id :: "loc \<Rightarrow> int res" where
  "cluster_id l = py_get l 2"

definition lane_id :: "loc \<Rightarrow> int res" where
  "lane_id l = py_get l 3"

definition is_carrier :: "loc \<Rightarrow> bool" where
  "is_carrier l \<longleftrightarrow> length l = 2"

text \<open>\<open>Loc.stack\<close>, \<open>carrier\<close>, \<open>cluster\<close> and \<open>lane\<close>: the prefix of that depth, asserted to exist.\<close>

definition loc_prefix :: "nat \<Rightarrow> loc \<Rightarrow> loc res" where
  "loc_prefix n l = (if n \<le> length l then Inr (take n l) else Inl AssertionError)"

abbreviation loc_stack :: "loc \<Rightarrow> loc res" where
  "loc_stack \<equiv> loc_prefix 1"

abbreviation loc_carrier :: "loc \<Rightarrow> loc res" where
  "loc_carrier \<equiv> loc_prefix 2"

abbreviation loc_cluster :: "loc \<Rightarrow> loc res" where
  "loc_cluster \<equiv> loc_prefix 3"

definition loc_div :: "loc \<Rightarrow> int \<Rightarrow> loc" where
  "loc_div l i = l @ [i]"

fun loc_less :: "loc \<Rightarrow> loc \<Rightarrow> bool" where
  "loc_less [] [] = False"
| "loc_less [] (y # ys) = True"
| "loc_less (x # xs) [] = False"
| "loc_less (x # xs) (y # ys) = (x < y \<or> x = y \<and> loc_less xs ys)"

lemma loc_ids [simp]:
  "stack_id (s # l) = Inr s"
  "carrier_id (s # c # l) = Inr c"
  "cluster_id (s # c # k # l) = Inr k"
  "lane_id (s # c # k # n # l) = Inr n"
  by (simp_all add: stack_id_def carrier_id_def cluster_id_def lane_id_def)

lemma loc_prefixes [simp]:
  "loc_stack (s # l) = Inr [s]"
  "loc_prefix (Suc 0) (s # l) = Inr [s]"
  "loc_carrier (s # c # l) = Inr [s, c]"
  "loc_cluster (s # c # k # l) = Inr [s, c, k]"
  by (simp_all add: loc_prefix_def)

lemma loc_less_irrefl: "\<not> loc_less l l"
  by (induction l) auto

lemma loc_less_trans: "loc_less a b \<Longrightarrow> loc_less b c \<Longrightarrow> loc_less a c"
proof (induction a b arbitrary: c rule: loc_less.induct)
  case (4 x xs y ys)
  then show ?case by (cases c) auto
qed (auto elim: loc_less.elims)

lemma loc_less_total: "loc_less a b \<or> a = b \<or> loc_less b a"
  by (induction a b rule: loc_less.induct) auto

section \<open>EntityType and its registry\<close>

datatype entity_class =
    UNKNOWN | CARRIER | CLUSTER | MBLOCK | UBLOCK | CBLOCK | IBLOCK | SHBLOCK | FRONTPANEL
  | CTRLBLOCK | TBLOCK | BACK_PANEL | T_BLOCK_BPL | DEVICE | OTHER

fun entity_class_of :: "int \<Rightarrow> entity_class res" where
  "entity_class_of n =
     (if n = 0 then Inr UNKNOWN else if n = 1 then Inr CARRIER else if n = 2 then Inr CLUSTER
      else if n = 3 then Inr MBLOCK else if n = 4 then Inr UBLOCK else if n = 5 then Inr CBLOCK
      else if n = 6 then Inr IBLOCK else if n = 7 then Inr SHBLOCK
      else if n = 8 then Inr FRONTPANEL else if n = 9 then Inr CTRLBLOCK
      else if n = 10 then Inr TBLOCK else if n = 11 then Inr BACK_PANEL
      else if n = 12 then Inr T_BLOCK_BPL else if n = 30 then Inr DEVICE
      else if n = 31 then Inr OTHER else Inl ValueError)"

fun entity_class_value :: "entity_class \<Rightarrow> int" where
  "entity_class_value UNKNOWN = 0"
| "entity_class_value CARRIER = 1"
| "entity_class_value CLUSTER = 2"
| "entity_class_value MBLOCK = 3"
| "entity_class_value UBLOCK = 4"
| "entity_class_value CBLOCK = 5"
| "entity_class_value IBLOCK = 6"
| "entity_class_value SHBLOCK = 7"
| "entity_class_value FRONTPANEL = 8"
| "entity_class_value CTRLBLOCK = 9"
| "entity_class_value TBLOCK = 10"
| "entity_class_value BACK_PANEL = 11"
| "entity_class_value T_BLOCK_BPL = 12"
| "entity_class_value DEVICE = 30"
| "entity_class_value OTHER = 31"

record entity_type =
  et_class :: entity_class
  et_type :: "int option"
  et_version :: "(int \<times> int \<times> int) option"
  et_variant :: "int option"

type_synonym 'c registry = "(entity_type \<times> 'c) list"

definition fallback_type :: "entity_type \<Rightarrow> entity_type res" where
  "fallback_type t =
     (if et_variant t \<noteq> None then Inr (t\<lparr>et_variant := None\<rparr>)
      else if et_version t \<noteq> None then Inr (t\<lparr>et_version := None\<rparr>)
      else if et_type t \<noteq> None then Inr (t\<lparr>et_type := None\<rparr>)
      else Inl ValueError)"

definition register_type :: "entity_type \<Rightarrow> 'c \<Rightarrow> 'c registry \<Rightarrow> 'c registry res" where
  "register_type t c reg =
     (if map_of reg t \<noteq> None then Inl ValueError else Inr (reg @ [(t, c)]))"

fun specificity :: "entity_type \<Rightarrow> nat" where
  "specificity t =
     (if et_variant t = None then 0 else 1) + (if et_version t = None then 0 else 1)
     + (if et_type t = None then 0 else 1)"

lemma fallback_type_specificity: "fallback_type t = Inr t' \<Longrightarrow> specificity t' < specificity t"
  by (auto simp: fallback_type_def split: if_splits)

function lookup_type :: "'c registry \<Rightarrow> entity_type \<Rightarrow> bool \<Rightarrow> 'c res" where
  "lookup_type reg t decay =
     (case map_of reg t of
        Some c \<Rightarrow> Inr c
      | None \<Rightarrow>
          if \<not> decay then Inl UnknownEntityTypeError
          else case fallback_type t of
                 Inl e \<Rightarrow> Inl UnknownEntityTypeError
               | Inr t' \<Rightarrow> lookup_type reg t' True)"
  by pat_completeness auto
termination
  by (relation "measure (\<lambda>(reg, t, decay). specificity t)")
    (auto dest: fallback_type_specificity simp del: specificity.simps)

declare lookup_type.simps [simp del]

fun reverse_lookup :: "'c registry \<Rightarrow> 'c \<Rightarrow> entity_type res" where
  "reverse_lookup [] c = Inl UnknownEntityTypeError"
| "reverse_lookup ((t, d) # reg) c = (if d = c then Inr t else reverse_lookup reg c)"

text \<open>The chain of generalisations of a type, most specific first.\<close>

definition decay_chain :: "entity_type \<Rightarrow> entity_type list" where
  "decay_chain t =
     [t, t\<lparr>et_variant := None\<rparr>, t\<lparr>et_variant := None, et_version := None\<rparr>,
      t\<lparr>et_variant := None, et_version := None, et_type := None\<rparr>]"

text \<open>The classes registered by the package (\<open>@EntityType.register\<close> decorators).\<close>

datatype entity_cls =
    CBlock_cls | IBlock_cls | MBlock_cls | MIntBlock_cls | MMulBlock_cls | MMDRBlock_cls
  | SHBlock_cls | TBlock_cls | UBlock_cls | BackplaneTBlock_cls | FrontPlane_cls
  | SimConfigEntity_cls

definition plain_type :: "entity_class \<Rightarrow> int option \<Rightarrow> entity_type" where
  "plain_type c n = \<lparr>et_class = c, et_type = n, et_version = None, et_variant = None\<rparr>"

definition entity_type_registry :: "entity_cls registry" where
  "entity_type_registry =
     [(plain_type CBLOCK None, CBlock_cls), (plain_type IBLOCK None, IBlock_cls),
      (plain_type MBLOCK None, MBlock_cls), (plain_type MBLOCK (Some 1), MIntBlock_cls),
      (plain_type MBLOCK (Some 2), MMulBlock_cls), (plain_type MBLOCK (Some 3), MMDRBlock_cls),
      (plain_type SHBLOCK None, SHBlock_cls), (plain_type TBLOCK None, TBlock_cls),
      (plain_type UBLOCK None, UBlock_cls), (plain_type T_BLOCK_BPL None, BackplaneTBlock_cls),
      (plain_type FRONTPANEL None, FrontPlane_cls), (plain_type OTHER None, SimConfigEntity_cls)]"

lemma entity_class_roundtrip: "entity_class_of (entity_class_value c) = Inr c"
  by (cases c) simp_all

lemma fallback_type_Inl: "fallback_type t = Inl e \<Longrightarrow> decay_chain t = [t, t, t, t]"
  by (cases t; cases "et_version t") (auto simp: fallback_type_def decay_chain_def split: if_splits)

lemma find_fallback_chain:
  assumes "\<not> P t" and "fallback_type t = Inr t'"
  shows "find P (decay_chain t) = find P (decay_chain t')"
proof -
  obtain c n v w where t: "t = \<lparr>et_class = c, et_type = n, et_version = v, et_variant = w\<rparr>"
    by (cases t) auto
  show ?thesis
    using assms unfolding t
    by (cases w; cases v; cases n) (auto simp: fallback_type_def decay_chain_def)
qed

lemma lookup_type_chain:
  "lookup_type reg t True =
     (case find (\<lambda>g. map_of reg g \<noteq> None) (decay_chain t) of
        None \<Rightarrow> Inl UnknownEntityTypeError
      | Some g \<Rightarrow> Inr (the (map_of reg g)))"
proof (induction reg t "True" rule: lookup_type.induct)
  case (1 reg t)
  let ?P = "\<lambda>g. map_of reg g \<noteq> None"
  show ?case
  proof (cases "map_of reg t")
    case (Some c)
    then show ?thesis
      by (subst lookup_type.simps) (simp add: decay_chain_def)
  next
    case None
    show ?thesis
    proof (cases "fallback_type t")
      case (Inl e)
      then show ?thesis
        using None fallback_type_Inl [OF Inl]
        by (subst lookup_type.simps) simp
    next
      case (Inr t')
      have "find ?P (decay_chain t) = find ?P (decay_chain t')"
        using None Inr by (intro find_fallback_chain) auto
      then show ?thesis
        using 1 [OF None _ Inr] None Inr by (subst lookup_type.simps) simp
    qed
  qed
qed

lemma registry_mblock:
  assumes "et_class t = MBLOCK"
  shows "map_of entity_type_registry t =
     (if et_version t \<noteq> None \<or> et_variant t \<noteq> None then None
      else if et_type t = None then Some MBlock_cls
      else if et_type t = Some 1 then Some MIntBlock_cls
      else if et_type t = Some 2 then Some MMulBlock_cls
      else if et_type t = Some 3 then Some MMDRBlock_cls else None)"
proof -
  obtain n v w where t: "t = \<lparr>et_class = MBLOCK, et_type = n, et_version = v, et_variant = w\<rparr>"
    using assms by (cases t) auto
  show ?thesis
    unfolding t entity_type_registry_def plain_type_def by simp
qed

lemma lookup_type_mblock:
  assumes "et_class t = MBLOCK"
  shows "lookup_type entity_type_registry t True =
     Inr (if et_type t = Some 1 then MIntBlock_cls else if et_type t = Some 2 then MMulBlock_cls
          else if et_type t = Some 3 then MMDRBlock_cls else MBlock_cls)"
  using assms by (simp add: lookup_type_chain decay_chain_def registry_mblock)

lemma reverse_lookup_registered:
  "reverse_lookup reg c = Inr t \<Longrightarrow> (t, c) \<in> set reg"
  by (induction reg c rule: reverse_lookup.induct) (auto split: if_splits)

section \<open>Virtual MAC addresses\<close>

definition virtual_addresses :: "string list" where
  "virtual_addresses =
     [''00-00-00-00-00-00'', ''00-00-00-00-00-01'', ''00-00-00-00-00-02'',
      ''00-00-01-00-00-00'', ''00-00-01-00-00-01'', ''00-00-01-00-00-02'',
      ''01-00-00-00-00-00'', ''01-00-00-00-00-01'', ''01-00-00-00-00-02'',
      ''01-00-01-00-00-00'', ''01-00-01-00-00-01'', ''01-00-01-00-00-02'']"

definition map_redac :: "int \<Rightarrow> string option res" where
  "map_redac ix =
     (if ix < int (length virtual_addresses)
      then rbind (py_get virtual_addresses ix) (\<lambda>a. Inr (Some a)) else Inr None)"

definition index_of_redac :: "string \<Rightarrow> int option" where
  "index_of_redac mac = find (\<lambda>ix. map_redac ix = Inr (Some mac)) (map int [0..<12])"

lemma map_redac_nth: "k < 12 \<Longrightarrow> map_redac (int k) = Inr (Some (virtual_addresses ! k))"
  unfolding map_redac_def by (subst py_get_int) (simp_all add: virtual_addresses_def)

lemma distinct_virtual_addresses: "distinct virtual_addresses"
  by (simp add: virtual_addresses_def)

lemma length_virtual_addresses: "length virtual_addresses = 12"
  by (simp add: virtual_addresses_def)

lemma map_redac_inj:
  assumes "j < 12" and "k < 12" and "map_redac (int j) = map_redac (int k)"
  shows "j = k"
proof -
  have "virtual_addresses ! j = virtual_addresses ! k"
    using assms by (simp add: map_redac_nth)
  then show ?thesis
    using assms distinct_virtual_addresses by (simp add: nth_eq_iff_index_eq length_virtual_addresses)
qed

lemma find_unique:
  assumes "x \<in> set xs" and "P x" and unique: "\<And>y. y \<in> set xs \<Longrightarrow> P y \<Longrightarrow> y = x"
  shows "find P xs = Some x"
proof (cases "find P xs")
  case None
  with assms(1,2) show ?thesis by (simp add: find_None_iff)
next
  case (Some y)
  then have "y \<in> set xs \<and> P y"
    by (auto simp: find_Some_iff)
  then show ?thesis
    using unique [of y] Some by simp
qed

lemma index_of_redac_map_redac:
  assumes "k < 12" and "map_redac (int k) = Inr (Some mac)"
  shows "index_of_redac mac = Some (int k)"
  unfolding index_of_redac_def
proof (rule find_unique)
  fix i
  assume "i \<in> set (map int [0..<12])" and i: "map_redac i = Inr (Some mac)"
  then obtain j where j: "j < 12" "i = int j"
    by auto
  have "map_redac (int j) = map_redac (int k)"
    using i assms(2) unfolding j(2) by (rule trans [OF _ sym])
  then show "i = int k"
    unfolding j(2) using map_redac_inj [OF j(1) assms(1)] by simp
next
  show "int k \<in> set (map int [0..<12])"
    using assms(1) by simp
  show "map_redac (int k) = Inr (Some mac)"
    by (rule assms(2))
qed

end
