(* ===== verification/Blocks.thy ===== *)
theory Blocks
  imports Entities
begin

text \<open>
  The function blocks (redac/blocks/*.py), the computations they hold (base/analog/computations.py,
  redac/computations.py), and the boards that hold the blocks: \<open>Cluster\<close> (redac/cluster.py) and
  \<open>Carrier\<close> (redac/carrier.py).

  Each block is a record of the attributes its operations read and write. A list of
  \<open>ComputationElement\<close> objects is the list of the attributes of their computations.

  The matrix view of a cluster, \<open>cluster_gain\<close>, says what an analog configuration computes: the
  weight with which an M-block output reaches an M-block input, summed over the 32 lanes
  U-block \<rightarrow> coefficient (\<rightarrow> up-scaling by 8) \<rightarrow> I-block.
\<close>

section \<open>U-block\<close>

datatype const_val = CBool bool | CFloat rat

record ublock =
  u_outputs :: "int option list"
  u_constant :: const_val

definition new_ublock :: ublock where
  "new_ublock = \<lparr>u_outputs = replicate 32 None, u_constant = CBool False\<rparr>"

definition u_reset :: "ublock \<Rightarrow> ublock" where
  "u_reset b = \<lparr>u_outputs = replicate 32 None, u_constant = CBool False\<rparr>"

definition u_set_constant :: "const_val \<Rightarrow> ublock \<Rightarrow> ublock" where
  "u_set_constant v b = b\<lparr>u_constant := v\<rparr>"

text \<open>Truth value of the attribute \<open>constant\<close>, and its comparison with 1.0 / \<open>True\<close>.\<close>

fun const_truthy :: "const_val \<Rightarrow> bool" where
  "const_truthy (CBool b) = b"
| "const_truthy (CFloat x) = (x \<noteq> 0)"

definition u_connect :: "int \<Rightarrow> int list \<Rightarrow> bool \<Rightarrow> (ublock, unit) pym" where
  "u_connect inp outs force =
     sbind (if force then ret ()
            else for_each outs (\<lambda>out.
              sbind (eval_st (\<lambda>b. py_get (u_outputs b) out)) (\<lambda>cur.
                guard (cur = None \<or> cur = Some inp) SignalConnectionError)))
      (\<lambda>_. for_each outs (\<lambda>out.
             update_st (\<lambda>b. rbind (py_set (u_outputs b) out (Some inp))
                              (\<lambda>xs. Inr (b\<lparr>u_outputs := xs\<rparr>)))))"

section \<open>I-block\<close>

record iblock =
  i_outputs :: "int set list"
  i_upscaling :: "bool list"

definition new_iblock :: iblock where
  "new_iblock = \<lparr>i_outputs = replicate 16 {}, i_upscaling = replicate 32 False\<rparr>"

definition i_reset :: "iblock \<Rightarrow> iblock" where
  "i_reset b = \<lparr>i_outputs = replicate 16 {}, i_upscaling = replicate 32 False\<rparr>"

definition i_connect :: "int set \<Rightarrow> int \<Rightarrow> bool \<Rightarrow> (iblock, unit) pym" where
  "i_connect inputs out force =
     sbind (if force then ret ()
            else sbind get_st (\<lambda>b. for_each (enumerate 0 (i_outputs b)) (\<lambda>(other, S).
              guard (int other = out \<or> S \<inter> inputs = {}) SignalConnectionError)))
      (\<lambda>_. update_st (\<lambda>b. rbind (py_get (i_outputs b) out) (\<lambda>S.
             rbind (py_set (i_outputs b) out (S \<union> inputs)) (\<lambda>xs. Inr (b\<lparr>i_outputs := xs\<rparr>)))))"

definition i_set_upscaling :: "int \<Rightarrow> bool \<Rightarrow> (iblock, unit) pym" where
  "i_set_upscaling lane v =
     update_st (\<lambda>b. rbind (py_set (i_upscaling b) lane v) (\<lambda>xs. Inr (b\<lparr>i_upscaling := xs\<rparr>)))"

section \<open>T-blocks\<close>

record tblock =
  t_muxes :: "int option list"

definition new_tblock :: tblock where
  "new_tblock = \<lparr>t_muxes = concat (replicate 24 [Some 0, Some 1, Some 2, Some 3])\<rparr>"

definition t_reset :: "tblock \<Rightarrow> tblock" where
  "t_reset b = \<lparr>t_muxes = concat (replicate 24 [Some 0, Some 1, Some 2, Some 3])\<rparr>"

definition t_index :: "int \<Rightarrow> int \<Rightarrow> int res" where
  "t_index dst lane =
     rbind (rassert (0 \<le> dst \<and> dst < 4) AssertionError) (\<lambda>_.
     rbind (rassert (0 \<le> lane \<and> lane < 24) AssertionError) (\<lambda>_. Inr (lane * 4 + dst)))"

definition t_connect :: "int \<Rightarrow> int \<Rightarrow> int \<Rightarrow> (tblock, unit) pym" where
  "t_connect src dst lane =
     sbind (guard (0 \<le> src \<and> src < 4) PlainException) (\<lambda>_.
     sbind (guard (0 \<le> dst \<and> dst < 4) PlainException) (\<lambda>_.
     sbind (guard (0 \<le> lane \<and> lane < 24) PlainException) (\<lambda>_.
     update_st (\<lambda>b. rbind (t_index dst lane) (\<lambda>i.
       rbind (py_set (t_muxes b) i (Some src)) (\<lambda>xs. Inr (b\<lparr>t_muxes := xs\<rparr>)))))))"

definition t_source :: "int \<Rightarrow> int \<Rightarrow> tblock \<Rightarrow> int option res" where
  "t_source dst lane b = rbind (t_index dst lane) (\<lambda>i. py_get (t_muxes b) i)"

record backplane_tblock =
  b_sectors :: "int option list list"

definition new_backplane_tblock :: backplane_tblock where
  "new_backplane_tblock = \<lparr>b_sectors = replicate 9 (replicate 8 None)\<rparr>"

definition b_reset :: "backplane_tblock \<Rightarrow> backplane_tblock" where
  "b_reset b = \<lparr>b_sectors = replicate 9 (replicate 8 None)\<rparr>"

definition b_connect :: "int \<Rightarrow> int \<Rightarrow> int \<Rightarrow> (backplane_tblock, unit) pym" where
  "b_connect src dst lane =
     sbind (guard (0 \<le> src \<and> src < 9) AssertionError) (\<lambda>_.
     sbind (guard (0 \<le> dst \<and> dst < 9) AssertionError) (\<lambda>_.
     sbind (guard (0 \<le> lane \<and> lane < 8) AssertionError) (\<lambda>_.
     update_st (\<lambda>b. rbind (py_get (b_sectors b) dst) (\<lambda>row.
       rbind (py_set row lane (Some src)) (\<lambda>row'.
       rbind (py_set (b_sectors b) dst row') (\<lambda>xs. Inr (b\<lparr>b_sectors := xs\<rparr>))))))))"

definition b_source :: "int \<Rightarrow> int \<Rightarrow> backplane_tblock \<Rightarrow> int option res" where
  "b_source dst lane b = rbind (py_get (b_sectors b) dst) (\<lambda>row. py_get row lane)"

text \<open>
  The contract both T-blocks offer to the router: a connection with indices in range is
  stored, is read back, and touches no other multiplexer; the block keeps its shape.
\<close>

locale mux_block =
  fixes connect :: "int \<Rightarrow> int \<Rightarrow> int \<Rightarrow> ('b, unit) pym"
    and source :: "int \<Rightarrow> int \<Rightarrow> 'b \<Rightarrow> int option res"
    and shape :: "'b \<Rightarrow> bool"
    and ok :: "int \<Rightarrow> int \<Rightarrow> int \<Rightarrow> bool"
    and put :: "int \<Rightarrow> int \<Rightarrow> int \<Rightarrow> 'b \<Rightarrow> 'b"
  assumes connect_ok: "shape b \<Longrightarrow> ok s d l \<Longrightarrow> connect s d l b = (Inr (), put s d l b)"
    and connect_bad: "\<not> ok s d l \<Longrightarrow> \<exists>e. connect s d l b = (Inl e, b)"
    and shape_put: "shape b \<Longrightarrow> ok s d l \<Longrightarrow> shape (put s d l b)"
    and source_put_same: "shape b \<Longrightarrow> ok s d l \<Longrightarrow> source d l (put s d l b) = Inr (Some s)"
    and source_put_other:
      "shape b \<Longrightarrow> ok s d l \<Longrightarrow> ok s' d' l' \<Longrightarrow> (d', l') \<noteq> (d, l) \<Longrightarrow>
         source d' l' (put s d l b) = source d' l' b"
begin

lemma keeps_shape: "keeps shape (connect s d l)"
proof -
  have "case connect s d l b of (Inl e, b') \<Rightarrow> shape b' | (Inr _, b') \<Rightarrow> shape b'" if "shape b" for b
  proof (cases "ok s d l")
    case True
    with that show ?thesis by (simp add: connect_ok shape_put)
  next
    case False
    from connect_bad [OF this, of b] that show ?thesis by auto
  qed
  then show ?thesis by (simp add: triple_def)
qed

lemma connect_Inr_iff: "shape b \<Longrightarrow> connect s d l b = (Inr u, b') \<longleftrightarrow> ok s d l \<and> b' = put s d l b"
  using connect_ok [of b s d l] connect_bad [of s d l b] by (cases "ok s d l") auto

lemma source_after_connect:
  assumes "shape b" and "connect s d l b = (Inr u, b')"
  shows "source d l b' = Inr (Some s)"
  using assms source_put_same by (auto simp: connect_Inr_iff)

text \<open>A list of connections to distinct multiplexers: every one of them can be read back.\<close>

lemma source_after_connects:
  assumes "shape b" and "\<And>s d l. (s, d, l) \<in> set cs \<Longrightarrow> ok s d l"
    and "distinct (map snd cs)" and "(s, d, l) \<in> set cs"
  shows "source d l (fold (\<lambda>(s, d, l). put s d l) cs b) = Inr (Some s)"
  using assms
proof (induction cs arbitrary: b)
  case Nil
  then show ?case by simp
next
  case (Cons c cs)
  obtain s1 d1 l1 where c: "c = (s1, d1, l1)"
    by (cases c) auto
  have ok1: "ok s1 d1 l1" and sh: "shape (put s1 d1 l1 b)"
    using Cons.prems(1,2) c by (auto intro: shape_put)
  have frame: "source d l (fold (\<lambda>(s, d, l). put s d l) cs b') = source d l b'"
    if "shape b'" "(d, l) \<notin> set (map snd cs)" "ok s d l"
      "\<And>s d l. (s, d, l) \<in> set cs \<Longrightarrow> ok s d l" for b'
    using that
  proof (induction cs arbitrary: b')
    case (Cons c' cs')
    then show ?case
      by (cases c') (auto simp: source_put_other shape_put)
  qed simp
  show ?case
  proof (cases "(s, d, l) \<in> set cs")
    case True
    with Cons.prems c sh show ?thesis by (auto intro!: Cons.IH)
  next
    case False
    with Cons.prems c have "(s, d, l) = (s1, d1, l1)"
      by auto
    with Cons.prems c ok1 sh frame [OF sh] show ?thesis
      by (auto simp: source_put_same)
  qed
qed

end

definition t_ok :: "int \<Rightarrow> int \<Rightarrow> int \<Rightarrow> bool" where
  "t_ok s d l \<longleftrightarrow> 0 \<le> s \<and> s < 4 \<and> 0 \<le> d \<and> d < 4 \<and> 0 \<le> l \<and> l < 24"

definition t_shape :: "tblock \<Rightarrow> bool" where
  "t_shape b \<longleftrightarrow> length (t_muxes b) = 96"

definition t_put :: "int \<Rightarrow> int \<Rightarrow> int \<Rightarrow> tblock \<Rightarrow> tblock" where
  "t_put s d l b = b\<lparr>t_muxes := (t_muxes b)[nat (l * 4 + d) := Some s]\<rparr>"

definition b_ok :: "int \<Rightarrow> int \<Rightarrow> int \<Rightarrow> bool" where
  "b_ok s d l \<longleftrightarrow> 0 \<le> s \<and> s < 9 \<and> 0 \<le> d \<and> d < 9 \<and> 0 \<le> l \<and> l < 8"

definition b_shape :: "backplane_tblock \<Rightarrow> bool" where
  "b_shape b \<longleftrightarrow> length (b_sectors b) = 9 \<and> (\<forall>row \<in> set (b_sectors b). length row = 8)"

definition b_put :: "int \<Rightarrow> int \<Rightarrow> int \<Rightarrow> backplane_tblock \<Rightarrow> backplane_tblock" where
  "b_put s d l b =
     b\<lparr>b_sectors := (b_sectors b)[nat d := (b_sectors b ! nat d)[nat l := Some s]]\<rparr>"

lemma new_tblock_shape: "t_shape new_tblock"
  by (simp add: t_shape_def new_tblock_def length_concat numeral_eq_Suc)

lemma new_backplane_tblock_shape: "b_shape new_backplane_tblock"
  by (simp add: b_shape_def new_backplane_tblock_def)

lemma t_source_in_range:
  "t_shape b \<Longrightarrow> 0 \<le> d \<Longrightarrow> d < 4 \<Longrightarrow> 0 \<le> l \<Longrightarrow> l < 24 \<Longrightarrow>
     t_source d l b = Inr (t_muxes b ! nat (l * 4 + d))"
  by (simp add: t_source_def t_index_def t_shape_def)

lemma b_source_in_range:
  assumes "b_shape b" and "0 \<le> d" and "d < 9" and "0 \<le> l" and "l < 8"
  shows "b_source d l b = Inr (b_sectors b ! nat d ! nat l)"
proof -
  have "length (b_sectors b ! nat d) = 8"
    using assms by (auto simp: b_shape_def)
  with assms show ?thesis
    by (simp add: b_source_def b_shape_def)
qed

interpretation tmux: mux_block t_connect t_source t_shape t_ok t_put
proof unfold_locales
  fix b s d l
  assume "t_shape b" and "t_ok s d l"
  then show "t_connect s d l b = (Inr (), t_put s d l b)"
    by (simp add: t_connect_def t_index_def t_put_def t_ok_def t_shape_def pym_defs)
next
  fix b s d l
  assume "\<not> t_ok s d l"
  then show "\<exists>e. t_connect s d l b = (Inl e, b)"
    by (auto simp: t_connect_def t_ok_def pym_defs)
next
  fix b s d l
  assume "t_shape b" and "t_ok s d l"
  then show "t_shape (t_put s d l b)"
    by (simp add: t_shape_def t_put_def)
next
  fix b s d l
  assume "t_shape b" and "t_ok s d l"
  then show "t_source d l (t_put s d l b) = Inr (Some s)"
    by (simp add: t_source_def t_index_def t_put_def t_ok_def t_shape_def nat_less_iff)
next
  fix b s d l s' d' l'
  assume *: "t_shape b" "t_ok s d l" "t_ok s' d' l'" "(d', l') \<noteq> (d, l)"
  then have "l' * 4 + d' \<noteq> l * 4 + d"
    unfolding t_ok_def by simp presburger
  with * have "nat (l' * 4 + d') \<noteq> nat (l * 4 + d)"
    by (simp add: t_ok_def eq_nat_nat_iff)
  with * show "t_source d' l' (t_put s d l b) = t_source d' l' b"
    by (simp add: t_source_def t_index_def t_put_def t_ok_def t_shape_def)
qed

interpretation bmux: mux_block b_connect b_source b_shape b_ok b_put
proof unfold_locales
  fix b s d l
  assume *: "b_shape b" "b_ok s d l"
  then have "length (b_sectors b ! nat d) = 8"
    by (auto simp: b_shape_def b_ok_def)
  with * show "b_connect s d l b = (Inr (), b_put s d l b)"
    by (simp add: b_connect_def b_put_def b_ok_def b_shape_def pym_defs)
next
  fix b s d l
  assume "\<not> b_ok s d l"
  then show "\<exists>e. b_connect s d l b = (Inl e, b)"
    by (auto simp: b_connect_def b_ok_def pym_defs)
next
  fix b s d l
  assume "b_shape b" and "b_ok s d l"
  then show "b_shape (b_put s d l b)"
    by (auto simp: b_shape_def b_ok_def b_put_def dest!: subsetD [OF set_update_subset_insert])
next
  fix b s d l
  assume *: "b_shape b" "b_ok s d l"
  then have "length (b_sectors b ! nat d) = 8"
    by (auto simp: b_shape_def b_ok_def)
  with * show "b_source d l (b_put s d l b) = Inr (Some s)"
    by (simp add: b_source_def b_put_def b_ok_def b_shape_def nat_less_iff)
next
  fix b s d l s' d' l'
  assume *: "b_shape b" "b_ok s d l" "b_ok s' d' l'" "(d', l') \<noteq> (d, l)"
  have "length (b_sectors b ! nat d') = 8"
    using * by (auto simp: b_shape_def b_ok_def)
  moreover have "nat d' \<noteq> nat d \<or> nat l' \<noteq> nat l"
    using * by (auto simp: b_ok_def)
  ultimately show "b_source d' l' (b_put s d l b) = b_source d' l' b"
    using * by (cases "nat d' = nat d") (auto simp: b_source_def b_put_def b_ok_def b_shape_def)
qed

section \<open>Computations and the blocks that hold them\<close>

text \<open>\<open>ScalarMultiplicationFactor\<close>: assignment to \<open>factor\<close> is validated against [-1, 1].\<close>

definition validate_factor :: "rat \<Rightarrow> unit res" where
  "validate_factor v = rassert (- 1 \<le> v \<and> v \<le> 1) ValueError"

record cblock =
  c_factors :: "rat list"

definition new_cblock :: cblock where
  "new_cblock = \<lparr>c_factors = replicate 32 1\<rparr>"

definition c_set_factor :: "int \<Rightarrow> rat \<Rightarrow> (cblock, unit) pym" where
  "c_set_factor i v =
     update_st (\<lambda>b. rbind (py_get (c_factors b) i) (\<lambda>_. rbind (validate_factor v) (\<lambda>_.
       rbind (py_set (c_factors b) i v) (\<lambda>xs. Inr (b\<lparr>c_factors := xs\<rparr>)))))"

record integration =
  ig_ic :: rat
  ig_k :: int

definition new_integration :: integration where
  "new_integration = \<lparr>ig_ic = 0, ig_k = 10000\<rparr>"

datatype mdr_op = Multiplication | Square | Division | SquareRoot | Identity_op

record mint_block =
  mi_elements :: "integration list"
  mi_limiters :: "bool list"

definition new_mint_block :: mint_block where
  "new_mint_block = \<lparr>mi_elements = replicate 8 new_integration, mi_limiters = replicate 8 False\<rparr>"

datatype mblock = MIntBlock mint_block | MMulBlock | MMDRBlock "mdr_op list" | MBlock

text \<open>
  \<open>element.reset()\<close> inside the block resets resolves to \<open>Entity.reset\<close> (base/hybrid/entities.py),
  which only visits the element's children; a \<open>ComputationElement\<close> has none, so the attributes
  of its computation keep their values.
\<close>

definition element_reset :: "'a \<Rightarrow> 'a" where
  "element_reset computation = computation"

definition c_reset :: "cblock \<Rightarrow> cblock" where
  "c_reset b = b\<lparr>c_factors := map element_reset (c_factors b)\<rparr>"

definition mi_reset :: "mint_block \<Rightarrow> mint_block" where
  "mi_reset b =
     b\<lparr>mi_limiters := replicate 8 False, mi_elements := map element_reset (mi_elements b)\<rparr>"

fun m_reset :: "mblock \<Rightarrow> mblock" where
  "m_reset (MIntBlock b) = MIntBlock (mi_reset b)"
| "m_reset (MMDRBlock ops) = MMDRBlock (map element_reset ops)"
| "m_reset MMulBlock = MMulBlock"
| "m_reset MBlock = MBlock"

section \<open>Cluster\<close>

record cluster =
  cl_path :: path
  cl_location :: "loc option"
  cl_m0 :: "mblock option"
  cl_m1 :: "mblock option"
  cl_u :: ublock
  cl_c :: cblock
  cl_i :: iblock

definition cl_reset :: "cluster \<Rightarrow> cluster" where
  "cl_reset c =
     c\<lparr>cl_m0 := map_option m_reset (cl_m0 c), cl_m1 := map_option m_reset (cl_m1 c),
       cl_u := u_reset (cl_u c), cl_c := c_reset (cl_c c), cl_i := i_reset (cl_i c)\<rparr>"

definition on_u :: "(ublock, 'a) pym \<Rightarrow> (cluster, 'a) pym" where
  "on_u = zoom cl_u (\<lambda>b c. c\<lparr>cl_u := b\<rparr>)"

definition on_c :: "(cblock, 'a) pym \<Rightarrow> (cluster, 'a) pym" where
  "on_c = zoom cl_c (\<lambda>b c. c\<lparr>cl_c := b\<rparr>)"

definition on_i :: "(iblock, 'a) pym \<Rightarrow> (cluster, 'a) pym" where
  "on_i = zoom cl_i (\<lambda>b c. c\<lparr>cl_i := b\<rparr>)"

definition cl_set_constant :: "const_val \<Rightarrow> (cluster, unit) pym" where
  "cl_set_constant v = on_u (modify (u_set_constant v))"

definition cl_route :: "int \<Rightarrow> int \<Rightarrow> rat \<Rightarrow> int \<Rightarrow> (cluster, unit) pym" where
  "cl_route m_out u_out c_factor m_in =
     sbind (if \<bar>c_factor\<bar> > 1
            then sbind (guard (\<not> \<bar>c_factor / 8\<bar> > 1) ValueError) (\<lambda>_.
                 sbind (on_i (i_set_upscaling u_out True)) (\<lambda>_. ret (c_factor / 8)))
            else ret c_factor) (\<lambda>f.
     sbind (on_u (u_connect m_out [u_out] False)) (\<lambda>_.
     sbind (on_c (c_set_factor u_out f)) (\<lambda>_.
     on_i (i_connect {u_out} m_in False))))"

definition cl_add_constant :: "int \<Rightarrow> rat \<Rightarrow> int \<Rightarrow> const_val \<Rightarrow> (cluster, unit) pym" where
  "cl_add_constant u_out c_factor m_in v =
     sbind (cl_set_constant v) (\<lambda>_.
     cl_route (if u_out > 15 then 14 else 15) u_out c_factor m_in)"

subsection \<open>What a cluster computes\<close>

definition wf_cluster :: "cluster \<Rightarrow> bool" where
  "wf_cluster c \<longleftrightarrow>
     length (u_outputs (cl_u c)) = 32 \<and> length (c_factors (cl_c c)) = 32 \<and>
     length (i_outputs (cl_i c)) = 16 \<and> length (i_upscaling (cl_i c)) = 32"

definition lane_gain :: "cluster \<Rightarrow> nat \<Rightarrow> rat" where
  "lane_gain c l = c_factors (cl_c c) ! l * (if i_upscaling (cl_i c) ! l then 8 else 1)"

definition lane_routed :: "cluster \<Rightarrow> int \<Rightarrow> nat \<Rightarrow> nat \<Rightarrow> bool" where
  "lane_routed c src l tgt \<longleftrightarrow>
     u_outputs (cl_u c) ! l = Some src \<and> int l \<in> i_outputs (cl_i c) ! tgt"

definition cluster_gain :: "cluster \<Rightarrow> int \<Rightarrow> nat \<Rightarrow> rat" where
  "cluster_gain c src tgt = (\<Sum>l<32. if lane_routed c src l tgt then lane_gain c l else 0)"

text \<open>A lane no signal uses: no source, no target, not up-scaled.\<close>

definition lane_free :: "cluster \<Rightarrow> nat \<Rightarrow> bool" where
  "lane_free c l \<longleftrightarrow>
     u_outputs (cl_u c) ! l = None \<and> \<not> i_upscaling (cl_i c) ! l \<and>
     (\<forall>tgt<16. int l \<notin> i_outputs (cl_i c) ! tgt)"

text \<open>The effect of wiring a free lane: source, coefficient, up-scaling switch, target.\<close>

definition wire_lane :: "int \<Rightarrow> nat \<Rightarrow> rat \<Rightarrow> bool \<Rightarrow> nat \<Rightarrow> cluster \<Rightarrow> cluster" where
  "wire_lane src l f up tgt c =
     c\<lparr>cl_u := (cl_u c)\<lparr>u_outputs := (u_outputs (cl_u c))[l := Some src]\<rparr>,
       cl_c := (cl_c c)\<lparr>c_factors := (c_factors (cl_c c))[l := f]\<rparr>,
       cl_i := (cl_i c)\<lparr>i_outputs := (i_outputs (cl_i c))[tgt := i_outputs (cl_i c) ! tgt \<union> {int l}],
                       i_upscaling := (i_upscaling (cl_i c))[l := up]\<rparr>\<rparr>"

lemma wf_wire_lane: "wf_cluster c \<Longrightarrow> wf_cluster (wire_lane src l f up tgt c)"
  by (simp add: wf_cluster_def wire_lane_def)

lemma lane_free_wire_other:
  "wf_cluster c \<Longrightarrow> l' \<noteq> l \<Longrightarrow> l < 32 \<Longrightarrow> tgt < 16 \<Longrightarrow> lane_free (wire_lane src l f up tgt c) l' = lane_free c l'"
  by (auto simp: wf_cluster_def lane_free_def wire_lane_def nth_list_update)

lemma lane_routed_wire_lane:
  assumes "wf_cluster c" and "lane_free c l" and "l < 32" and "tgt < 16" and "t < 16"
  shows "lane_routed (wire_lane src l f up tgt c) s l' t \<longleftrightarrow>
     (if l' = l then s = src \<and> t = tgt else lane_routed c s l' t)"
  using assms by (auto simp: wf_cluster_def lane_free_def lane_routed_def wire_lane_def nth_list_update)

lemma lane_gain_wire_lane:
  "wf_cluster c \<Longrightarrow> l < 32 \<Longrightarrow>
     lane_gain (wire_lane src l f up tgt c) l' = (if l' = l then f * (if up then 8 else 1) else lane_gain c l')"
  by (auto simp: wf_cluster_def lane_gain_def wire_lane_def nth_list_update)

lemma sum_single_lane:
  fixes g :: "nat \<Rightarrow> rat"
  assumes "l < n"
  shows "(\<Sum>i<n. if i = l then a else g i) = (\<Sum>i<n. g i) - g l + a"
proof -
  have fin: "finite {..<n}" and mem: "l \<in> {..<n}"
    using assms by auto
  have "(\<Sum>i<n. if i = l then a else g i) = a + (\<Sum>i\<in>{..<n} - {l}. if i = l then a else g i)"
    using sum.remove [OF fin mem, of "\<lambda>i. if i = l then a else g i"] by simp
  also have "(\<Sum>i\<in>{..<n} - {l}. if i = l then a else g i) = (\<Sum>i\<in>{..<n} - {l}. g i)"
    by (rule sum.cong) auto
  also have "\<dots> = (\<Sum>i<n. g i) - g l"
    using sum.remove [OF fin mem, of g] by simp
  finally show ?thesis by simp
qed

lemma cluster_gain_wire_lane:
  assumes "wf_cluster c" and "lane_free c l" and "l < 32" and "tgt < 16" and "t < 16"
  shows "cluster_gain (wire_lane src l f up tgt c) s t =
     cluster_gain c s t + (if s = src \<and> t = tgt then f * (if up then 8 else 1) else 0)"
proof -
  let ?c = "wire_lane src l f up tgt c"
  let ?g = "\<lambda>l'. if lane_routed c s l' t then lane_gain c l' else 0"
  have "cluster_gain ?c s t =
      (\<Sum>l'<32. if l' = l then (if s = src \<and> t = tgt then f * (if up then 8 else 1) else 0) else ?g l')"
    unfolding cluster_gain_def
    by (rule sum.cong) (use assms in \<open>auto simp: lane_routed_wire_lane lane_gain_wire_lane\<close>)
  also have "\<dots> = (\<Sum>l'<32. ?g l') - ?g l + (if s = src \<and> t = tgt then f * (if up then 8 else 1) else 0)"
    by (rule sum_single_lane [OF assms(3)])
  also have "?g l = 0"
    using assms(2) by (simp add: lane_routed_def lane_free_def)
  finally show ?thesis
    by (simp add: cluster_gain_def)
qed

subsection \<open>The block operations on a free lane\<close>

lemma u_connect_free:
  assumes "l < length (u_outputs b)" and "u_outputs b ! l = None"
  shows "u_connect src [int l] force b = (Inr (), b\<lparr>u_outputs := (u_outputs b)[l := Some src]\<rparr>)"
  using assms by (simp add: u_connect_def pym_defs)

lemma for_each_guard_ok:
  "(\<And>x. x \<in> set xs \<Longrightarrow> P x) \<Longrightarrow> for_each xs (\<lambda>x. guard (P x) e) s = (Inr (), s)"
  by (induction xs) (auto simp: pym_defs)

lemma for_each_guard_bad:
  "x \<in> set xs \<Longrightarrow> \<not> P x \<Longrightarrow> for_each xs (\<lambda>x. guard (P x) e) s = (Inl e, s)"
  by (induction xs) (auto simp: pym_defs)

lemma i_connect_free:
  assumes "tgt < length (i_outputs b)"
    and "\<And>j. j < length (i_outputs b) \<Longrightarrow> j \<noteq> tgt \<Longrightarrow> int l \<notin> i_outputs b ! j"
  shows "i_connect {int l} (int tgt) False b =
     (Inr (), b\<lparr>i_outputs := (i_outputs b)[tgt := i_outputs b ! tgt \<union> {int l}]\<rparr>)"
proof -
  have "for_each (enumerate 0 (i_outputs b))
      (\<lambda>(other, S). guard (int other = int tgt \<or> S \<inter> {int l} = {}) SignalConnectionError) b = (Inr (), b)"
    using for_each_guard_ok [of "enumerate 0 (i_outputs b)"
        "\<lambda>(other, S). int other = int tgt \<or> S \<inter> {int l} = {}" SignalConnectionError b] assms(2)
    by (force simp: in_set_enumerate_eq split_def)
  with assms(1) show ?thesis
    by (simp add: i_connect_def pym_defs)
qed

lemma c_set_factor_ok:
  "l < length (c_factors b) \<Longrightarrow> - 1 \<le> v \<Longrightarrow> v \<le> 1 \<Longrightarrow>
     c_set_factor (int l) v b = (Inr (), b\<lparr>c_factors := (c_factors b)[l := v]\<rparr>)"
  by (simp add: c_set_factor_def validate_factor_def pym_defs)

lemma i_set_upscaling_ok:
  "l < length (i_upscaling b) \<Longrightarrow>
     i_set_upscaling (int l) v b = (Inr (), b\<lparr>i_upscaling := (i_upscaling b)[l := v]\<rparr>)"
  by (simp add: i_set_upscaling_def pym_defs)

lemma free_lane_i_outputs:
  "wf_cluster c \<Longrightarrow> lane_free c l \<Longrightarrow> j < 16 \<Longrightarrow> int l \<notin> i_outputs (cl_i c) ! j"
  by (simp add: lane_free_def)

lemma cl_route_free:
  assumes "wf_cluster c" and "lane_free c l" and "l < 32" and "tgt < 16" and "\<bar>w\<bar> \<le> 8"
  shows "cl_route src (int l) w (int tgt) c =
     (Inr (), wire_lane src l (if \<bar>w\<bar> > 1 then w / 8 else w) (\<bar>w\<bar> > 1) tgt c)"
proof -
  have up: "(i_upscaling (cl_i c))[l := False] = i_upscaling (cl_i c)"
    using assms(2) by (metis (full_types) lane_free_def list_update_id)
  have i: "i_connect {int l} (int tgt) False (cl_i c\<lparr>i_upscaling := xs\<rparr>) =
      (Inr (), cl_i c\<lparr>i_outputs := (i_outputs (cl_i c))[tgt := i_outputs (cl_i c) ! tgt \<union> {int l}],
                     i_upscaling := xs\<rparr>)" for xs
    using i_connect_free [of tgt "cl_i c\<lparr>i_upscaling := xs\<rparr>" l] assms(1,4)
      free_lane_i_outputs [OF assms(1,2)]
    by (simp add: wf_cluster_def)
  have i': "i_connect {int l} (int tgt) False (cl_i c) =
      (Inr (), cl_i c\<lparr>i_outputs := (i_outputs (cl_i c))[tgt := i_outputs (cl_i c) ! tgt \<union> {int l}]\<rparr>)"
    using i [of "i_upscaling (cl_i c)"] by simp
  have u: "u_connect src [int l] False (cl_u c) =
      (Inr (), (cl_u c)\<lparr>u_outputs := (u_outputs (cl_u c))[l := Some src]\<rparr>)"
    using assms(1-3) by (intro u_connect_free) (simp_all add: wf_cluster_def lane_free_def)
  have s: "i_set_upscaling (int l) True (cl_i c) =
      (Inr (), (cl_i c)\<lparr>i_upscaling := (i_upscaling (cl_i c))[l := True]\<rparr>)"
    using assms(1,3) by (intro i_set_upscaling_ok) (simp add: wf_cluster_def)
  show ?thesis
  proof (cases "\<bar>w\<bar> > 1")
    case True
    then have f: "- 1 \<le> w / 8" "w / 8 \<le> 1" "\<not> \<bar>w / 8\<bar> > 1"
      using assms(5) by auto
    have cf: "c_set_factor (int l) (w / 8) (cl_c c) =
        (Inr (), (cl_c c)\<lparr>c_factors := (c_factors (cl_c c))[l := w / 8]\<rparr>)"
      using assms(1,3) f by (intro c_set_factor_ok) (simp_all add: wf_cluster_def)
    show ?thesis
      using True f i s u cf
      by (simp add: cl_route_def on_u_def on_c_def on_i_def wire_lane_def pym_defs)
  next
    case False
    then have f: "- 1 \<le> w" "w \<le> 1"
      by auto
    have cf: "c_set_factor (int l) w (cl_c c) =
        (Inr (), (cl_c c)\<lparr>c_factors := (c_factors (cl_c c))[l := w]\<rparr>)"
      using assms(1,3) f by (intro c_set_factor_ok) (simp_all add: wf_cluster_def)
    show ?thesis
      using False i' u cf up
      by (simp add: cl_route_def on_u_def on_c_def on_i_def wire_lane_def pym_defs)
  qed
qed

subsection \<open>The block operations in general\<close>

lemma u_connect_cases:
  obtains e where "u_connect src [out] False b = (Inl e, b)"
  | j where "j < length (u_outputs b)" "py_idx (length (u_outputs b)) out = Some j"
      "u_connect src [out] False b = (Inr (), b\<lparr>u_outputs := (u_outputs b)[j := Some src]\<rparr>)"
proof (cases "py_idx (length (u_outputs b)) out")
  case None
  then show ?thesis
    using that(1) by (simp add: u_connect_def pym_defs py_get_def)
next
  case (Some j)
  then show ?thesis
    using that by (cases "u_outputs b ! j = None \<or> u_outputs b ! j = Some src")
      (auto simp: u_connect_def pym_defs py_get_def py_set_def py_idx_bound)
qed

lemma i_connect_cases:
  obtains e where "i_connect S out False b = (Inl e, b)"
  | j where "j < length (i_outputs b)" "py_idx (length (i_outputs b)) out = Some j"
      "i_connect S out False b = (Inr (), b\<lparr>i_outputs := (i_outputs b)[j := i_outputs b ! j \<union> S]\<rparr>)"
proof -
  let ?P = "\<lambda>(other, T). int other = out \<or> T \<inter> S = {}"
  have loop: "for_each (enumerate 0 (i_outputs b))
      (\<lambda>(other, T). guard (int other = out \<or> T \<inter> S = {}) SignalConnectionError) b \<in>
      {(Inr (), b), (Inl SignalConnectionError, b)}"
    using for_each_guard_ok [of "enumerate 0 (i_outputs b)" ?P SignalConnectionError b]
      for_each_guard_bad [of _ "enumerate 0 (i_outputs b)" ?P SignalConnectionError b]
    by (cases "\<forall>x\<in>set (enumerate 0 (i_outputs b)). ?P x") (auto simp: split_def)
  show ?thesis
  proof (cases "py_idx (length (i_outputs b)) out")
    case None
    then show ?thesis
      using loop that(1) by (auto simp: i_connect_def pym_defs py_get_def)
  next
    case (Some j)
    then show ?thesis
      using loop that by (auto simp: i_connect_def pym_defs py_get_def py_set_def py_idx_bound)
  qed
qed

end
