(* ===== verification/Carrier.thy ===== *)
theory Carrier
  imports Blocks "HOL-Library.Multiset"
begin

text \<open>
  The carrier board (redac/carrier.py), the front plane (lucidac/front_plane.py), the computer that
  holds the carriers together with its data acquisition unit (redac/computer.py, base/hybrid/computer.py)
  and the validation of ADC probe indices (redac/protocol/validators.py).

  The T-blocks of a carrier are owned by the routing store of theory Routing, which refers to the
  same objects; the carrier record holds the ones that its own \<open>reset\<close> reaches.
\<close>

section \<open>Carrier\<close>

record adc_channel =
  ch_index :: int
  ch_gain :: rat
  ch_offset :: rat
  ch_probe :: "int option"

datatype front_panel_io_mode = ANALOG_OUT | ANALOG_IN | DIGITAL_OUT | DIGITAL_IN

datatype wave_form = SINE | SINE_AND_SQUARE | TRIANGLE

record signal_generator =
  sg_frequency :: rat
  sg_phase :: rat
  sg_wave_form :: wave_form
  sg_amplitude :: rat
  sg_square_voltage_low :: rat
  sg_square_voltage_high :: rat
  sg_offset :: rat
  sg_sleep :: bool
  sg_dac_outputs :: "rat list"

record front_plane =
  fp_leds :: int
  fp_signal_generator :: signal_generator

definition new_signal_generator :: signal_generator where
  "new_signal_generator =
     \<lparr>sg_frequency = 0, sg_phase = 0, sg_wave_form = SINE_AND_SQUARE, sg_amplitude = 0,
      sg_square_voltage_low = 0, sg_square_voltage_high = 0, sg_offset = 0, sg_sleep = True,
      sg_dac_outputs = [0, 0]\<rparr>"

definition new_front_plane :: front_plane where
  "new_front_plane = \<lparr>fp_leds = 0, fp_signal_generator = new_signal_generator\<rparr>"

record carrier =
  cr_path :: path
  cr_location :: "loc option"
  cr_adc_config :: "adc_channel option list"
  cr_acl_select :: "string list option"
  cr_front_panel_io :: "front_panel_io_mode list option"
  cr_clusters :: "cluster list"
  cr_tblock :: "tblock option"
  cr_st0 :: "backplane_tblock option"
  cr_st1 :: "backplane_tblock option"
  cr_st2 :: "backplane_tblock option"
  cr_front_plane :: "front_plane option"

text \<open>
  \<open>Entity.reset\<close> visits the children (clusters, T-blocks, front plane; the front plane has no
  children and no reset of its own), then the carrier forgets its ADC channels and ACL selection.
\<close>

definition cr_reset :: "carrier \<Rightarrow> carrier" where
  "cr_reset c =
     c\<lparr>cr_clusters := map cl_reset (cr_clusters c),
       cr_tblock := map_option t_reset (cr_tblock c),
       cr_st0 := map_option b_reset (cr_st0 c),
       cr_st1 := map_option b_reset (cr_st1 c),
       cr_st2 := map_option b_reset (cr_st2 c),
       cr_adc_config := [],
       cr_acl_select := None\<rparr>"

text \<open>\<open>resolve_signal\<close>: the index of an M-block output among all those of its carrier.\<close>

definition resolve_signal :: "path \<Rightarrow> path \<Rightarrow> int res" where
  "resolve_signal carrier_path p =
     rbind (rassert (path_to_root p = carrier_path) EntityDoesNotExist) (\<lambda>_.
     if path_depth p \<noteq> 4 then Inl NotImplementedError
     else case (p ! 1, p ! 2, p ! 3) of
       (cl, PS m, el) \<Rightarrow>
         rbind (rassert (take 1 m = ''M'') NotImplementedError) (\<lambda>_.
         rbind (py_int (part_str cl)) (\<lambda>cluster_idx.
         rbind (py_int (strip (\<lambda>c. c = CHR ''M'') m)) (\<lambda>m_slot.
         rbind (py_int (part_str el)) (\<lambda>element_idx.
         Inr (cluster_idx * 16 + m_slot * 8 + element_idx)))))
     | (_, PI _, _) \<Rightarrow> Inl AttributeError)"

section \<open>The computer\<close>

datatype pin = NamedPin string | IndexedPin int

record wiring_spec =
  ws_source_path :: string
  ws_source_pin :: pin
  ws_target_path :: string
  ws_target_pin :: pin

fun validate_named_pin :: "pin \<Rightarrow> unit res" where
  "validate_named_pin (NamedPin s) =
     rassert (s \<in> set [''aux0'', ''aux1'', ''gen0'', ''gen1'']) ValueError"
| "validate_named_pin (IndexedPin i) = Inr ()"

definition make_wiring_spec :: "string \<Rightarrow> pin \<Rightarrow> string \<Rightarrow> pin \<Rightarrow> wiring_spec res" where
  "make_wiring_spec sp spin tp tpin =
     rbind (validate_named_pin spin) (\<lambda>_. rbind (validate_named_pin tpin) (\<lambda>_.
     Inr \<lparr>ws_source_path = sp, ws_source_pin = spin, ws_target_path = tp, ws_target_pin = tpin\<rparr>))"

record redac =
  rd_carriers :: "carrier list"
  rd_next_probe :: int
  rd_wiring_specs :: "wiring_spec list"

text \<open>
  \<open>get_entity\<close> on the path of a carrier. The dictionary is filled in the order of the carriers, so
  the last carrier with that path is the one found.
\<close>

definition get_carrier :: "path \<Rightarrow> redac \<Rightarrow> nat res" where
  "get_carrier p r =
     (case first_index (\<lambda>c. cr_path c = p) (rev (rd_carriers r)) of
        None \<Rightarrow> Inl EntityDoesNotExist
      | Some j \<Rightarrow> Inr (length (rd_carriers r) - 1 - j))"

definition add_adc_channel :: "nat \<Rightarrow> adc_channel \<Rightarrow> redac \<Rightarrow> redac" where
  "add_adc_channel i ch r =
     r\<lparr>rd_carriers := (rd_carriers r)[i :=
         (rd_carriers r ! i)\<lparr>cr_adc_config := cr_adc_config (rd_carriers r ! i) @ [Some ch]\<rparr>]\<rparr>"

definition daq_capture1 :: "rat \<Rightarrow> rat \<Rightarrow> path \<Rightarrow> (redac, unit) pym" where
  "daq_capture1 gain offset p =
     sbind (eval_st (get_carrier (path_to_root p))) (\<lambda>i.
     sbind get_st (\<lambda>r. let probe_index = rd_next_probe r in
     sbind (modify (\<lambda>r. r\<lparr>rd_next_probe := probe_index + 1\<rparr>)) (\<lambda>_.
     sbind (eval_st (\<lambda>r. resolve_signal (cr_path (rd_carriers r ! i)) p)) (\<lambda>idx.
     modify (add_adc_channel i
       \<lparr>ch_index = idx, ch_gain = gain, ch_offset = offset, ch_probe = Some probe_index\<rparr>)))))"

definition daq_capture :: "rat \<Rightarrow> rat \<Rightarrow> path list \<Rightarrow> (redac, unit) pym" where
  "daq_capture gain offset ps = for_each ps (daq_capture1 gain offset)"

definition daq_reset :: "redac \<Rightarrow> redac" where
  "daq_reset r = r\<lparr>rd_next_probe := 0\<rparr>"

definition redac_reset :: "redac \<Rightarrow> redac" where
  "redac_reset r =
     daq_reset (r\<lparr>rd_carriers := map cr_reset (rd_carriers r), rd_wiring_specs := []\<rparr>)"

definition find_cluster :: "loc \<Rightarrow> redac \<Rightarrow> (nat \<times> nat) res" where
  "find_cluster l r =
     (if rd_carriers r = [] then Inl PlainException
      else rbind (loc_carrier l) (\<lambda>cl.
        case first_index (\<lambda>c. cr_location c = Some cl) (rd_carriers r) of
          None \<Rightarrow> Inl PlainException
        | Some i \<Rightarrow> rbind (cluster_id l) (\<lambda>k.
            case py_idx (length (cr_clusters (rd_carriers r ! i))) k of
              None \<Rightarrow> Inl IndexError
            | Some j \<Rightarrow> Inr (i, j))))"

section \<open>Validation of probe indices\<close>

datatype probe_error = UnprobedChannel int | RequiresProbes | DuplicateProbes | NotContiguous

definition active_channels :: "carrier list \<Rightarrow> adc_channel list" where
  "active_channels cs = concat (map (\<lambda>c. List.map_filter id (cr_adc_config c)) cs)"

definition probes :: "adc_channel list \<Rightarrow> int list" where
  "probes chs = List.map_filter ch_probe chs"

definition probe_errors :: "adc_channel list \<Rightarrow> probe_error list" where
  "probe_errors channels =
     (let probed = filter (\<lambda>ch. ch_probe ch \<noteq> None) channels;
          unprobed = filter (\<lambda>ch. ch_probe ch = None) channels;
          ps = probes channels;
          probe_set = remdups ps in
      if channels = [] then []
      else if probed = [] then []
      else
        let errors =
          (case unprobed of [] \<Rightarrow> [] | u # _ \<Rightarrow> [UnprobedChannel (ch_index u)]) @
          (if - 1 \<in> set probe_set then [RequiresProbes] else []) @
          (if length probe_set \<noteq> length ps then [DuplicateProbes] else []) in
        if errors = [] \<and> set probe_set \<noteq> set (map int [0..<length channels])
        then [NotContiguous] else errors)"

definition adc_probe_valid :: "redac \<Rightarrow> bool" where
  "adc_probe_valid r = (probe_errors (active_channels (rd_carriers r)) = [])"

text \<open>What the validator is for: the probes number the channels from 0 without gap or repetition.\<close>

definition contiguous :: "int list \<Rightarrow> bool" where
  "contiguous ps \<longleftrightarrow> mset ps = mset (map int [0..<length ps])"

lemma length_probes: "length (probes chs) + length (filter (\<lambda>ch. ch_probe ch = None) chs) = length chs"
  by (induction chs) (auto simp: probes_def List.map_filter_def)

lemma contiguous_iff: "contiguous ps \<longleftrightarrow> distinct ps \<and> set ps = set (map int [0..<length ps])"
proof
  assume c: "contiguous ps"
  then have "distinct (map int [0..<length ps]) \<Longrightarrow> distinct ps"
    unfolding contiguous_def by (metis mset_eq_imp_distinct_iff)
  with c show "distinct ps \<and> set ps = set (map int [0..<length ps])"
    unfolding contiguous_def by (metis distinct_map distinct_upt inj_on_of_nat mset_eq_setD)
next
  assume "distinct ps \<and> set ps = set (map int [0..<length ps])"
  then show "contiguous ps"
    unfolding contiguous_def by (metis distinct_map distinct_upt inj_on_of_nat set_eq_iff_mset_eq_distinct)
qed

lemma probe_errors_Nil_iff:
  "probe_errors chs = [] \<longleftrightarrow>
     (\<forall>ch \<in> set chs. ch_probe ch = None) \<or>
     (\<forall>ch \<in> set chs. ch_probe ch \<noteq> None) \<and> contiguous (probes chs)"
proof -
  let ?un = "filter (\<lambda>ch. ch_probe ch = None) chs"
  have pr: "filter (\<lambda>ch. ch_probe ch \<noteq> None) chs = [] \<longleftrightarrow> (\<forall>ch \<in> set chs. ch_probe ch = None)"
    by (auto simp: filter_empty_conv)
  have un: "?un = [] \<longleftrightarrow> (\<forall>ch \<in> set chs. ch_probe ch \<noteq> None)"
    by (auto simp: filter_empty_conv)
  have len: "?un = [] \<Longrightarrow> length (probes chs) = length chs"
    using length_probes [of chs] by simp
  have neg: "contiguous (probes chs) \<Longrightarrow> - 1 \<notin> set (probes chs)"
    by (auto simp: contiguous_iff)
  have dup: "length (remdups (probes chs)) = length (probes chs) \<longleftrightarrow> distinct (probes chs)"
    by simp
  show ?thesis
  proof (cases "\<forall>ch \<in> set chs. ch_probe ch = None")
    case True
    then have "filter (\<lambda>ch. ch_probe ch \<noteq> None) chs = []"
      using pr by simp
    then have "probe_errors chs = []"
      unfolding probe_errors_def Let_def by simp
    with True show ?thesis by simp
  next
    case False
    then have ne: "filter (\<lambda>ch. ch_probe ch \<noteq> None) chs \<noteq> []" "chs \<noteq> []"
      using pr by auto
    show ?thesis
    proof (cases ?un)
      case Nil
      have "(probe_errors chs = []) \<longleftrightarrow> - 1 \<notin> set (probes chs) \<and> distinct (probes chs) \<and>
          set (probes chs) = set (map int [0..<length chs])"
        unfolding probe_errors_def Let_def using ne Nil dup by (auto simp del: length_remdups_eq)
      also have "\<dots> \<longleftrightarrow> contiguous (probes chs)"
        using neg len [OF Nil] by (auto simp: contiguous_iff)
      finally show ?thesis
        using False Nil un by blast
    next
      case (Cons u us)
      then have "probe_errors chs \<noteq> []"
        unfolding probe_errors_def Let_def using ne by simp
      moreover have "\<not> (\<forall>ch \<in> set chs. ch_probe ch \<noteq> None)"
        using Cons un by auto
      ultimately show ?thesis
        using False by simp
    qed
  qed
qed


section \<open>Capturing signals\<close>

text \<open>The state that \<open>capture\<close> keeps: the probes in use are exactly the ones handed out so far.\<close>

definition daq_ok :: "redac \<Rightarrow> bool" where
  "daq_ok r \<longleftrightarrow>
     0 \<le> rd_next_probe r \<and>
     (\<forall>ch \<in> set (active_channels (rd_carriers r)). ch_probe ch \<noteq> None) \<and>
     mset (probes (active_channels (rd_carriers r))) = mset (map int [0..<nat (rd_next_probe r)])"

text \<open>A signal that can be captured: its carrier exists and resolves it.\<close>

definition capturable :: "redac \<Rightarrow> path \<Rightarrow> bool" where
  "capturable r p =
     (case get_carrier (path_to_root p) r of
        Inl _ \<Rightarrow> False
      | Inr i \<Rightarrow> (case resolve_signal (cr_path (rd_carriers r ! i)) p of Inl _ \<Rightarrow> False | Inr _ \<Rightarrow> True))"

lemma mset_concat_map_update:
  assumes "i < length cs" and "f c' = f (cs ! i) @ [x]"
  shows "mset (concat (map f (cs[i := c']))) = add_mset x (mset (concat (map f cs)))"
  using assms
proof (induction cs arbitrary: i)
  case Nil
  then show ?case by simp
next
  case (Cons c cs)
  then show ?case by (cases i) auto
qed

lemma mset_map_filter: "mset (List.map_filter f xs) = image_mset (the \<circ> f) (filter_mset (\<lambda>x. f x \<noteq> None) (mset xs))"
  by (simp add: List.map_filter_def)

lemma probes_cong: "mset xs = mset ys \<Longrightarrow> mset (probes xs) = mset (probes ys)"
  by (simp add: probes_def mset_map_filter)

lemma map_filter_snoc: "List.map_filter f (xs @ [x]) = List.map_filter f xs @ (case f x of None \<Rightarrow> [] | Some y \<Rightarrow> [y])"
  by (auto simp: List.map_filter_def split: option.splits)

lemma active_channels_add:
  assumes "i < length (rd_carriers r)"
  shows "mset (active_channels (rd_carriers (add_adc_channel i ch r))) =
    add_mset ch (mset (active_channels (rd_carriers r)))"
  using assms by (auto simp: active_channels_def add_adc_channel_def map_filter_snoc intro!: mset_concat_map_update)

lemma get_carrier_bound: "get_carrier p r = Inr i \<Longrightarrow> i < length (rd_carriers r) \<and> cr_path (rd_carriers r ! i) = p"
  by (auto simp: get_carrier_def rev_nth dest!: first_index_SomeD split: option.splits)

lemma first_index_map: "first_index (P \<circ> f) xs = first_index P (map f xs)"
  by (induction xs) auto

lemma get_carrier_paths:
  "map cr_path (rd_carriers r') = map cr_path (rd_carriers r) \<Longrightarrow> get_carrier p r' = get_carrier p r"
proof -
  assume eq: "map cr_path (rd_carriers r') = map cr_path (rd_carriers r)"
  have *: "first_index (\<lambda>c. cr_path c = p) (rev (rd_carriers s)) =
      first_index (\<lambda>q. q = p) (rev (map cr_path (rd_carriers s)))" for s
    using first_index_map [of "\<lambda>q. q = p" cr_path "rev (rd_carriers s)"] by (simp add: comp_def rev_map)
  have "length (rd_carriers r') = length (rd_carriers r)"
    using map_eq_imp_length_eq [OF eq] .
  with eq show ?thesis
    by (simp add: get_carrier_def * split: option.splits)
qed

lemma add_adc_channel_paths: "map cr_path (rd_carriers (add_adc_channel i ch r)) = map cr_path (rd_carriers r)"
  by (simp add: add_adc_channel_def map_update list_update_same_conv)
    (metis list_update_id map_update)

lemma capturable_paths:
  assumes "map cr_path (rd_carriers r') = map cr_path (rd_carriers r)"
  shows "capturable r' p = capturable r p"
proof (cases "get_carrier (path_to_root p) r")
  case (Inr i)
  then have "i < length (rd_carriers r)"
    by (simp add: get_carrier_bound)
  then have "cr_path (rd_carriers r' ! i) = cr_path (rd_carriers r ! i)"
    using assms by (metis length_map nth_map)
  with Inr get_carrier_paths [OF assms] show ?thesis
    by (simp add: capturable_def)
qed (simp add: capturable_def get_carrier_paths [OF assms])

lemma daq_capture1_ok:
  assumes "capturable r p"
  obtains i idx where "i < length (rd_carriers r)" and "get_carrier (path_to_root p) r = Inr i"
    and "resolve_signal (path_to_root p) p = Inr idx"
    and "daq_capture1 g off p r = (Inr (), add_adc_channel i
      \<lparr>ch_index = idx, ch_gain = g, ch_offset = off, ch_probe = Some (rd_next_probe r)\<rparr>
      (r\<lparr>rd_next_probe := rd_next_probe r + 1\<rparr>))"
proof -
  from assms obtain i idx where g: "get_carrier (path_to_root p) r = Inr i"
    and s: "resolve_signal (cr_path (rd_carriers r ! i)) p = Inr idx"
    by (auto simp: capturable_def split: sum.splits)
  from get_carrier_bound [OF g] g s show ?thesis
    by (intro that [of i idx]) (simp_all add: daq_capture1_def Let_def pym_defs)
qed

lemma probes_add:
  "mset cs = add_mset ch (mset ds) \<Longrightarrow> ch_probe ch = Some n \<Longrightarrow> mset (probes cs) = add_mset n (mset (probes ds))"
  by (simp add: probes_def mset_map_filter)

lemma active_channels_add_props:
  assumes "i < length (rd_carriers r)" and "ch_probe ch = Some n"
  defines "a \<equiv> active_channels (rd_carriers (add_adc_channel i ch r))"
  shows "mset (probes a) = add_mset n (mset (probes (active_channels (rd_carriers r))))"
    and "set a = insert ch (set (active_channels (rd_carriers r)))"
proof -
  have m: "mset a = add_mset ch (mset (active_channels (rd_carriers r)))"
    using assms(1) by (simp add: a_def active_channels_add)
  from probes_add [OF m assms(2)] show "mset (probes a) = add_mset n (mset (probes (active_channels (rd_carriers r))))" .
  from m show "set a = insert ch (set (active_channels (rd_carriers r)))"
    by (metis set_mset_add_mset_insert set_mset_mset)
qed

text \<open>
  What \<open>capture\<close> adds to the ADC configuration of carrier \<open>i\<close>: one channel for each signal of that
  carrier, in the order of the signals, with the probe indices counted from \<open>n\<close> over all carriers.
\<close>

primrec captured_channels :: "redac \<Rightarrow> rat \<Rightarrow> rat \<Rightarrow> int \<Rightarrow> path list \<Rightarrow> nat \<Rightarrow> adc_channel option list" where
  "captured_channels r gain offset n [] i = []"
| "captured_channels r gain offset n (p # ps) i =
     (if get_carrier (path_to_root p) r = Inr i
      then [Some \<lparr>ch_index = projr (resolve_signal (path_to_root p) p), ch_gain = gain, ch_offset = offset, ch_probe = Some n\<rparr>]
      else []) @ captured_channels r gain offset (n + 1) ps i"

definition channels_added :: "(nat \<Rightarrow> adc_channel option list) \<Rightarrow> redac \<Rightarrow> redac \<Rightarrow> bool" where
  "channels_added f r r' \<longleftrightarrow>
     length (rd_carriers r') = length (rd_carriers r) \<and>
     (\<forall>i<length (rd_carriers r).
        rd_carriers r' ! i = (rd_carriers r ! i)\<lparr>cr_adc_config := cr_adc_config (rd_carriers r ! i) @ f i\<rparr>)"

lemma channels_added_Nil: "channels_added (\<lambda>i. []) r r"
  by (simp add: channels_added_def)

lemma channels_added_trans:
  assumes "channels_added f r r1" and "channels_added g r1 r2"
  shows "channels_added (\<lambda>i. f i @ g i) r r2"
  using assms unfolding channels_added_def by simp

lemma channels_added_paths:
  assumes "channels_added f r r'"
  shows "map cr_path (rd_carriers r') = map cr_path (rd_carriers r)"
  using assms unfolding channels_added_def by (intro nth_equalityI) simp_all

lemma channels_added_one:
  assumes "i < length (rd_carriers r)"
  shows "channels_added (\<lambda>j. if i = j then [Some ch] else []) r (add_adc_channel i ch (r\<lparr>rd_next_probe := n\<rparr>))"
  using assms by (simp add: channels_added_def add_adc_channel_def nth_list_update)

lemma captured_channels_paths:
  assumes "map cr_path (rd_carriers r') = map cr_path (rd_carriers r)"
  shows "captured_channels r' gain offset n ps i = captured_channels r gain offset n ps i"
  by (induction ps arbitrary: n) (simp_all add: get_carrier_paths [OF assms])

lemma daq_ok_capture1:
  assumes "daq_ok r" and "capturable r p"
  shows "\<exists>r'. daq_capture1 g off p r = (Inr (), r') \<and> daq_ok r' \<and> rd_next_probe r' = rd_next_probe r + 1 \<and>
    channels_added (captured_channels r g off (rd_next_probe r) [p]) r r'"
proof -
  let ?ch = "\<lambda>idx. \<lparr>ch_index = idx, ch_gain = g, ch_offset = off, ch_probe = Some (rd_next_probe r)\<rparr>"
  let ?r = "r\<lparr>rd_next_probe := rd_next_probe r + 1\<rparr>"
  obtain i idx where i: "i < length (rd_carriers r)"
    and p: "get_carrier (path_to_root p) r = Inr i" "resolve_signal (path_to_root p) p = Inr idx"
    and c: "daq_capture1 g off p r = (Inr (), add_adc_channel i (?ch idx) ?r)"
    by (rule daq_capture1_ok [OF assms(2)])
  have *: "i < length (rd_carriers ?r)" "ch_probe (?ch idx) = Some (rd_next_probe r)"
    using i by simp_all
  have nat: "nat (rd_next_probe r + 1) = Suc (nat (rd_next_probe r))"
    using assms(1) by (simp add: daq_ok_def nat_add_distrib)
  have "daq_ok (add_adc_channel i (?ch idx) ?r)"
    using assms(1) active_channels_add_props [OF *] nat
    by (simp add: daq_ok_def) (simp add: add_adc_channel_def atLeast0_lessThan_Suc)
  moreover have "captured_channels r g off (rd_next_probe r) [p] = (\<lambda>j. if i = j then [Some (?ch idx)] else [])"
    using p by (auto simp: fun_eq_iff)
  then have "channels_added (captured_channels r g off (rd_next_probe r) [p]) r (add_adc_channel i (?ch idx) ?r)"
    by (simp only: channels_added_one [OF i])
  ultimately show ?thesis
    using c by (simp add: add_adc_channel_def)
qed

lemma daq_ok_valid: "daq_ok r \<Longrightarrow> adc_probe_valid r"
proof -
  assume ok: "daq_ok r"
  let ?ps = "probes (active_channels (rd_carriers r))"
  have "length ?ps = nat (rd_next_probe r)"
    using ok by (metis daq_ok_def length_map length_upt diff_zero size_mset)
  with ok have "contiguous ?ps"
    by (simp add: daq_ok_def contiguous_def)
  with ok show ?thesis
    by (auto simp: adc_probe_valid_def probe_errors_Nil_iff daq_ok_def)
qed


lemma daq_ok_capture:
  assumes "daq_ok r" and "\<forall>p \<in> set ps. capturable r p"
  shows "\<exists>r'. daq_capture g off ps r = (Inr (), r') \<and> daq_ok r' \<and>
    rd_next_probe r' = rd_next_probe r + int (length ps) \<and>
    channels_added (captured_channels r g off (rd_next_probe r) ps) r r'"
  unfolding daq_capture_def using assms
proof (induction ps arbitrary: r)
  case Nil
  have "captured_channels r g off (rd_next_probe r) [] = (\<lambda>i. [])"
    by (simp add: fun_eq_iff)
  with Nil show ?case by (simp add: ret_def channels_added_Nil)
next
  case (Cons p ps)
  then obtain r1 where r1: "daq_capture1 g off p r = (Inr (), r1)" "daq_ok r1" "rd_next_probe r1 = rd_next_probe r + 1"
      "channels_added (captured_channels r g off (rd_next_probe r) [p]) r r1"
    using daq_ok_capture1 [of r p g off] by auto
  note paths = channels_added_paths [OF r1(4)]
  have "\<forall>q \<in> set ps. capturable r1 q"
    using Cons.prems(2) capturable_paths [OF paths] by simp
  then obtain r' where r': "for_each ps (daq_capture1 g off) r1 = (Inr (), r')" "daq_ok r'"
      "rd_next_probe r' = rd_next_probe r1 + int (length ps)"
      "channels_added (captured_channels r1 g off (rd_next_probe r1) ps) r1 r'"
    using Cons.IH [OF r1(2)] by blast
  have *: "(\<lambda>i. captured_channels r g off (rd_next_probe r) [p] i @ captured_channels r1 g off (rd_next_probe r1) ps i) =
      captured_channels r g off (rd_next_probe r) (p # ps)"
    by (simp add: fun_eq_iff r1(3) captured_channels_paths [OF paths])
  have "channels_added (captured_channels r g off (rd_next_probe r) (p # ps)) r r'"
    using channels_added_trans [OF r1(4) r'(4)] unfolding * .
  moreover have "for_each (p # ps) (daq_capture1 g off) r = (Inr (), r')"
      "rd_next_probe r' = rd_next_probe r + int (length (p # ps))"
    using r1(1,3) r'(1,3) by (simp_all add: sbind_def)
  ultimately show ?case
    using r'(2) by blast
qed

text \<open>
  C11. Data acquisition numbers its signals consistently. As long as the probes in use are exactly
  the ones handed out so far (as in a fresh computer, and after every successful capture), capturing
  any list of signals that exist succeeds and hands out one probe index per signal. The ADC
  configuration of every carrier is extended by the channels of its own signals, in order, each with
  the index of its signal and the next probe index; nothing else of a carrier changes. The probe
  validator accepts the configuration. (\<open>capture_gap\<close> below shows that the condition is needed.)
\<close>

theorem capture_valid:
  assumes "daq_ok r" and "\<forall>p \<in> set ps. capturable r p"
  shows "\<exists>r'. daq_capture gain offset ps r = (Inr (), r') \<and> daq_ok r' \<and> adc_probe_valid r' \<and>
    rd_next_probe r' = rd_next_probe r + int (length ps) \<and>
    length (rd_carriers r') = length (rd_carriers r) \<and>
    (\<forall>i<length (rd_carriers r). rd_carriers r' ! i = (rd_carriers r ! i)\<lparr>cr_adc_config :=
       cr_adc_config (rd_carriers r ! i) @ captured_channels r gain offset (rd_next_probe r) ps i\<rparr>)"
  using daq_ok_capture [OF assms, of gain offset] daq_ok_valid unfolding channels_added_def by blast


definition demo_redac :: redac where
  "demo_redac =
     \<lparr>rd_carriers =
        [\<lparr>cr_path = [PS ''00-00''], cr_location = Some [0, 0], cr_adc_config = [], cr_acl_select = None,
          cr_front_panel_io = None, cr_clusters = [], cr_tblock = None, cr_st0 = None, cr_st1 = None,
          cr_st2 = None, cr_front_plane = None\<rparr>],
      rd_next_probe = 0, rd_wiring_specs = []\<rparr>"

lemma demo_redac_ok: "daq_ok demo_redac"
  by (simp add: daq_ok_def demo_redac_def active_channels_def probes_def List.map_filter_def)

lemma demo_capturable: "capturable demo_redac [PS ''00-00'', PS ''2'', PS ''M1'', PI 5]"
  by code_simp

theorem capture_valid_witness:
  "\<exists>r'. daq_capture 1 0 [[PS ''00-00'', PS ''2'', PS ''M1'', PI 5]] demo_redac = (Inr (), r') \<and>
     daq_ok r' \<and> adc_probe_valid r' \<and> rd_next_probe r' = 1 \<and>
     cr_adc_config (rd_carriers r' ! 0) =
       [Some \<lparr>ch_index = 45, ch_gain = 1, ch_offset = 0, ch_probe = Some 0\<rparr>]"
proof -
  let ?p = "[PS ''00-00'', PS ''2'', PS ''M1'', PI 5]"
  have "get_carrier (path_to_root ?p) demo_redac = Inr 0" "resolve_signal (path_to_root ?p) ?p = Inr 45"
    by code_simp+
  then show ?thesis
    using capture_valid [OF demo_redac_ok, of "[?p]" 1 0] demo_capturable by (auto simp: demo_redac_def)
qed

text \<open>
  A capture that fails while the signal is being resolved has already consumed a probe index:
  from then on, capturing any further existing signal leaves a configuration the probe validator
  rejects.
\<close>

theorem capture_gap:
  assumes "daq_ok r" and "get_carrier (path_to_root p) r = Inr i"
    and "resolve_signal (cr_path (rd_carriers r ! i)) p = Inl e" and "capturable r q"
  shows "daq_capture gain offset [p] r = (Inl e, r\<lparr>rd_next_probe := rd_next_probe r + 1\<rparr>) \<and>
    (\<exists>r'. daq_capture gain offset [q] (r\<lparr>rd_next_probe := rd_next_probe r + 1\<rparr>) = (Inr (), r') \<and>
          \<not> adc_probe_valid r')"
proof
  let ?r = "r\<lparr>rd_next_probe := rd_next_probe r + 1\<rparr>"
  show "daq_capture gain offset [p] r = (Inl e, ?r)"
    using assms(2,3) by (simp add: daq_capture_def daq_capture1_def Let_def pym_defs)
  let ?n = "rd_next_probe r + 1"
  let ?ch = "\<lambda>idx. \<lparr>ch_index = idx, ch_gain = gain, ch_offset = offset, ch_probe = Some ?n\<rparr>"
  have "capturable ?r q"
    using assms(4) capturable_paths [of ?r r] by simp
  then obtain j idx where j: "j < length (rd_carriers ?r)"
    and c: "daq_capture1 gain offset q ?r =
      (Inr (), add_adc_channel j (?ch idx) (?r\<lparr>rd_next_probe := rd_next_probe ?r + 1\<rparr>))"
    by (rule daq_capture1_ok [where g = gain and off = offset]) simp
  let ?r' = "add_adc_channel j (?ch idx) (?r\<lparr>rd_next_probe := rd_next_probe ?r + 1\<rparr>)"
  let ?a = "active_channels (rd_carriers ?r')"
  have pr: "mset (probes ?a) = add_mset ?n (mset (map int [0..<nat (rd_next_probe r)]))"
    and se: "set ?a = insert (?ch idx) (set (active_channels (rd_carriers r)))"
    using active_channels_add_props [of j "?r\<lparr>rd_next_probe := rd_next_probe ?r + 1\<rparr>" "?ch idx" ?n] j assms(1)
    by (simp_all add: daq_ok_def)
  have len: "length (probes ?a) = Suc (nat (rd_next_probe r))"
    using pr by (metis size_add_mset size_mset length_map length_upt diff_zero)
  have "?n \<in> set (probes ?a)"
    using pr by (metis set_mset_mset union_single_eq_member)
  moreover have "?n \<notin> set (map int [0..<Suc (nat (rd_next_probe r))])"
    using assms(1) by (auto simp: daq_ok_def)
  ultimately have "\<not> contiguous (probes ?a)"
    by (metis contiguous_iff len)
  then have "\<not> adc_probe_valid ?r'"
    unfolding adc_probe_valid_def probe_errors_Nil_iff using se by auto
  with c show "\<exists>r'. daq_capture gain offset [q] ?r = (Inr (), r') \<and> \<not> adc_probe_valid r'"
    by (simp add: daq_capture_def pym_defs)
qed

theorem capture_gap_witness:
  "daq_capture 1 0 [[PS ''00-00'', PS ''0'']] demo_redac =
     (Inl NotImplementedError, demo_redac\<lparr>rd_next_probe := rd_next_probe demo_redac + 1\<rparr>) \<and>
   (\<exists>r'. daq_capture 1 0 [[PS ''00-00'', PS ''2'', PS ''M1'', PI 5]]
       (demo_redac\<lparr>rd_next_probe := rd_next_probe demo_redac + 1\<rparr>) = (Inr (), r') \<and> \<not> adc_probe_valid r')"
proof (rule capture_gap)
  show "get_carrier (path_to_root [PS ''00-00'', PS ''0'']) demo_redac = Inr 0"
    by code_simp
  show "resolve_signal (cr_path (rd_carriers demo_redac ! 0)) [PS ''00-00'', PS ''0''] = Inl NotImplementedError"
    by code_simp
qed (rule demo_redac_ok demo_capturable)+

end
