(* ===== verification/Circuit.thy ===== *)
theory Circuit
  imports Carrier
begin

text \<open>
  The circuit builder (lucipy/circuits.py, lucipy/elements.py, lucipy/helpers.py): allocation of
  integrators, multipliers, constants, ACL ports and ADC channels, and \<open>connect\<close>, which spreads a
  weight over free lanes of the one cluster of a LUCIDAC.

  \<open>circuit\<close> holds the attributes of \<open>Circuit\<close>. The objects \<open>_lucidac\<close>, \<open>_carrier\<close> and \<open>_cluster\<close> are one
  tree: the cluster and the attributes of the carrier that the builder writes are fields of the
  record, \<open>circuit_carrier\<close> puts the carrier together. A warning is recorded in \<open>ci_warnings\<close>.

  The contract of \<open>connect\<close> is stated on the weight matrix \<open>cluster_gain\<close> of theory Blocks:
  connecting adds the weight to one entry and changes no other.
\<close>

section \<open>Elements\<close>

type_synonym cid = nat

datatype element =
    Integrator int int "cid option"
  | MulInput int int "cid option"
  | Multiplier int int "cid option"
  | Identity int "cid option"
  | Constant int "cid option"
  | Input int int "cid option"
  | Output int int "cid option"

fun circuit_id_of :: "element \<Rightarrow> cid option" where
  "circuit_id_of (Integrator _ _ c) = c"
| "circuit_id_of (MulInput _ _ c) = c"
| "circuit_id_of (Multiplier _ _ c) = c"
| "circuit_id_of (Identity _ c) = c"
| "circuit_id_of (Constant _ c) = c"
| "circuit_id_of (Input _ _ c) = c"
| "circuit_id_of (Output _ _ c) = c"

definition mul_a :: "int \<Rightarrow> cid option \<Rightarrow> element" where
  "mul_a i c = MulInput i 0 c"

definition mul_b :: "int \<Rightarrow> cid option \<Rightarrow> element" where
  "mul_b i c = MulInput i 1 c"

definition mul_input_lane :: "int \<Rightarrow> int \<Rightarrow> int" where
  "mul_input_lane mul_id input_idx = 8 + 2 * mul_id + input_idx"

text \<open>\<open>_MulInput.id\<close>: the identity tap of a multiplier input.\<close>

definition mul_input_id :: "int \<Rightarrow> int \<Rightarrow> cid option \<Rightarrow> element res" where
  "mul_input_id mul_id input_idx c =
     rbind (rassert (\<not> mul_id \<ge> 2) ValueError) (\<lambda>_. Inr (Identity (2 * mul_id + input_idx) c))"

text \<open>The methods are absent (\<open>None\<close>) on elements that are not sources, or not targets.\<close>

fun source_output_lane :: "element \<Rightarrow> int option" where
  "source_output_lane (Integrator _ lane _) = Some lane"
| "source_output_lane (Multiplier _ lane _) = Some lane"
| "source_output_lane (Identity offset _) = Some (12 + offset)"
| "source_output_lane (Input _ lane _) = Some lane"
| "source_output_lane _ = None"

fun target_m_input :: "element \<Rightarrow> int option" where
  "target_m_input (Integrator _ lane _) = Some lane"
| "target_m_input (MulInput mul_id input_idx _) = Some (mul_input_lane mul_id input_idx)"
| "target_m_input (Multiplier mul_id _ _) = Some (mul_input_lane mul_id 0)"
| "target_m_input (Output _ lane _) = Some lane"
| "target_m_input _ = None"

section \<open>Helpers\<close>

definition next_free :: "bool list \<Rightarrow> (nat \<Rightarrow> bool) option \<Rightarrow> nat option \<Rightarrow> nat option" where
  "next_free occupied criterion append_to =
     (case first_index (\<lambda>(idx, val). \<not> val \<and> (case criterion of None \<Rightarrow> True | Some c \<Rightarrow> c idx))
             (enumerate 0 occupied) of
        Some i \<Rightarrow> Some i
      | None \<Rightarrow>
          (case append_to of
             None \<Rightarrow> None
           | Some n \<Rightarrow> if length occupied < n then Some (length occupied) else None))"

definition constant_output_for_lane :: "int \<Rightarrow> int" where
  "constant_output_for_lane lane = (if lane < 16 then 15 else 14)"

section \<open>The builder\<close>

datatype circuit_warning = ConstantShadows "int set" | IdentityShadowed int

record circuit =
  ci_id :: cid
  ci_path :: path
  ci_cluster :: cluster
  ci_integrators_used :: "bool list"
  ci_multipliers_used :: "bool list"
  ci_constants_allocated :: nat
  ci_acl_in_used :: "bool list"
  ci_acl_out_used :: "bool list"
  ci_general_lanes_used :: "bool list"
  ci_identity_outputs_connected :: "int set"
  ci_adc_config :: "adc_channel option list"
  ci_next_probe_index :: int
  ci_acl_select :: "string list"
  ci_front_plane :: front_plane
  ci_warnings :: "circuit_warning list"

definition minimal_cluster :: "path \<Rightarrow> cluster" where
  "minimal_cluster carrier_path =
     \<lparr>cl_path = path_join carrier_path (Inr (PS ''0'')), cl_location = Some (new_cluster 0 0 0),
      cl_m0 = Some (MIntBlock new_mint_block), cl_m1 = Some MMulBlock,
      cl_u = new_ublock, cl_c = new_cblock, cl_i = new_iblock\<rparr>"

definition new_circuit :: "cid \<Rightarrow> string \<Rightarrow> circuit res" where
  "new_circuit uuid mac =
     rbind (path_parse redac_schema (\<lambda>_. None) mac) (\<lambda>carrier_path.
     Inr \<lparr>ci_id = uuid, ci_path = carrier_path, ci_cluster = minimal_cluster carrier_path,
          ci_integrators_used = replicate 8 False, ci_multipliers_used = replicate 4 False,
          ci_constants_allocated = 0, ci_acl_in_used = replicate 8 False,
          ci_acl_out_used = replicate 8 False, ci_general_lanes_used = replicate 32 False,
          ci_identity_outputs_connected = {}, ci_adc_config = replicate 8 None,
          ci_next_probe_index = 0, ci_acl_select = replicate 8 ''INTERNAL'',
          ci_front_plane = new_front_plane, ci_warnings = []\<rparr>)"

definition circuit_carrier :: "circuit \<Rightarrow> carrier" where
  "circuit_carrier s =
     \<lparr>cr_path = ci_path s, cr_location = Some (new_carrier 0 0), cr_adc_config = ci_adc_config s,
      cr_acl_select = Some (ci_acl_select s), cr_front_panel_io = None, cr_clusters = [ci_cluster s],
      cr_tblock = None, cr_st0 = None, cr_st1 = None, cr_st2 = None,
      cr_front_plane = Some (ci_front_plane s)\<rparr>"

definition on_cluster :: "(cluster, 'a) pym \<Rightarrow> (circuit, 'a) pym" where
  "on_cluster = zoom ci_cluster (\<lambda>b s. s\<lparr>ci_cluster := b\<rparr>)"

text \<open>\<open>m0block.elements[idx].computation.ic = ic\<close> and \<open>.k = \<dots>\<close>.\<close>

definition set_integration :: "nat \<Rightarrow> integration \<Rightarrow> cluster \<Rightarrow> cluster res" where
  "set_integration idx v c =
     (case cl_m0 c of
        Some (MIntBlock b) \<Rightarrow>
          rbind (py_set (mi_elements b) (int idx) v) (\<lambda>xs.
          Inr (c\<lparr>cl_m0 := Some (MIntBlock (b\<lparr>mi_elements := xs\<rparr>))\<rparr>))
      | _ \<Rightarrow> Inl AttributeError)"

definition circ_int :: "rat \<Rightarrow> bool \<Rightarrow> (circuit, element) pym" where
  "circ_int ic0 slow =
     sbind get_st (\<lambda>s.
     case next_free (ci_integrators_used s) None None of
       None \<Rightarrow> raise ValueError
     | Some idx \<Rightarrow>
         sbind (modify (\<lambda>s. s\<lparr>ci_integrators_used := (ci_integrators_used s)[idx := True]\<rparr>)) (\<lambda>_.
         sbind (on_cluster (update_st (set_integration idx \<lparr>ig_ic = ic0, ig_k = (if slow then 100 else 10000)\<rparr>))) (\<lambda>_.
         ret (Integrator (int idx) (int idx) (Some (ci_id s))))))"

definition circ_mul :: "(circuit, element) pym" where
  "circ_mul =
     sbind get_st (\<lambda>s.
     case next_free (ci_multipliers_used s) None None of
       None \<Rightarrow> raise ValueError
     | Some idx \<Rightarrow>
         sbind (modify (\<lambda>s. s\<lparr>ci_multipliers_used := (ci_multipliers_used s)[idx := True]\<rparr>)) (\<lambda>_.
         ret (Multiplier (int idx) (8 + int idx) (Some (ci_id s)))))"

definition circ_const :: "const_val \<Rightarrow> (circuit, element) pym" where
  "circ_const v =
     sbind get_st (\<lambda>s.
     sbind (guard (\<not> ci_constants_allocated s \<ge> 2) ValueError) (\<lambda>_.
     let shadowed = ci_identity_outputs_connected s \<inter> {14, 15} in
     sbind (if shadowed \<noteq> {} then modify (\<lambda>s. s\<lparr>ci_warnings := ci_warnings s @ [ConstantShadows shadowed]\<rparr>)
            else ret ()) (\<lambda>_.
     sbind (modify (\<lambda>s. s\<lparr>ci_constants_allocated := ci_constants_allocated s + 1\<rparr>)) (\<lambda>_.
     sbind (on_cluster (cl_set_constant v)) (\<lambda>_.
     ret (Constant (int (ci_constants_allocated s)) (Some (ci_id s))))))))"

text \<open>\<open>input\<close> and \<open>output\<close>, which differ only in the list of ports and the element they return.\<close>

definition acl_port ::
    "(circuit \<Rightarrow> bool list) \<Rightarrow> (bool list \<Rightarrow> circuit \<Rightarrow> circuit) \<Rightarrow> (int \<Rightarrow> int \<Rightarrow> cid option \<Rightarrow> element) \<Rightarrow>
     int option \<Rightarrow> (circuit, element) pym" where
  "acl_port used set_used mk port0 =
     sbind (case port0 of
              None \<Rightarrow> sbind get_st (\<lambda>s. case next_free (used s) None None of
                        None \<Rightarrow> raise ValueError
                      | Some p \<Rightarrow> ret (int p))
            | Some p \<Rightarrow> sbind (eval_st (\<lambda>s. py_get (used s) p)) (\<lambda>b.
                        sbind (guard (\<not> b) ValueError) (\<lambda>_. ret p))) (\<lambda>port.
     let lane = 24 + port in
     sbind (eval_st (\<lambda>s. py_get (ci_general_lanes_used s) lane)) (\<lambda>b.
     sbind (guard (\<not> b) ValueError) (\<lambda>_.
     sbind (update_st (\<lambda>s. rbind (py_set (used s) port True) (\<lambda>xs. Inr (set_used xs s)))) (\<lambda>_.
     sbind (update_st (\<lambda>s. rbind (py_set (ci_acl_select s) port ''EXTERNAL'') (\<lambda>xs.
              Inr (s\<lparr>ci_acl_select := xs\<rparr>)))) (\<lambda>_.
     sbind get_st (\<lambda>s. ret (mk port lane (Some (ci_id s)))))))))"

definition circ_input :: "int option \<Rightarrow> (circuit, element) pym" where
  "circ_input = acl_port ci_acl_in_used (\<lambda>xs s. s\<lparr>ci_acl_in_used := xs\<rparr>) Input"

definition circ_output :: "int option \<Rightarrow> (circuit, element) pym" where
  "circ_output = acl_port ci_acl_out_used (\<lambda>xs s. s\<lparr>ci_acl_out_used := xs\<rparr>) Output"

subsection \<open>connect\<close>

definition n_lanes_for :: "rat \<Rightarrow> nat" where
  "n_lanes_for weight = max 1 (nat \<lceil>\<bar>weight\<bar> / 8\<rceil>)"

definition lane_available :: "circuit \<Rightarrow> nat \<Rightarrow> bool" where
  "lane_available s lane \<longleftrightarrow>
     \<not> ci_general_lanes_used s ! lane \<and>
     \<not> (lane \<ge> 24 \<and> (ci_acl_in_used s ! (lane - 24) \<or> ci_acl_out_used s ! (lane - 24)))"

definition available_lanes :: "circuit \<Rightarrow> nat list" where
  "available_lanes s = filter (lane_available s) [0..<32]"

definition commit_lane :: "int \<Rightarrow> nat \<Rightarrow> rat \<Rightarrow> int \<Rightarrow> (cluster, unit) pym" where
  "commit_lane lane_source lane w tgt =
     sbind (on_u (u_connect lane_source [int lane] False)) (\<lambda>_.
     sbind (if \<bar>w\<bar> > 1
            then sbind (on_c (c_set_factor (int lane) (w / 8))) (\<lambda>_. on_i (i_set_upscaling (int lane) True))
            else on_c (c_set_factor (int lane) w)) (\<lambda>_.
     on_i (i_connect {int lane} tgt False)))"

definition commit_lanes :: "(nat \<Rightarrow> int) \<Rightarrow> nat list \<Rightarrow> rat \<Rightarrow> int \<Rightarrow> (circuit, unit) pym" where
  "commit_lanes src lanes w tgt =
     for_each lanes (\<lambda>lane.
       sbind (modify (\<lambda>s. s\<lparr>ci_general_lanes_used := (ci_general_lanes_used s)[lane := True]\<rparr>)) (\<lambda>_.
       on_cluster (commit_lane (src lane) lane w tgt)))"

fun is_constant :: "element \<Rightarrow> bool" where
  "is_constant (Constant _ _) = True"
| "is_constant _ = False"

definition note_identity :: "element \<Rightarrow> (circuit, unit) pym" where
  "note_identity source =
     (case source of
        Identity offset _ \<Rightarrow>
          if offset \<in> {2, 3} then
            sbind get_st (\<lambda>s.
            sbind (if const_truthy (u_constant (cl_u (ci_cluster s)))
                   then modify (\<lambda>s. s\<lparr>ci_warnings := ci_warnings s @ [IdentityShadowed (12 + offset)]\<rparr>)
                   else ret ()) (\<lambda>_.
            modify (\<lambda>s. s\<lparr>ci_identity_outputs_connected :=
                            insert (12 + offset) (ci_identity_outputs_connected s)\<rparr>)))
          else ret ()
      | _ \<Rightarrow> ret ())"

text \<open>Where the signal of a source enters lane \<open>l\<close>: the constant giver has one output per lane range.\<close>

definition source_for_lane :: "element \<Rightarrow> int \<Rightarrow> int" where
  "source_for_lane source lane =
     (if is_constant source then constant_output_for_lane lane
      else case source_output_lane source of Some l \<Rightarrow> l | None \<Rightarrow> 0)"

definition connect_standard :: "element \<Rightarrow> int \<Rightarrow> rat \<Rightarrow> (circuit, unit) pym" where
  "connect_standard source tgt weight =
     (let n = n_lanes_for weight in
      sbind get_st (\<lambda>s.
      sbind (guard (\<not> length (available_lanes s) < n) ValueError) (\<lambda>_.
      commit_lanes (\<lambda>l. source_for_lane source (int l)) (take n (available_lanes s))
        (weight / of_nat n) tgt)))"

definition connect_acl_out :: "int \<Rightarrow> int \<Rightarrow> rat \<Rightarrow> (circuit, unit) pym" where
  "connect_acl_out acl_source acl_lane weight =
     sbind (guard (\<not> \<bar>weight\<bar> > 1) ValueError) (\<lambda>_.
     sbind (on_cluster (on_u (u_connect acl_source [acl_lane] False))) (\<lambda>_.
     on_cluster (on_c (c_set_factor acl_lane weight))))"

definition circ_connect :: "element \<Rightarrow> element \<Rightarrow> rat \<Rightarrow> (circuit, unit) pym" where
  "circ_connect source target weight =
     sbind get_st (\<lambda>s.
     sbind (guard (circuit_id_of source \<noteq> None \<and> circuit_id_of target \<noteq> None) ValueError) (\<lambda>_.
     sbind (guard (circuit_id_of source = Some (ci_id s)) ValueError) (\<lambda>_.
     sbind (guard (circuit_id_of target = Some (ci_id s)) ValueError) (\<lambda>_.
     sbind (guard (is_constant source \<or> source_output_lane source \<noteq> None) TypeError) (\<lambda>_.
     case target_m_input target of
       None \<Rightarrow> raise TypeError
     | Some tgt \<Rightarrow>
         sbind (note_identity source) (\<lambda>_.
         case source of
           Input _ acl_lane _ \<Rightarrow> on_cluster (on_i (i_connect {acl_lane} tgt False))
         | _ \<Rightarrow>
           (case target of
              Output _ acl_lane _ \<Rightarrow> connect_acl_out (source_for_lane source acl_lane) acl_lane weight
            | _ \<Rightarrow> connect_standard source tgt weight)))))))"

subsection \<open>probe and LEDs\<close>

definition probe_adc :: "element \<Rightarrow> int option \<Rightarrow> (circuit, int) pym" where
  "probe_adc source adc_channel =
     sbind (case adc_channel of
              Some ch \<Rightarrow> ret ch
            | None \<Rightarrow> sbind get_st (\<lambda>s.
                case next_free (map (\<lambda>ch. ch \<noteq> None) (ci_adc_config s)) None None of
                  None \<Rightarrow> raise ValueError
                | Some i \<Rightarrow> ret (int i))) (\<lambda>ch.
     sbind (guard (0 \<le> ch \<and> ch \<le> 7) ValueError) (\<lambda>_.
     sbind (eval_st (\<lambda>s. py_get (ci_adc_config s) ch)) (\<lambda>old.
     sbind (guard (old = None) ValueError) (\<lambda>_.
     case source_output_lane source of
       None \<Rightarrow> raise AttributeError
     | Some source_lane \<Rightarrow>
         sbind get_st (\<lambda>s. let probe_index = ci_next_probe_index s in
         sbind (modify (\<lambda>s. s\<lparr>ci_next_probe_index := probe_index + 1\<rparr>)) (\<lambda>_.
         sbind (update_st (\<lambda>s. rbind (py_set (ci_adc_config s) ch
                  (Some \<lparr>ch_index = source_lane, ch_gain = 1, ch_offset = 0, ch_probe = Some probe_index\<rparr>))
                  (\<lambda>xs. Inr (s\<lparr>ci_adc_config := xs\<rparr>)))) (\<lambda>_.
         ret ch)))))))"

definition circ_probe :: "element \<Rightarrow> int option \<Rightarrow> (circuit, int) pym" where
  "circ_probe source adc_channel =
     sbind get_st (\<lambda>s.
     sbind (guard (circuit_id_of source \<noteq> None) ValueError) (\<lambda>_.
     sbind (guard (circuit_id_of source = Some (ci_id s)) ValueError) (\<lambda>_.
     probe_adc source adc_channel)))"

definition leds_of_list :: "bool list \<Rightarrow> int" where
  "leds_of_list bs = sum_list (map (\<lambda>(i, v). (if v then 1 else 0) * 2 ^ i) (enumerate 0 bs))"

definition set_leds :: "int + bool list \<Rightarrow> circuit \<Rightarrow> circuit" where
  "set_leds leds s =
     s\<lparr>ci_front_plane := (ci_front_plane s)\<lparr>fp_leds := (case leds of Inl i \<Rightarrow> i | Inr bs \<Rightarrow> leds_of_list bs)\<rparr>\<rparr>"


section \<open>Wiring several lanes\<close>

definition wire_lanes :: "(nat \<Rightarrow> int) \<Rightarrow> nat list \<Rightarrow> rat \<Rightarrow> nat \<Rightarrow> cluster \<Rightarrow> cluster" where
  "wire_lanes src lanes w tgt =
     fold (\<lambda>l. wire_lane (src l) l (if \<bar>w\<bar> > 1 then w / 8 else w) (\<bar>w\<bar> > 1) tgt) lanes"

text \<open>The weight with which a source reaches an M-block input, when its signal enters lane \<open>l\<close> as \<open>f l\<close>.\<close>

definition source_gain :: "cluster \<Rightarrow> (nat \<Rightarrow> int) \<Rightarrow> nat \<Rightarrow> rat" where
  "source_gain c f tgt = (\<Sum>l<32. if lane_routed c (f l) l tgt then lane_gain c l else 0)"

lemma source_gain_const: "source_gain c (\<lambda>_. src) tgt = cluster_gain c src tgt"
  by (simp add: source_gain_def cluster_gain_def)

lemma source_gain_wire_lane:
  assumes "wf_cluster c" and "lane_free c l" and "l < 32" and "tgt < 16" and "t < 16"
  shows "source_gain (wire_lane src l x up tgt c) f t =
     source_gain c f t + (if f l = src \<and> t = tgt then x * (if up then 8 else 1) else 0)"
proof -
  let ?c = "wire_lane src l x up tgt c"
  let ?g = "\<lambda>l'. if lane_routed c (f l') l' t then lane_gain c l' else 0"
  have "source_gain ?c f t =
      (\<Sum>l'<32. if l' = l then (if f l = src \<and> t = tgt then x * (if up then 8 else 1) else 0) else ?g l')"
    unfolding source_gain_def
    by (rule sum.cong) (use assms in \<open>auto simp: lane_routed_wire_lane lane_gain_wire_lane\<close>)
  also have "\<dots> = (\<Sum>l'<32. ?g l') - ?g l + (if f l = src \<and> t = tgt then x * (if up then 8 else 1) else 0)"
    by (rule sum_single_lane [OF assms(3)])
  also have "?g l = 0"
    using assms(2) by (simp add: lane_routed_def lane_free_def)
  finally show ?thesis
    by (simp add: source_gain_def)
qed

lemma commit_lane_free:
  assumes "wf_cluster c" and "lane_free c l" and "l < 32" and "tgt < 16" and "\<bar>w\<bar> \<le> 8"
  shows "commit_lane src l w (int tgt) c =
     (Inr (), wire_lane src l (if \<bar>w\<bar> > 1 then w / 8 else w) (\<bar>w\<bar> > 1) tgt c)"
proof -
  have up: "(i_upscaling (cl_i c))[l := False] = i_upscaling (cl_i c)"
    using assms(2) by (metis (full_types) lane_free_def list_update_id)
  have i: "i_connect {int l} (int tgt) False (cl_i c\<lparr>i_upscaling := xs\<rparr>) =
      (Inr (), cl_i c\<lparr>i_outputs := (i_outputs (cl_i c))[tgt := i_outputs (cl_i c) ! tgt \<union> {int l}],
                     i_upscaling := xs\<rparr>)" for xs
    using i_connect_free [of tgt "cl_i c\<lparr>i_upscaling := xs\<rparr>" l] assms(1,4)
      free_lane_i_outputs [OF assms(1,2)]
    by (simp add: wf_cluster_def)
  have i': "i_connect {int l} (int tgt) False (cl_i c) =
      (Inr (), cl_i c\<lparr>i_outputs := (i_outputs (cl_i c))[tgt := i_outputs (cl_i c) ! tgt \<union> {int l}]\<rparr>)"
    using i [of "i_upscaling (cl_i c)"] by simp
  have u: "u_connect src [int l] False (cl_u c) =
      (Inr (), (cl_u c)\<lparr>u_outputs := (u_outputs (cl_u c))[l := Some src]\<rparr>)"
    using assms(1-3) by (intro u_connect_free) (simp_all add: wf_cluster_def lane_free_def)
  have s: "i_set_upscaling (int l) True (cl_i c) =
      (Inr (), (cl_i c)\<lparr>i_upscaling := (i_upscaling (cl_i c))[l := True]\<rparr>)"
    using assms(1,3) by (intro i_set_upscaling_ok) (simp add: wf_cluster_def)
  have cf: "c_set_factor (int l) (if \<bar>w\<bar> > 1 then w / 8 else w) (cl_c c) =
      (Inr (), (cl_c c)\<lparr>c_factors := (c_factors (cl_c c))[l := (if \<bar>w\<bar> > 1 then w / 8 else w)]\<rparr>)"
    using assms(1,3,5) by (intro c_set_factor_ok) (auto simp: wf_cluster_def)
  show ?thesis
    using i i' s u cf up
    by (cases "\<bar>w\<bar> > 1") (simp_all add: commit_lane_def on_u_def on_c_def on_i_def wire_lane_def pym_defs)
qed

lemma wire_lanes_simps [simp]:
  "wire_lanes src [] w tgt c = c"
  "wire_lanes src (l # ls) w tgt c =
     wire_lanes src ls w tgt (wire_lane (src l) l (if \<bar>w\<bar> > 1 then w / 8 else w) (\<bar>w\<bar> > 1) tgt c)"
  by (simp_all add: wire_lanes_def)

lemma wf_wire_lanes: "wf_cluster c \<Longrightarrow> wf_cluster (wire_lanes src ls w tgt c)"
  by (induction ls arbitrary: c) (auto simp: wf_wire_lane)

lemma lane_free_wire_lanes:
  "wf_cluster c \<Longrightarrow> (\<forall>l\<in>set ls. l < 32) \<Longrightarrow> tgt < 16 \<Longrightarrow> l' \<notin> set ls \<Longrightarrow>
     lane_free (wire_lanes src ls w tgt c) l' = lane_free c l'"
  by (induction ls arbitrary: c) (auto simp: wf_wire_lane lane_free_wire_other)

lemma wire_lanes_m0 [simp]:
  "cl_m0 (wire_lanes src ls w tgt c) = cl_m0 c"
  "u_constant (cl_u (wire_lanes src ls w tgt c)) = u_constant (cl_u c)"
  by (induction ls arbitrary: c) (auto simp: wire_lane_def)

lemma free_lanes_wire_lane:
  assumes "wf_cluster c" and "distinct (l # ls)" and "\<forall>l'\<in>set (l # ls). l' < 32 \<and> lane_free c l'" and "tgt < 16"
  shows "\<forall>l'\<in>set ls. l' < 32 \<and> lane_free (wire_lane src l x up tgt c) l'"
proof
  fix l'
  assume "l' \<in> set ls"
  with assms(2,3) have "l' \<noteq> l" and "l' < 32" and "lane_free c l'" and "l < 32"
    by auto
  then show "l' < 32 \<and> lane_free (wire_lane src l x up tgt c) l'"
    using assms(1,4) by (simp add: lane_free_wire_other)
qed

lemma source_gain_wire_lanes:
  assumes "wf_cluster c" and "distinct ls" and "\<forall>l\<in>set ls. l < 32 \<and> lane_free c l"
    and "tgt < 16" and "t < 16"
  shows "source_gain (wire_lanes src ls w tgt c) f t =
     source_gain c f t + (if t = tgt then of_nat (length (filter (\<lambda>l. f l = src l) ls)) * w else 0)"
  using assms
proof (induction ls arbitrary: c)
  case Nil
  then show ?case by simp
next
  case (Cons l ls)
  let ?c = "wire_lane (src l) l (if \<bar>w\<bar> > 1 then w / 8 else w) (\<bar>w\<bar> > 1) tgt c"
  have "\<forall>l'\<in>set ls. l' < 32 \<and> lane_free ?c l'"
    using Cons.prems(1-4) by (rule free_lanes_wire_lane)
  then have "source_gain (wire_lanes src ls w tgt ?c) f t =
      source_gain ?c f t + (if t = tgt then of_nat (length (filter (\<lambda>l. f l = src l) ls)) * w else 0)"
    using Cons.prems by (intro Cons.IH) (auto simp: wf_wire_lane)
  also have "source_gain ?c f t = source_gain c f t + (if f l = src l \<and> t = tgt then w else 0)"
    using Cons.prems by (subst source_gain_wire_lane) auto
  finally show ?case
    by (simp add: algebra_simps)
qed

lemma commit_lanes_free:
  assumes "wf_cluster (ci_cluster s)" and "distinct ls"
    and "\<forall>l\<in>set ls. l < 32 \<and> lane_free (ci_cluster s) l" and "tgt < 16" and "\<bar>w\<bar> \<le> 8"
  shows "commit_lanes src ls w (int tgt) s =
     (Inr (), s\<lparr>ci_cluster := wire_lanes src ls w tgt (ci_cluster s),
               ci_general_lanes_used := fold (\<lambda>l xs. xs[l := True]) ls (ci_general_lanes_used s)\<rparr>)"
  unfolding commit_lanes_def using assms
proof (induction ls arbitrary: s)
  case Nil
  then show ?case by (simp add: ret_def)
next
  case (Cons l ls)
  let ?c = "wire_lane (src l) l (if \<bar>w\<bar> > 1 then w / 8 else w) (\<bar>w\<bar> > 1) tgt (ci_cluster s)"
  let ?s = "s\<lparr>ci_general_lanes_used := (ci_general_lanes_used s)[l := True], ci_cluster := ?c\<rparr>"
  have "commit_lane (src l) l w (int tgt) (ci_cluster s) = (Inr (), ?c)"
    using Cons.prems by (intro commit_lane_free) auto
  moreover have "\<forall>l'\<in>set ls. l' < 32 \<and> lane_free (ci_cluster ?s) l'"
    using free_lanes_wire_lane [OF Cons.prems(1-4)] by simp
  then have "for_each ls (\<lambda>lane.
       sbind (modify (\<lambda>s. s\<lparr>ci_general_lanes_used := (ci_general_lanes_used s)[lane := True]\<rparr>)) (\<lambda>_.
       on_cluster (commit_lane (src lane) lane w (int tgt)))) ?s =
     (Inr (), ?s\<lparr>ci_cluster := wire_lanes src ls w tgt (ci_cluster ?s),
               ci_general_lanes_used := fold (\<lambda>l xs. xs[l := True]) ls (ci_general_lanes_used ?s)\<rparr>)"
    using Cons.prems by (intro Cons.IH) (auto simp: wf_wire_lane)
  ultimately show ?case
    by (simp add: sbind_def modify_def on_cluster_def zoom_def)
qed

lemma fold_update_True:
  "l' < length xs \<Longrightarrow> fold (\<lambda>l xs. xs[l := True]) ls xs ! l' = (l' \<in> set ls \<or> xs ! l')"
proof (induction ls arbitrary: xs)
  case (Cons a ls)
  then show ?case by (cases "a = l'") auto
qed simp

lemma length_fold_update [simp]: "length (fold (\<lambda>l xs. xs[l := v]) ls xs) = length xs"
  by (induction ls arbitrary: xs) auto


section \<open>The invariant of the builder\<close>

definition warned :: "circuit \<Rightarrow> int \<Rightarrow> bool" where
  "warned s out \<longleftrightarrow>
     IdentityShadowed out \<in> set (ci_warnings s) \<or>
     (\<exists>S. out \<in> S \<and> ConstantShadows S \<in> set (ci_warnings s))"

definition sizes_ok :: "circuit \<Rightarrow> bool" where
  "sizes_ok s \<longleftrightarrow>
     wf_cluster (ci_cluster s) \<and>
     length (ci_integrators_used s) = 8 \<and> length (ci_multipliers_used s) = 4 \<and>
     ci_constants_allocated s \<le> 2 \<and>
     length (ci_acl_in_used s) = 8 \<and> length (ci_acl_out_used s) = 8 \<and>
     length (ci_general_lanes_used s) = 32 \<and> length (ci_adc_config s) = 8 \<and>
     length (ci_acl_select s) = 8 \<and>
     (\<exists>b. cl_m0 (ci_cluster s) = Some (MIntBlock b) \<and> length (mi_elements b) = 8)"

text \<open>Every lane is free, or taken by general signals, or reserved by ACL ports, never by both.\<close>

definition lanes_ok :: "circuit \<Rightarrow> bool" where
  "lanes_ok s \<longleftrightarrow>
     (\<forall>l<32. lane_available s l \<longrightarrow> lane_free (ci_cluster s) l) \<and>
     (\<forall>p<8. ci_acl_in_used s ! p \<or> ci_acl_out_used s ! p \<longrightarrow>
        \<not> ci_general_lanes_used s ! (24 + p) \<and> ci_acl_select s ! p = ''EXTERNAL'')"

definition probes_ok :: "circuit \<Rightarrow> bool" where
  "probes_ok s \<longleftrightarrow>
     0 \<le> ci_next_probe_index s \<and>
     (\<forall>ch. Some ch \<in> set (ci_adc_config s) \<longrightarrow> ch_probe ch \<noteq> None) \<and>
     mset (probes (List.map_filter id (ci_adc_config s))) = mset (map int [0..<nat (ci_next_probe_index s)])"

definition warnings_ok :: "circuit \<Rightarrow> bool" where
  "warnings_ok s \<longleftrightarrow>
     ci_identity_outputs_connected s \<subseteq> {14, 15} \<and>
     (const_truthy (u_constant (cl_u (ci_cluster s))) \<longrightarrow>
        (\<forall>out \<in> ci_identity_outputs_connected s. warned s out))"

definition circuit_ok :: "circuit \<Rightarrow> bool" where
  "circuit_ok s \<longleftrightarrow> sizes_ok s \<and> lanes_ok s \<and> probes_ok s \<and> warnings_ok s"

lemmas circuit_ok_defs = circuit_ok_def sizes_ok_def lanes_ok_def probes_ok_def warnings_ok_def

text \<open>The elements a circuit hands out.\<close>

fun element_ok :: "circuit \<Rightarrow> element \<Rightarrow> bool" where
  "element_ok s (Integrator i lane c) = (0 \<le> lane \<and> lane < 8 \<and> c = Some (ci_id s))"
| "element_ok s (MulInput m i c) = (0 \<le> m \<and> m < 4 \<and> (i = 0 \<or> i = 1) \<and> c = Some (ci_id s))"
| "element_ok s (Multiplier i lane c) = (0 \<le> i \<and> i < 4 \<and> lane = 8 + i \<and> c = Some (ci_id s))"
| "element_ok s (Identity off c) = (0 \<le> off \<and> off < 4 \<and> c = Some (ci_id s))"
| "element_ok s (Constant i c) = (c = Some (ci_id s))"
| "element_ok s (Input port lane c) =
     (0 \<le> port \<and> port < 8 \<and> lane = 24 + port \<and> ci_acl_in_used s ! nat port \<and> c = Some (ci_id s))"
| "element_ok s (Output port lane c) =
     (0 \<le> port \<and> port < 8 \<and> lane = 24 + port \<and> ci_acl_out_used s ! nat port \<and> c = Some (ci_id s))"

lemma next_free_first_index: "next_free occ None None = first_index Not occ"
proof -
  have "first_index (\<lambda>(idx, val). \<not> val) (enumerate n occ) = first_index Not occ" for n
    by (induction occ arbitrary: n) auto
  then show ?thesis
    by (simp add: next_free_def split: option.splits)
qed

lemma new_circuit_ok:
  assumes "new_circuit uuid mac = Inr s"
  shows "circuit_ok s"
proof -
  from assms obtain p where s: "s = \<lparr>ci_id = uuid, ci_path = p, ci_cluster = minimal_cluster p,
          ci_integrators_used = replicate 8 False, ci_multipliers_used = replicate 4 False,
          ci_constants_allocated = 0, ci_acl_in_used = replicate 8 False,
          ci_acl_out_used = replicate 8 False, ci_general_lanes_used = replicate 32 False,
          ci_identity_outputs_connected = {}, ci_adc_config = replicate 8 None,
          ci_next_probe_index = 0, ci_acl_select = replicate 8 ''INTERNAL'',
          ci_front_plane = new_front_plane, ci_warnings = []\<rparr>"
    by (auto simp: new_circuit_def rbind_eq_Inr_iff)
  have "sizes_ok s"
    by (simp add: s sizes_ok_def wf_cluster_def minimal_cluster_def new_ublock_def new_cblock_def
        new_iblock_def new_mint_block_def)
  moreover have "lanes_ok s"
    by (simp add: s lanes_ok_def lane_free_def minimal_cluster_def new_ublock_def new_iblock_def)
  moreover have "probes_ok s" "warnings_ok s"
    by (simp_all add: s probes_ok_def warnings_ok_def probes_def List.map_filter_def)
  ultimately show ?thesis
    by (simp add: circuit_ok_def)
qed

subsection \<open>Allocation\<close>

lemma circ_int_free:
  assumes "sizes_ok s" and "first_index Not (ci_integrators_used s) = Some i"
  obtains c where "circ_int ic0 slow s =
      (Inr (Integrator (int i) (int i) (Some (ci_id s))),
       s\<lparr>ci_integrators_used := (ci_integrators_used s)[i := True], ci_cluster := c\<rparr>)"
    and "set_integration i \<lparr>ig_ic = ic0, ig_k = (if slow then 100 else 10000)\<rparr> (ci_cluster s) = Inr c"
proof -
  have "i < 8"
    using first_index_SomeD [OF assms(2)] assms(1) by (simp add: sizes_ok_def)
  moreover obtain b where "cl_m0 (ci_cluster s) = Some (MIntBlock b)" "length (mi_elements b) = 8"
    using assms(1) by (auto simp: sizes_ok_def)
  ultimately obtain c where c: "set_integration i \<lparr>ig_ic = ic0, ig_k = (if slow then 100 else 10000)\<rparr> (ci_cluster s) = Inr c"
    by (auto simp: set_integration_def)
  then show ?thesis
    using assms(2) by (intro that [of c]) (simp_all add: circ_int_def next_free_first_index on_cluster_def pym_defs)
qed

lemma set_integration_frame:
  assumes "set_integration i v c = Inr c'"
  shows "cl_u c' = cl_u c" "cl_c c' = cl_c c" "cl_i c' = cl_i c"
    "\<exists>b b'. cl_m0 c = Some (MIntBlock b) \<and> cl_m0 c' = Some (MIntBlock b') \<and> length (mi_elements b') = length (mi_elements b)"
  using assms
  by (auto simp: set_integration_def rbind_eq_Inr_iff py_set_eq_Inr_iff split: option.splits mblock.splits)

lemma lane_free_cong:
  "cl_u c' = cl_u c \<Longrightarrow> cl_i c' = cl_i c \<Longrightarrow> lane_free c' l = lane_free c l"
  by (simp add: lane_free_def)

lemma wf_cluster_cong:
  "cl_u c' = cl_u c \<Longrightarrow> cl_c c' = cl_c c \<Longrightarrow> cl_i c' = cl_i c \<Longrightarrow> wf_cluster c' = wf_cluster c"
  by (simp add: wf_cluster_def)

lemma circ_int_ok:
  assumes "circuit_ok s"
  shows "circuit_ok (snd (circ_int ic0 slow s))"
proof (cases "first_index Not (ci_integrators_used s)")
  case None
  with assms show ?thesis
    by (simp add: circ_int_def next_free_first_index pym_defs)
next
  case (Some i)
  have sz: "sizes_ok s"
    using assms by (simp add: circuit_ok_def)
  obtain c where c: "circ_int ic0 slow s = (Inr (Integrator (int i) (int i) (Some (ci_id s))),
       s\<lparr>ci_integrators_used := (ci_integrators_used s)[i := True], ci_cluster := c\<rparr>)"
    and si: "set_integration i \<lparr>ig_ic = ic0, ig_k = (if slow then 100 else 10000)\<rparr> (ci_cluster s) = Inr c"
    by (rule circ_int_free [OF sz Some])
  note fr = set_integration_frame [OF si]
  let ?s = "s\<lparr>ci_integrators_used := (ci_integrators_used s)[i := True], ci_cluster := c\<rparr>"
  have "sizes_ok ?s"
    using sz fr wf_cluster_cong [OF fr(1-3)] by (auto simp: sizes_ok_def)
  moreover have "lanes_ok ?s"
    using assms lane_free_cong [OF fr(1,3)] by (simp add: circuit_ok_def lanes_ok_def lane_available_def)
  moreover have "probes_ok ?s" "warnings_ok ?s"
    using assms fr(1) by (simp_all add: circuit_ok_def probes_ok_def warnings_ok_def warned_def)
  ultimately show ?thesis
    by (simp add: c circuit_ok_def)
qed

lemma circ_mul_ok:
  assumes "circuit_ok s"
  shows "circuit_ok (snd (circ_mul s))"
proof (cases "first_index Not (ci_multipliers_used s)")
  case None
  with assms show ?thesis
    by (simp add: circ_mul_def next_free_first_index pym_defs)
next
  case (Some i)
  with assms show ?thesis
    by (simp add: circ_mul_def next_free_first_index pym_defs circuit_ok_defs lane_available_def warned_def)
qed

definition after_const :: "const_val \<Rightarrow> circuit \<Rightarrow> circuit" where
  "after_const v s =
     (let shadowed = ci_identity_outputs_connected s \<inter> {14, 15} in
      s\<lparr>ci_warnings := ci_warnings s @ (if shadowed \<noteq> {} then [ConstantShadows shadowed] else []),
        ci_constants_allocated := ci_constants_allocated s + 1,
        ci_cluster := (ci_cluster s)\<lparr>cl_u := u_set_constant v (cl_u (ci_cluster s))\<rparr>\<rparr>)"

lemma circ_const_free:
  "\<not> ci_constants_allocated s \<ge> 2 \<Longrightarrow>
     circ_const v s = (Inr (Constant (int (ci_constants_allocated s)) (Some (ci_id s))), after_const v s)"
  by (simp add: circ_const_def after_const_def Let_def pym_defs cl_set_constant_def on_u_def on_cluster_def)

lemma after_const_ok:
  assumes "circuit_ok s" and "\<not> ci_constants_allocated s \<ge> 2"
  shows "circuit_ok (after_const v s)"
proof -
  have "sizes_ok (after_const v s)"
    using assms by (auto simp: after_const_def circuit_ok_def sizes_ok_def wf_cluster_def u_set_constant_def Let_def)
  moreover have "lanes_ok (after_const v s)"
    using assms
    by (simp add: after_const_def circuit_ok_def lanes_ok_def lane_available_def lane_free_def u_set_constant_def Let_def)
  moreover have "probes_ok (after_const v s)"
    using assms by (simp add: after_const_def circuit_ok_def probes_ok_def Let_def)
  moreover have "warnings_ok (after_const v s)"
    using assms by (auto simp: after_const_def circuit_ok_def warnings_ok_def warned_def Let_def)
  ultimately show ?thesis
    by (simp only: circuit_ok_def)
qed

lemma circ_const_ok:
  assumes "circuit_ok s"
  shows "circuit_ok (snd (circ_const v s))"
proof (cases "ci_constants_allocated s \<ge> 2")
  case True
  with assms show ?thesis
    by (simp add: circ_const_def pym_defs)
next
  case False
  with assms show ?thesis
    by (simp add: circ_const_free after_const_ok)
qed

text \<open>
  The allocation contract: an allocator with a fixed capacity hands out a slot that is not in use
  while there is one, and raises \<open>ValueError\<close> without any effect when there is none.
\<close>

fun repeat_op :: "('s, 'e) pym \<Rightarrow> nat \<Rightarrow> ('s, 'e list) pym" where
  "repeat_op m 0 = ret []"
| "repeat_op m (Suc n) = sbind m (\<lambda>e. sbind (repeat_op m n) (\<lambda>es. ret (e # es)))"

locale allocator =
  fixes alloc :: "('s, 'e) pym"
    and slot :: "'e \<Rightarrow> nat"
    and used :: "'s \<Rightarrow> nat set"
    and cap :: nat
    and inv :: "'s \<Rightarrow> bool"
  assumes used_bound: "inv s \<Longrightarrow> used s \<subseteq> {..<cap}"
    and alloc_full: "inv s \<Longrightarrow> used s = {..<cap} \<Longrightarrow> alloc s = (Inl ValueError, s)"
    and alloc_free: "inv s \<Longrightarrow> used s \<noteq> {..<cap} \<Longrightarrow>
       \<exists>e s'. alloc s = (Inr e, s') \<and> slot e < cap \<and> slot e \<notin> used s \<and>
              used s' = insert (slot e) (used s) \<and> inv s'"
begin

lemma finite_used: "inv s \<Longrightarrow> finite (used s)"
  using used_bound finite_subset by blast

lemma card_used: "inv s \<Longrightarrow> card (used s) \<le> cap"
  using card_mono [OF finite_lessThan used_bound] by simp

lemma full_iff: "inv s \<Longrightarrow> used s = {..<cap} \<longleftrightarrow> card (used s) = cap"
  by (metis card_lessThan card_subset_eq finite_lessThan used_bound)

lemma repeat_distinct:
  assumes "inv s" and "card (used s) + n \<le> cap"
  shows "\<exists>es s'. repeat_op alloc n s = (Inr es, s') \<and> length es = n \<and> distinct (map slot es) \<and>
     set (map slot es) \<inter> used s = {} \<and> used s' = set (map slot es) \<union> used s \<and> inv s'"
  using assms
proof (induction n arbitrary: s)
  case 0
  then show ?case by (simp add: ret_def)
next
  case (Suc n)
  then have "used s \<noteq> {..<cap}"
    by (auto simp: full_iff)
  then obtain e s1 where e: "alloc s = (Inr e, s1)" "slot e \<notin> used s"
      "used s1 = insert (slot e) (used s)" "inv s1"
    using alloc_free [OF Suc.prems(1)] by blast
  then have "card (used s1) + n \<le> cap"
    using Suc.prems finite_used [OF Suc.prems(1)] by simp
  then obtain es s' where "repeat_op alloc n s1 = (Inr es, s')" "length es = n" "distinct (map slot es)"
      "set (map slot es) \<inter> used s1 = {}" "used s' = set (map slot es) \<union> used s1" "inv s'"
    using Suc.IH [OF e(4)] by blast
  with e show ?case
    by (auto simp: sbind_def ret_def)
qed

lemma repeat_exhausted:
  assumes "inv s" and "cap < card (used s) + n"
  shows "\<exists>s'. repeat_op alloc n s = (Inl ValueError, s') \<and> used s' = {..<cap} \<and> inv s'"
  using assms
proof (induction n arbitrary: s)
  case 0
  then show ?case using card_used [of s] by simp
next
  case (Suc n)
  show ?case
  proof (cases "used s = {..<cap}")
    case True
    with Suc.prems show ?thesis by (simp add: alloc_full sbind_def)
  next
    case False
    then obtain e s1 where e: "alloc s = (Inr e, s1)" "slot e \<notin> used s"
        "used s1 = insert (slot e) (used s)" "inv s1"
      using alloc_free [OF Suc.prems(1)] by blast
    then have "cap < card (used s1) + n"
      using Suc.prems finite_used [OF Suc.prems(1)] by simp
    from Suc.IH [OF e(4) this] e show ?thesis
      by (auto simp: sbind_def)
  qed
qed

end

definition slots_of :: "bool list \<Rightarrow> nat set" where
  "slots_of xs = {i. i < length xs \<and> xs ! i}"

lemma first_index_Not_None: "first_index Not xs = None \<longleftrightarrow> slots_of xs = {..<length xs}"
proof -
  have "slots_of xs = {..<length xs} \<longleftrightarrow> (\<forall>i<length xs. xs ! i)"
    by (auto simp: slots_of_def)
  then show ?thesis
    by (simp add: first_index_None_iff all_set_conv_all_nth)
qed

lemma slots_of_update: "i < length xs \<Longrightarrow> slots_of (xs[i := True]) = insert i (slots_of xs)"
  by (auto simp: slots_of_def nth_list_update)

lemma first_index_Not_Some: "first_index Not xs = Some i \<Longrightarrow> i < length xs \<and> i \<notin> slots_of xs"
  by (auto simp: slots_of_def dest: first_index_SomeD)

fun slot_of :: "element \<Rightarrow> nat" where
  "slot_of (Integrator i _ _) = nat i"
| "slot_of (Multiplier i _ _) = nat i"
| "slot_of (Constant i _) = nat i"
| "slot_of (Input p _ _) = nat p"
| "slot_of (Output p _ _) = nat p"
| "slot_of _ = 0"

interpretation integrators: allocator "circ_int ic0 slow" slot_of "\<lambda>s. slots_of (ci_integrators_used s)" 8 circuit_ok
proof unfold_locales
  fix s
  assume ok: "circuit_ok s"
  then have len: "length (ci_integrators_used s) = 8" and sz: "sizes_ok s"
    by (simp_all add: circuit_ok_def sizes_ok_def)
  show "slots_of (ci_integrators_used s) \<subseteq> {..<8}"
    using len by (auto simp: slots_of_def)
  {
    assume "slots_of (ci_integrators_used s) = {..<8}"
    with len have "first_index Not (ci_integrators_used s) = None"
      by (simp add: first_index_Not_None)
    then show "circ_int ic0 slow s = (Inl ValueError, s)"
      by (simp add: circ_int_def next_free_first_index pym_defs)
  next
    assume "slots_of (ci_integrators_used s) \<noteq> {..<8}"
    with len obtain i where i: "first_index Not (ci_integrators_used s) = Some i"
      using first_index_Not_None [of "ci_integrators_used s"] by auto
    obtain c where c: "circ_int ic0 slow s = (Inr (Integrator (int i) (int i) (Some (ci_id s))),
       s\<lparr>ci_integrators_used := (ci_integrators_used s)[i := True], ci_cluster := c\<rparr>)"
      by (rule circ_int_free [OF sz i])
    with circ_int_ok [OF ok, of ic0 slow] first_index_Not_Some [OF i] len
    show "\<exists>e s'. circ_int ic0 slow s = (Inr e, s') \<and> slot_of e < 8 \<and>
        slot_of e \<notin> slots_of (ci_integrators_used s) \<and>
        slots_of (ci_integrators_used s') = insert (slot_of e) (slots_of (ci_integrators_used s)) \<and> circuit_ok s'"
      by (simp add: slots_of_update)
  }
qed

interpretation multipliers: allocator circ_mul slot_of "\<lambda>s. slots_of (ci_multipliers_used s)" 4 circuit_ok
proof unfold_locales
  fix s
  assume ok: "circuit_ok s"
  then have len: "length (ci_multipliers_used s) = 4"
    by (simp add: circuit_ok_def sizes_ok_def)
  show "slots_of (ci_multipliers_used s) \<subseteq> {..<4}"
    using len by (auto simp: slots_of_def)
  {
    assume "slots_of (ci_multipliers_used s) = {..<4}"
    with len have "first_index Not (ci_multipliers_used s) = None"
      by (simp add: first_index_Not_None)
    then show "circ_mul s = (Inl ValueError, s)"
      by (simp add: circ_mul_def next_free_first_index pym_defs)
  next
    assume "slots_of (ci_multipliers_used s) \<noteq> {..<4}"
    with len obtain i where i: "first_index Not (ci_multipliers_used s) = Some i"
      using first_index_Not_None [of "ci_multipliers_used s"] by auto
    with circ_mul_ok [OF ok] first_index_Not_Some [OF i] len
    show "\<exists>e s'. circ_mul s = (Inr e, s') \<and> slot_of e < 4 \<and>
        slot_of e \<notin> slots_of (ci_multipliers_used s) \<and>
        slots_of (ci_multipliers_used s') = insert (slot_of e) (slots_of (ci_multipliers_used s)) \<and> circuit_ok s'"
      by (simp add: slots_of_update circ_mul_def next_free_first_index pym_defs)
  }
qed

interpretation constants: allocator "circ_const v" slot_of "\<lambda>s. {..<ci_constants_allocated s}" 2 circuit_ok
proof unfold_locales
  fix s
  assume ok: "circuit_ok s"
  then show "{..<ci_constants_allocated s} \<subseteq> {..<2}"
    by (auto simp: circuit_ok_def sizes_ok_def)
  {
    assume "{..<ci_constants_allocated s} = {..<2}"
    then show "circ_const v s = (Inl ValueError, s)"
      by (simp add: circ_const_def pym_defs)
  next
    assume "{..<ci_constants_allocated s} \<noteq> {..<2}"
    with ok have "\<not> ci_constants_allocated s \<ge> 2"
      by (auto simp: circuit_ok_def sizes_ok_def)
    with ok
    show "\<exists>e s'. circ_const v s = (Inr e, s') \<and> slot_of e < 2 \<and> slot_of e \<notin> {..<ci_constants_allocated s} \<and>
        {..<ci_constants_allocated s'} = insert (slot_of e) {..<ci_constants_allocated s} \<and> circuit_ok s'"
      by (simp add: circ_const_free after_const_ok) (simp add: after_const_def Let_def lessThan_Suc)
  }
qed


subsection \<open>Ports\<close>

definition port_arg_ok :: "int option \<Rightarrow> bool" where
  "port_arg_ok port \<longleftrightarrow> (case port of None \<Rightarrow> True | Some p \<Rightarrow> 0 \<le> p)"

lemma py_get_cases: "0 \<le> i \<Longrightarrow> py_get xs i = (if i < int (length xs) then Inr (xs ! nat i) else Inl IndexError)"
  by simp

lemma acl_port_chosen:
  assumes "length (used s) = 8" and "length (ci_general_lanes_used s) = 32" and "length (ci_acl_select s) = 8"
    and "\<And>xs. ci_acl_select (set_used xs s) = ci_acl_select s" and "\<And>xs. ci_id (set_used xs s) = ci_id s"
    and "p < 8"
  shows "(let lane = 24 + int p in
     sbind (eval_st (\<lambda>s. py_get (ci_general_lanes_used s) lane)) (\<lambda>b.
     sbind (guard (\<not> b) ValueError) (\<lambda>_.
     sbind (update_st (\<lambda>s. rbind (py_set (used s) (int p) True) (\<lambda>xs. Inr (set_used xs s)))) (\<lambda>_.
     sbind (update_st (\<lambda>s. rbind (py_set (ci_acl_select s) (int p) ''EXTERNAL'') (\<lambda>xs.
              Inr (s\<lparr>ci_acl_select := xs\<rparr>)))) (\<lambda>_.
     sbind get_st (\<lambda>s. ret (mk (int p) lane (Some (ci_id s))))))))) s =
   (if ci_general_lanes_used s ! (24 + p) then (Inl ValueError, s)
    else (Inr (mk (int p) (24 + int p) (Some (ci_id s))),
          (set_used ((used s)[p := True]) s)\<lparr>ci_acl_select := (ci_acl_select s)[p := ''EXTERNAL'']\<rparr>))"
proof -
  have "nat (24 + int p) = 24 + p"
    by simp
  with assms show ?thesis
    by (simp add: Let_def pym_defs)
qed

lemma acl_port_cases:
  assumes len: "length (used s) = 8" "length (ci_general_lanes_used s) = 32" "length (ci_acl_select s) = 8"
    and frame: "\<And>xs. ci_acl_select (set_used xs s) = ci_acl_select s" "\<And>xs. ci_id (set_used xs s) = ci_id s"
    and port: "port_arg_ok port"
  shows "(\<exists>e. acl_port used set_used mk port s = (Inl e, s)) \<or>
    (\<exists>p<8. \<not> used s ! p \<and> \<not> ci_general_lanes_used s ! (24 + p) \<and>
       acl_port used set_used mk port s =
         (Inr (mk (int p) (24 + int p) (Some (ci_id s))),
          (set_used ((used s)[p := True]) s)\<lparr>ci_acl_select := (ci_acl_select s)[p := ''EXTERNAL'']\<rparr>))"
proof (cases port)
  case None
  show ?thesis
  proof (cases "first_index Not (used s)")
    case None
    with \<open>port = None\<close> show ?thesis
      by (simp add: acl_port_def next_free_first_index pym_defs)
  next
    case (Some p)
    with len first_index_SomeD [OF Some] have p: "p < 8" "\<not> used s ! p"
      by auto
    show ?thesis
      using \<open>port = None\<close> Some p acl_port_chosen [of used s set_used p mk, OF len frame p(1)]
      by (cases "ci_general_lanes_used s ! (24 + p)")
        (auto simp: acl_port_def next_free_first_index sbind_def get_st_def ret_def)
  qed
next
  case (Some q)
  then have q: "0 \<le> q"
    using port by (simp add: port_arg_ok_def)
  show ?thesis
  proof (cases "q < 8 \<and> \<not> used s ! nat q")
    case False
    with Some q len show ?thesis
      by (auto simp: acl_port_def pym_defs py_get_cases)
  next
    case True
    define p where "p = nat q"
    with True q have p: "p < 8" "\<not> used s ! p" "q = int p"
      by auto
    show ?thesis
      using Some p len acl_port_chosen [of used s set_used p mk, OF len frame p(1)]
      by (cases "ci_general_lanes_used s ! (24 + p)")
        (auto simp: acl_port_def sbind_def ret_def eval_st_def guard_def)
  qed
qed

lemma port_reserved_ok:
  assumes ok: "circuit_ok s" and p: "p < 8" "\<not> ci_general_lanes_used s ! (24 + p)"
    and up: "s' = s\<lparr>ci_acl_in_used := (if b then (ci_acl_in_used s)[p := True] else ci_acl_in_used s),
                   ci_acl_out_used := (if b then ci_acl_out_used s else (ci_acl_out_used s)[p := True]),
                   ci_acl_select := (ci_acl_select s)[p := ''EXTERNAL'']\<rparr>"
  shows "circuit_ok s'"
proof -
  have sz: "sizes_ok s" and la: "lanes_ok s"
    using ok by (simp_all add: circuit_ok_def)
  have "sizes_ok s'"
    using sz by (simp add: up sizes_ok_def)
  moreover have "lanes_ok s'"
  proof -
    have len: "length (ci_acl_in_used s) = 8" "length (ci_acl_out_used s) = 8" "length (ci_acl_select s) = 8"
      using sz by (simp_all add: sizes_ok_def)
    have "lane_available s' l \<Longrightarrow> lane_available s l" if "l < 32" for l
      using that len p(1) by (auto simp: up lane_available_def nth_list_update split: if_splits)
    moreover have "\<not> ci_general_lanes_used s' ! (24 + q) \<and> ci_acl_select s' ! q = ''EXTERNAL''"
      if "q < 8" "ci_acl_in_used s' ! q \<or> ci_acl_out_used s' ! q" for q
      using that la len p by (cases "q = p") (auto simp: up lanes_ok_def nth_list_update split: if_splits)
    ultimately show ?thesis
      using la by (simp add: lanes_ok_def) (simp add: up)
  qed
  moreover have "probes_ok s'" "warnings_ok s'"
    using ok by (simp_all add: up circuit_ok_def probes_ok_def warnings_ok_def warned_def)
  ultimately show ?thesis
    by (simp add: circuit_ok_def)
qed

lemma circ_input_cases:
  assumes "circuit_ok s" and "port_arg_ok port"
  obtains e where "circ_input port s = (Inl e, s)"
  | p s' where "p < 8" "\<not> ci_acl_in_used s ! p" "\<not> ci_general_lanes_used s ! (24 + p)"
      "circ_input port s = (Inr (Input (int p) (24 + int p) (Some (ci_id s))), s')" "circuit_ok s'"
      "s' = s\<lparr>ci_acl_in_used := (ci_acl_in_used s)[p := True], ci_acl_select := (ci_acl_select s)[p := ''EXTERNAL'']\<rparr>"
proof -
  have "(\<exists>e. circ_input port s = (Inl e, s)) \<or>
    (\<exists>p<8. \<not> ci_acl_in_used s ! p \<and> \<not> ci_general_lanes_used s ! (24 + p) \<and>
       circ_input port s = (Inr (Input (int p) (24 + int p) (Some (ci_id s))),
          s\<lparr>ci_acl_in_used := (ci_acl_in_used s)[p := True], ci_acl_select := (ci_acl_select s)[p := ''EXTERNAL'']\<rparr>))"
    using assms acl_port_cases [of ci_acl_in_used s "\<lambda>xs s. s\<lparr>ci_acl_in_used := xs\<rparr>" port Input]
    by (simp add: circ_input_def circuit_ok_def sizes_ok_def)
  then show ?thesis
    using that port_reserved_ok [OF assms(1), where b = True] by fastforce
qed

lemma circ_output_cases:
  assumes "circuit_ok s" and "port_arg_ok port"
  obtains e where "circ_output port s = (Inl e, s)"
  | p s' where "p < 8" "\<not> ci_acl_out_used s ! p" "\<not> ci_general_lanes_used s ! (24 + p)"
      "circ_output port s = (Inr (Output (int p) (24 + int p) (Some (ci_id s))), s')" "circuit_ok s'"
      "s' = s\<lparr>ci_acl_out_used := (ci_acl_out_used s)[p := True], ci_acl_select := (ci_acl_select s)[p := ''EXTERNAL'']\<rparr>"
proof -
  have "(\<exists>e. circ_output port s = (Inl e, s)) \<or>
    (\<exists>p<8. \<not> ci_acl_out_used s ! p \<and> \<not> ci_general_lanes_used s ! (24 + p) \<and>
       circ_output port s = (Inr (Output (int p) (24 + int p) (Some (ci_id s))),
          s\<lparr>ci_acl_out_used := (ci_acl_out_used s)[p := True], ci_acl_select := (ci_acl_select s)[p := ''EXTERNAL'']\<rparr>))"
    using assms acl_port_cases [of ci_acl_out_used s "\<lambda>xs s. s\<lparr>ci_acl_out_used := xs\<rparr>" port Output]
    by (simp add: circ_output_def circuit_ok_def sizes_ok_def)
  then show ?thesis
    using that port_reserved_ok [OF assms(1), where b = False] by fastforce
qed


subsection \<open>Connections\<close>

lemma n_lanes_for_pos [simp]: "0 < n_lanes_for w"
  by (simp add: n_lanes_for_def)

lemma weight_per_lane_bound: "\<bar>w / of_nat (n_lanes_for w)\<bar> \<le> 8"
proof -
  have "\<bar>w\<bar> / 8 \<le> of_int \<lceil>\<bar>w\<bar> / 8\<rceil>"
    by (rule le_of_int_ceiling)
  also have "\<dots> \<le> of_nat (n_lanes_for w)"
    by (simp add: n_lanes_for_def of_nat_max)
  finally show ?thesis
    by (simp add: abs_divide divide_le_eq mult.commute)
qed

lemma available_lanes_props:
  "distinct (available_lanes s)"
  "l \<in> set (available_lanes s) \<longleftrightarrow> l < 32 \<and> lane_available s l"
  by (auto simp: available_lanes_def)

lemma taken_lanes:
  assumes "lanes_ok s"
  shows "distinct (take n (available_lanes s))"
    and "\<forall>l\<in>set (take n (available_lanes s)). l < 32 \<and> lane_free (ci_cluster s) l"
    and "\<forall>l\<in>set (take n (available_lanes s)). lane_available s l"
  using assms available_lanes_props set_take_subset [of n "available_lanes s"]
  by (auto simp: lanes_ok_def)

definition after_connect :: "element \<Rightarrow> nat \<Rightarrow> rat \<Rightarrow> circuit \<Rightarrow> circuit" where
  "after_connect source tgt weight s =
     (let n = n_lanes_for weight; ls = take n (available_lanes s) in
      s\<lparr>ci_cluster := wire_lanes (\<lambda>l. source_for_lane source (int l)) ls (weight / of_nat n) tgt (ci_cluster s),
        ci_general_lanes_used := fold (\<lambda>l xs. xs[l := True]) ls (ci_general_lanes_used s)\<rparr>)"

lemma connect_standard_eq:
  assumes "circuit_ok s" and "tgt < 16"
  shows "connect_standard source (int tgt) weight s =
    (if length (available_lanes s) < n_lanes_for weight then (Inl ValueError, s)
     else (Inr (), after_connect source tgt weight s))"
proof -
  have "wf_cluster (ci_cluster s)" and la: "lanes_ok s"
    using assms(1) by (simp_all add: circuit_ok_def sizes_ok_def)
  then have "commit_lanes (\<lambda>l. source_for_lane source (int l)) (take (n_lanes_for weight) (available_lanes s))
      (weight / of_nat (n_lanes_for weight)) (int tgt) s = (Inr (), after_connect source tgt weight s)"
    unfolding after_connect_def Let_def
    using assms(2) taken_lanes(1,2) [OF la] weight_per_lane_bound by (intro commit_lanes_free)
  then show ?thesis
    by (simp add: connect_standard_def Let_def pym_defs)
qed

lemma lane_available_after_connect:
  assumes "sizes_ok s" and "l < 32"
  shows "lane_available (after_connect source tgt weight s) l \<longleftrightarrow>
    lane_available s l \<and> l \<notin> set (take (n_lanes_for weight) (available_lanes s))"
  using assms by (auto simp: after_connect_def Let_def lane_available_def fold_update_True sizes_ok_def)

lemma after_connect_ok:
  assumes ok: "circuit_ok s" and "tgt < 16"
  shows "circuit_ok (after_connect source tgt weight s)"
proof -
  let ?s = "after_connect source tgt weight s"
  let ?ls = "take (n_lanes_for weight) (available_lanes s)"
  have sz: "sizes_ok s" and la: "lanes_ok s"
    using ok by (simp_all add: circuit_ok_def)
  have "sizes_ok ?s"
    using sz by (simp add: sizes_ok_def after_connect_def Let_def wf_wire_lanes)
  moreover have "lanes_ok ?s"
  proof -
    have "lane_free (ci_cluster ?s) l" if "l < 32" "lane_available ?s l" for l
    proof -
      have "lane_available s l" "l \<notin> set ?ls"
        using that lane_available_after_connect [OF sz] by auto
      with la that have "lane_free (ci_cluster s) l" "l \<notin> set ?ls"
        by (auto simp: lanes_ok_def)
      then show ?thesis
        using sz taken_lanes(2) [OF la] assms(2) by (simp add: after_connect_def Let_def lane_free_wire_lanes sizes_ok_def)
    qed
    moreover have "\<not> ci_general_lanes_used ?s ! (24 + p) \<and> ci_acl_select ?s ! p = ''EXTERNAL''"
      if p: "p < 8" and acl: "ci_acl_in_used ?s ! p \<or> ci_acl_out_used ?s ! p" for p
    proof -
      have acl': "ci_acl_in_used s ! p \<or> ci_acl_out_used s ! p"
        using acl by (simp add: after_connect_def Let_def)
      then have "\<not> lane_available s (24 + p)"
        by (auto simp: lane_available_def)
      then have "24 + p \<notin> set ?ls"
        using taken_lanes(3) [OF la] by blast
      with acl' p la sz show ?thesis
        by (auto simp: after_connect_def Let_def lanes_ok_def fold_update_True sizes_ok_def)
    qed
    ultimately show ?thesis
      by (simp add: lanes_ok_def)
  qed
  moreover have "probes_ok ?s" "warnings_ok ?s"
    using ok by (simp_all add: circuit_ok_def probes_ok_def warnings_ok_def warned_def after_connect_def Let_def)
  ultimately show ?thesis
    by (simp add: circuit_ok_def)
qed

text \<open>
  \<open>connect\<close> notes the use of an identity output that a constant giver can shadow before it looks at
  the lanes. A call that fails at the lanes has therefore left this note, and nothing else.
\<close>

definition identity_noted :: "element \<Rightarrow> circuit \<Rightarrow> circuit" where
  "identity_noted source s =
     (if source \<in> {Identity 2 (circuit_id_of source), Identity 3 (circuit_id_of source)} then
        s\<lparr>ci_warnings := ci_warnings s @
            (if const_truthy (u_constant (cl_u (ci_cluster s))) then [IdentityShadowed (the (source_output_lane source))] else []),
          ci_identity_outputs_connected := insert (the (source_output_lane source)) (ci_identity_outputs_connected s)\<rparr>
      else s)"

lemma note_identity_eq: "note_identity source s = (Inr (), identity_noted source s)"
  by (cases source) (auto simp: note_identity_def identity_noted_def pym_defs)

lemma identity_noted_ok:
  assumes "circuit_ok s"
  shows "circuit_ok (identity_noted source s)"
  using assms by (cases source) (auto simp: identity_noted_def circuit_ok_defs lane_available_def warned_def)

lemma identity_noted_simps [simp]:
  "ci_cluster (identity_noted source s) = ci_cluster s" "ci_id (identity_noted source s) = ci_id s"
  "ci_general_lanes_used (identity_noted source s) = ci_general_lanes_used s"
  "ci_acl_in_used (identity_noted source s) = ci_acl_in_used s"
  "ci_acl_out_used (identity_noted source s) = ci_acl_out_used s"
  by (simp_all add: identity_noted_def)

lemma available_lanes_identity_noted [simp]: "available_lanes (identity_noted source s) = available_lanes s"
  by (auto simp: available_lanes_def lane_available_def intro: filter_cong)

text \<open>Changes confined to a lane that an ACL port reserves keep the invariant.\<close>

lemma reserved_lane_ok:
  assumes ok: "circuit_ok s" and p: "p < 8" "ci_acl_in_used s ! p \<or> ci_acl_out_used s ! p"
    and c': "wf_cluster c'" "cl_m0 c' = cl_m0 (ci_cluster s)"
      "u_constant (cl_u c') = u_constant (cl_u (ci_cluster s))"
      "\<And>l. l < 32 \<Longrightarrow> l \<noteq> 24 + p \<Longrightarrow> lane_free c' l = lane_free (ci_cluster s) l"
  shows "circuit_ok (s\<lparr>ci_cluster := c'\<rparr>)"
proof -
  have "\<not> lane_available s (24 + p)"
    using p by (auto simp: lane_available_def)
  then have "lane_free c' l" if "l < 32" "lane_available s l" for l
    using that ok c'(4) [of l] by (cases "l = 24 + p") (auto simp: circuit_ok_def lanes_ok_def)
  then have "lanes_ok (s\<lparr>ci_cluster := c'\<rparr>)"
    using ok by (simp add: circuit_ok_def lanes_ok_def) (simp add: lane_available_def)
  then show ?thesis
    using ok c'(1-3) by (simp add: circuit_ok_def sizes_ok_def probes_ok_def warnings_ok_def warned_def)
qed

lemma connect_acl_in_ok:
  assumes ok: "circuit_ok s" and p: "p < 8" "ci_acl_in_used s ! p"
  obtains e where "on_cluster (on_i (i_connect {24 + int p} tgt False)) s = (Inl e, s)"
  | c' where "on_cluster (on_i (i_connect {24 + int p} tgt False)) s = (Inr (), s\<lparr>ci_cluster := c'\<rparr>)"
      "circuit_ok (s\<lparr>ci_cluster := c'\<rparr>)"
proof (rule i_connect_cases [of "{24 + int p}" tgt "cl_i (ci_cluster s)"])
  fix e
  assume "i_connect {24 + int p} tgt False (cl_i (ci_cluster s)) = (Inl e, cl_i (ci_cluster s))"
  then show thesis
    by (intro that(1) [of e]) (simp add: on_cluster_def on_i_def zoom_def)
next
  fix j
  let ?b = "cl_i (ci_cluster s)"
  let ?b' = "?b\<lparr>i_outputs := (i_outputs ?b)[j := i_outputs ?b ! j \<union> {24 + int p}]\<rparr>"
  let ?c = "(ci_cluster s)\<lparr>cl_i := ?b'\<rparr>"
  assume j: "j < length (i_outputs ?b)" and i: "i_connect {24 + int p} tgt False ?b = (Inr (), ?b')"
  have wf: "wf_cluster (ci_cluster s)"
    using ok by (simp add: circuit_ok_def sizes_ok_def)
  have "circuit_ok (s\<lparr>ci_cluster := ?c\<rparr>)"
  proof (rule reserved_lane_ok [OF ok p(1)])
    show "wf_cluster ?c"
      using wf by (simp add: wf_cluster_def)
    show "lane_free ?c l = lane_free (ci_cluster s) l" if "l \<noteq> 24 + p" for l
      using that wf j by (auto simp: lane_free_def wf_cluster_def nth_list_update)
  qed (use p in simp_all)
  with i show thesis
    by (intro that(2) [of ?c]) (simp_all add: on_cluster_def on_i_def zoom_def)
qed

lemma connect_acl_out_ok:
  assumes ok: "circuit_ok s" and p: "p < 8" "ci_acl_out_used s ! p"
  obtains e where "connect_acl_out src (24 + int p) w s = (Inl e, s)"
  | c' where "connect_acl_out src (24 + int p) w s = (Inr (), s\<lparr>ci_cluster := c'\<rparr>)" "circuit_ok (s\<lparr>ci_cluster := c'\<rparr>)"
proof (cases "\<bar>w\<bar> \<le> 1")
  case False
  then show ?thesis
    by (intro that(1) [of ValueError]) (simp add: connect_acl_out_def pym_defs)
next
  case w: True
  let ?u = "cl_u (ci_cluster s)" and ?c = "cl_c (ci_cluster s)"
  have wf: "wf_cluster (ci_cluster s)"
    using ok by (simp add: circuit_ok_def sizes_ok_def)
  then have len: "length (u_outputs ?u) = 32" "length (c_factors ?c) = 32"
    by (simp_all add: wf_cluster_def)
  have c: "c_set_factor (24 + int p) w ?c = (Inr (), ?c\<lparr>c_factors := (c_factors ?c)[24 + p := w]\<rparr>)"
    using c_set_factor_ok [of "24 + p" ?c w] p len w by (simp add: abs_le_iff)
  show ?thesis
  proof (rule u_connect_cases [of src "24 + int p" ?u])
    fix e
    assume "u_connect src [24 + int p] False ?u = (Inl e, ?u)"
    then show ?thesis
      by (intro that(1) [of e]) (use w in \<open>simp add: connect_acl_out_def on_cluster_def on_u_def pym_defs linorder_not_less\<close>)
  next
    fix j
    let ?u' = "?u\<lparr>u_outputs := (u_outputs ?u)[j := Some src]\<rparr>"
    let ?c' = "(ci_cluster s)\<lparr>cl_u := ?u', cl_c := ?c\<lparr>c_factors := (c_factors ?c)[24 + p := w]\<rparr>\<rparr>"
    assume j: "py_idx (length (u_outputs ?u)) (24 + int p) = Some j"
      and u: "u_connect src [24 + int p] False ?u = (Inr (), ?u')"
    have jp: "j = 24 + p"
      using j p len by (simp add: nat_add_distrib)
    have "circuit_ok (s\<lparr>ci_cluster := ?c'\<rparr>)"
    proof (rule reserved_lane_ok [OF ok p(1)])
      show "wf_cluster ?c'"
        using wf by (simp add: wf_cluster_def)
      show "lane_free ?c' l = lane_free (ci_cluster s) l" if "l \<noteq> 24 + p" for l
        using that jp by (simp add: lane_free_def)
    qed (use p in simp_all)
    with u c show ?thesis
      by (intro that(2) [of ?c']) (use w in \<open>simp_all add: connect_acl_out_def on_cluster_def on_u_def on_c_def pym_defs linorder_not_less\<close>)
  qed
qed

definition standard_source :: "element \<Rightarrow> bool" where
  "standard_source e \<longleftrightarrow> (case e of Input _ _ _ \<Rightarrow> False | Output _ _ _ \<Rightarrow> False | MulInput _ _ _ \<Rightarrow> False | _ \<Rightarrow> True)"

definition standard_target :: "element \<Rightarrow> bool" where
  "standard_target e \<longleftrightarrow> (case e of Integrator _ _ _ \<Rightarrow> True | MulInput _ _ _ \<Rightarrow> True | Multiplier _ _ _ \<Rightarrow> True | _ \<Rightarrow> False)"

lemma standard_target_input:
  assumes "element_ok s e" and "standard_target e"
  obtains t where "t < 16" "target_m_input e = Some (int t)"
proof -
  have "\<exists>i. target_m_input e = Some i \<and> 0 \<le> i \<and> i < 16"
    using assms by (cases e) (auto simp: standard_target_def mul_input_lane_def)
  then obtain i where "target_m_input e = Some i" "0 \<le> i" "i < 16"
    by blast
  then show ?thesis
    using that [of "nat i"] by simp
qed

lemma circ_connect_standard:
  assumes "element_ok s source" and "element_ok s target" and "standard_source source" and "standard_target target"
    and "target_m_input target = Some t"
  shows "circ_connect source target weight s = connect_standard source t weight (identity_noted source s)"
  using assms
  by (cases source; cases target)
    (auto simp: circ_connect_def note_identity_eq standard_source_def standard_target_def sbind_def get_st_def guard_def ret_def)

lemma element_ok_id: "element_ok s e \<Longrightarrow> circuit_id_of e = Some (ci_id s)"
  by (cases e) auto


text \<open>
  \<open>connect\<close> on elements of the circuit: it raises and leaves the configuration alone, or it returns
  with the invariant kept; the ports in use never change.
\<close>

lemma circ_connect_cases:
  assumes ok: "circuit_ok s" and src: "element_ok s source" and tgt: "element_ok s target"
  obtains (raises) e s' where "circ_connect source target weight s = (Inl e, s')" "circuit_ok s'"
      "s' = s \<or> s' = identity_noted source s"
  | (returns) s' where "circ_connect source target weight s = (Inr (), s')" "circuit_ok s'"
      "ci_id s' = ci_id s" "ci_acl_in_used s' = ci_acl_in_used s" "ci_acl_out_used s' = ci_acl_out_used s"
proof -
  let ?s1 = "identity_noted source s"
  note n = note_identity_eq [of source s] and ok1 = identity_noted_ok [OF ok, of source]
  note ids = element_ok_id [OF src] element_ok_id [OF tgt]
  have bad_type: thesis if "\<not> (is_constant source \<or> source_output_lane source \<noteq> None) \<or> target_m_input target = None"
    by (rule raises [OF _ ok, of TypeError])
      (use that in \<open>auto simp: circ_connect_def note_identity_eq ids pym_defs split: option.splits\<close>)
  consider (acl_in) port where "source = Input port (24 + port) (Some (ci_id s))"
    | (acl_out) port where "standard_source source" "target = Output port (24 + port) (Some (ci_id s))"
    | (std) "standard_source source" "standard_target target"
    | (bad) "\<not> (is_constant source \<or> source_output_lane source \<noteq> None) \<or> target_m_input target = None"
    using src tgt
    by (cases source; cases target) (auto simp: standard_source_def standard_target_def)
  then show thesis
  proof cases
    case acl_in
    define p where "p = nat port"
    with src acl_in have p: "p < 8" "ci_acl_in_used ?s1 ! p" and po: "port = int p"
      by auto
    show thesis
    proof (cases "target_m_input target")
      case None
      then show thesis by (intro bad_type) simp
    next
      case (Some t)
      then have c: "circ_connect source target weight s = on_cluster (on_i (i_connect {24 + int p} t False)) ?s1"
        using acl_in(1) by (simp add: circ_connect_def note_identity_eq ids po sbind_def get_st_def guard_def ret_def)
      show thesis
        by (rule connect_acl_in_ok [OF ok1 p, of t])
          (use c ok1 raises returns in auto)
    qed
  next
    case acl_out
    define p where "p = nat port"
    with tgt acl_out have p: "p < 8" "ci_acl_out_used ?s1 ! p" and po: "port = int p"
      by auto
    have c: "circ_connect source target weight s = connect_acl_out (source_for_lane source (24 + int p)) (24 + int p) weight ?s1"
      using acl_out src
      by (cases source) (auto simp: circ_connect_def note_identity_eq standard_source_def po sbind_def get_st_def guard_def ret_def)
    show thesis
      by (rule connect_acl_out_ok [OF ok1 p, of "source_for_lane source (24 + int p)" weight])
        (use c ok1 raises returns in auto)
  next
    case std
    obtain t where t: "t < 16" "target_m_input target = Some (int t)"
      by (rule standard_target_input [OF tgt std(2)])
    note c = circ_connect_standard [OF src tgt std t(2), of weight]
    show thesis
    proof (cases "length (available_lanes ?s1) < n_lanes_for weight")
      case True
      then show thesis
        using c ok1 by (intro raises [of ValueError ?s1]) (simp_all add: connect_standard_eq [OF ok1 t(1)])
    next
      case False
      then show thesis
        using c after_connect_ok [OF ok1 t(1)]
        by (intro returns [of "after_connect source t weight ?s1"])
          (simp_all add: connect_standard_eq [OF ok1 t(1)] after_connect_def Let_def)
    qed
  next
    case bad
    then show thesis by (rule bad_type)
  qed
qed


subsection \<open>Probes\<close>

lemma map_filter_id_update:
  "i < length xs \<Longrightarrow> xs ! i = None \<Longrightarrow>
     mset (List.map_filter id (xs[i := Some x])) = add_mset x (mset (List.map_filter id xs))"
proof (induction xs arbitrary: i)
  case (Cons y ys)
  then show ?case by (cases i) (auto simp: List.map_filter_simps split: option.splits)
qed simp

lemma probe_adc_cases:
  assumes ok: "circuit_ok s"
  obtains e where "probe_adc source ch s = (Inl e, s)"
  | i lane s' where "i < 8" "ci_adc_config s ! i = None" "source_output_lane source = Some lane"
      "probe_adc source ch s = (Inr (int i), s')" "circuit_ok s'"
      "s' = s\<lparr>ci_next_probe_index := ci_next_probe_index s + 1,
              ci_adc_config := (ci_adc_config s)[i := Some \<lparr>ch_index = lane, ch_gain = 1, ch_offset = 0,
                ch_probe = Some (ci_next_probe_index s)\<rparr>]\<rparr>"
proof -
  have len: "length (ci_adc_config s) = 8"
    using ok by (simp add: circuit_ok_def sizes_ok_def)
  let ?ch = "\<lambda>lane. \<lparr>ch_index = lane, ch_gain = 1, ch_offset = 0, ch_probe = Some (ci_next_probe_index s)\<rparr>"
  let ?s = "\<lambda>i lane. s\<lparr>ci_next_probe_index := ci_next_probe_index s + 1,
      ci_adc_config := (ci_adc_config s)[i := Some (?ch lane)]\<rparr>"
  have good: "circuit_ok (?s i lane)" if i: "i < 8" "ci_adc_config s ! i = None" for i lane
  proof -
    have m: "mset (List.map_filter id (ci_adc_config (?s i lane))) =
        add_mset (?ch lane) (mset (List.map_filter id (ci_adc_config s)))"
      using i len by (simp add: map_filter_id_update)
    have "probes_ok (?s i lane)"
      using ok probes_add [OF m, of "ci_next_probe_index s"]
      by (auto simp: circuit_ok_def probes_ok_def nat_add_distrib atLeast0_lessThan_Suc
          dest!: subsetD [OF set_update_subset_insert])
    then show ?thesis
      using ok by (simp add: circuit_ok_def sizes_ok_def lanes_ok_def lane_available_def warnings_ok_def warned_def)
  qed
  have at: "(\<exists>e. probe_adc source (Some c) s = (Inl e, s)) \<or>
      (\<exists>i lane. i < 8 \<and> ci_adc_config s ! i = None \<and> source_output_lane source = Some lane \<and>
         probe_adc source (Some c) s = (Inr (int i), ?s i lane))" for c
  proof (cases "0 \<le> c \<and> c \<le> 7 \<and> ci_adc_config s ! nat c = None \<and> source_output_lane source \<noteq> None")
    case False
    with len show ?thesis
      by (auto simp: probe_adc_def pym_defs py_get_cases split: option.splits)
  next
    case True
    then obtain lane where "source_output_lane source = Some lane"
      by auto
    with True len show ?thesis
      by (intro disjI2 exI [of _ "nat c"] exI [of _ lane]) (simp add: probe_adc_def pym_defs Let_def nat_less_iff)
  qed
  have greedy: "probe_adc source None s =
      (case first_index Not (map (\<lambda>ch. ch \<noteq> None) (ci_adc_config s)) of
         None \<Rightarrow> (Inl ValueError, s) | Some i \<Rightarrow> probe_adc source (Some (int i)) s)"
    by (simp add: probe_adc_def next_free_first_index sbind_def get_st_def ret_def raise_def split: option.splits)
  have "(\<exists>e. probe_adc source ch s = (Inl e, s)) \<or>
      (\<exists>i lane. i < 8 \<and> ci_adc_config s ! i = None \<and> source_output_lane source = Some lane \<and>
         probe_adc source ch s = (Inr (int i), ?s i lane))"
    using at by (cases ch) (auto simp: greedy split: option.splits)
  then show ?thesis
    using that good by blast
qed

lemma circ_probe_ok:
  assumes "circuit_ok s"
  shows "circuit_ok (snd (circ_probe source ch s)) \<and>
    ci_id (snd (circ_probe source ch s)) = ci_id s \<and>
    ci_acl_in_used (snd (circ_probe source ch s)) = ci_acl_in_used s \<and>
    ci_acl_out_used (snd (circ_probe source ch s)) = ci_acl_out_used s"
proof -
  have eq: "circ_probe source ch s = (if circuit_id_of source = Some (ci_id s) then probe_adc source ch s else (Inl ValueError, s))"
    by (auto simp: circ_probe_def pym_defs)
  show ?thesis
    by (rule probe_adc_cases [OF assms, of source ch]) (simp_all add: eq assms)
qed


section \<open>Building a circuit\<close>

definition handed_out :: "element res \<Rightarrow> element set" where
  "handed_out r = (case r of Inl _ \<Rightarrow> {} | Inr e \<Rightarrow> {e})"

text \<open>
  \<open>builds s E\<close>: \<open>s\<close> is the state after some calls on a fresh circuit, \<open>E\<close> the elements they returned.
  Elements passed to \<open>connect\<close> and \<open>probe\<close> come from the circuit; a port, when given, is not negative.
  A call that raises is a step too.
\<close>

inductive builds :: "circuit \<Rightarrow> element set \<Rightarrow> bool" where
  start: "new_circuit uuid mac = Inr s \<Longrightarrow> builds s {}"
| integrator: "builds s E \<Longrightarrow> circ_int ic0 slow s = (r, s') \<Longrightarrow> builds s' (handed_out r \<union> E)"
| multiplier: "builds s E \<Longrightarrow> circ_mul s = (r, s') \<Longrightarrow> builds s' (handed_out r \<union> E)"
| const_giver: "builds s E \<Longrightarrow> circ_const v s = (r, s') \<Longrightarrow> builds s' (handed_out r \<union> E)"
| acl_in: "builds s E \<Longrightarrow> port_arg_ok port \<Longrightarrow> circ_input port s = (r, s') \<Longrightarrow> builds s' (handed_out r \<union> E)"
| acl_out: "builds s E \<Longrightarrow> port_arg_ok port \<Longrightarrow> circ_output port s = (r, s') \<Longrightarrow> builds s' (handed_out r \<union> E)"
| mul_inputs: "builds s E \<Longrightarrow> Multiplier i lane c \<in> E \<Longrightarrow> builds s ({mul_a i c, mul_b i c} \<union> E)"
| identity: "builds s E \<Longrightarrow> MulInput m i c \<in> E \<Longrightarrow> builds s (handed_out (mul_input_id m i c) \<union> E)"
| connect: "builds s E \<Longrightarrow> source \<in> E \<Longrightarrow> target \<in> E \<Longrightarrow> circ_connect source target weight s = (r', s') \<Longrightarrow> builds s' E"
| probe: "builds s E \<Longrightarrow> source \<in> E \<Longrightarrow> circ_probe source ch s = (r'', s') \<Longrightarrow> builds s' E"
| leds: "builds s E \<Longrightarrow> builds (set_leds l s) E"

lemma element_ok_mono:
  assumes "element_ok s e" and "ci_id s' = ci_id s"
    and "\<And>p. p < 8 \<Longrightarrow> ci_acl_in_used s ! p \<Longrightarrow> ci_acl_in_used s' ! p"
    and "\<And>p. p < 8 \<Longrightarrow> ci_acl_out_used s ! p \<Longrightarrow> ci_acl_out_used s' ! p"
  shows "element_ok s' e"
  using assms by (cases e) (auto simp: nat_less_iff)

definition elements_ok :: "circuit \<Rightarrow> element set \<Rightarrow> bool" where
  "elements_ok s E \<longleftrightarrow> (\<forall>e\<in>E. element_ok s e)"

lemma elements_ok_mono:
  "elements_ok s E \<Longrightarrow> ci_id s' = ci_id s \<Longrightarrow>
     (\<And>p. p < 8 \<Longrightarrow> ci_acl_in_used s ! p \<Longrightarrow> ci_acl_in_used s' ! p) \<Longrightarrow>
     (\<And>p. p < 8 \<Longrightarrow> ci_acl_out_used s ! p \<Longrightarrow> ci_acl_out_used s' ! p) \<Longrightarrow> elements_ok s' E"
  unfolding elements_ok_def by (blast intro: element_ok_mono)

lemma circ_int_handed:
  assumes "circuit_ok s" and "elements_ok s E" and "circ_int ic0 slow s = (r, s')"
  shows "elements_ok s' (handed_out r \<union> E)"
proof (cases "first_index Not (ci_integrators_used s)")
  case None
  with assms show ?thesis
    by (auto simp: circ_int_def next_free_first_index pym_defs handed_out_def)
next
  case (Some i)
  have sz: "sizes_ok s"
    using assms(1) by (simp add: circuit_ok_def)
  have "i < 8"
    using first_index_SomeD [OF Some] sz by (simp add: sizes_ok_def)
  moreover obtain c where "circ_int ic0 slow s = (Inr (Integrator (int i) (int i) (Some (ci_id s))),
       s\<lparr>ci_integrators_used := (ci_integrators_used s)[i := True], ci_cluster := c\<rparr>)"
    by (rule circ_int_free [OF sz Some])
  ultimately show ?thesis
    using assms(2,3) elements_ok_mono [OF assms(2), of s'] by (auto simp: handed_out_def elements_ok_def)
qed

lemma circ_mul_handed:
  assumes "circuit_ok s" and "elements_ok s E" and "circ_mul s = (r, s')"
  shows "elements_ok s' (handed_out r \<union> E)"
proof (cases "first_index Not (ci_multipliers_used s)")
  case None
  with assms show ?thesis
    by (auto simp: circ_mul_def next_free_first_index pym_defs handed_out_def)
next
  case (Some i)
  have "i < 4"
    using first_index_SomeD [OF Some] assms(1) by (simp add: circuit_ok_def sizes_ok_def)
  with Some assms(3) elements_ok_mono [OF assms(2), of s'] show ?thesis
    by (auto simp: circ_mul_def next_free_first_index pym_defs handed_out_def elements_ok_def)
qed

lemma circ_const_handed:
  assumes "circuit_ok s" and "elements_ok s E" and "circ_const v s = (r, s')"
  shows "elements_ok s' (handed_out r \<union> E)"
proof (cases "ci_constants_allocated s \<ge> 2")
  case True
  with assms show ?thesis
    by (auto simp: circ_const_def pym_defs handed_out_def)
next
  case False
  with assms(3) elements_ok_mono [OF assms(2), of s'] show ?thesis
    by (auto simp: circ_const_free handed_out_def elements_ok_def after_const_def Let_def)
qed

lemma nth_update_True: "xs ! p \<Longrightarrow> xs[q := True] ! p"
  by (metis nth_list_update_eq nth_list_update_neq list_update_beyond not_le)

lemma circ_input_handed:
  assumes "circuit_ok s" and "elements_ok s E" and "port_arg_ok port" and "circ_input port s = (r, s')"
  shows "circuit_ok s' \<and> elements_ok s' (handed_out r \<union> E)"
proof (rule circ_input_cases [OF assms(1,3)])
  fix e
  assume "circ_input port s = (Inl e, s)"
  with assms show ?thesis by (auto simp: handed_out_def)
next
  fix p s1
  assume *: "p < 8" "circ_input port s = (Inr (Input (int p) (24 + int p) (Some (ci_id s))), s1)" "circuit_ok s1"
    "s1 = s\<lparr>ci_acl_in_used := (ci_acl_in_used s)[p := True], ci_acl_select := (ci_acl_select s)[p := ''EXTERNAL'']\<rparr>"
  then have "elements_ok s1 E"
    by (intro elements_ok_mono [OF assms(2)]) (simp_all add: nth_update_True)
  moreover have "length (ci_acl_in_used s) = 8"
    using assms(1) by (simp add: circuit_ok_def sizes_ok_def)
  ultimately show ?thesis
    using * assms(4) by (auto simp: handed_out_def elements_ok_def)
qed

lemma circ_output_handed:
  assumes "circuit_ok s" and "elements_ok s E" and "port_arg_ok port" and "circ_output port s = (r, s')"
  shows "circuit_ok s' \<and> elements_ok s' (handed_out r \<union> E)"
proof (rule circ_output_cases [OF assms(1,3)])
  fix e
  assume "circ_output port s = (Inl e, s)"
  with assms show ?thesis by (auto simp: handed_out_def)
next
  fix p s1
  assume *: "p < 8" "circ_output port s = (Inr (Output (int p) (24 + int p) (Some (ci_id s))), s1)" "circuit_ok s1"
    "s1 = s\<lparr>ci_acl_out_used := (ci_acl_out_used s)[p := True], ci_acl_select := (ci_acl_select s)[p := ''EXTERNAL'']\<rparr>"
  then have "elements_ok s1 E"
    by (intro elements_ok_mono [OF assms(2)]) (simp_all add: nth_update_True)
  moreover have "length (ci_acl_out_used s) = 8"
    using assms(1) by (simp add: circuit_ok_def sizes_ok_def)
  ultimately show ?thesis
    using * assms(4) by (auto simp: handed_out_def elements_ok_def)
qed

lemma circ_connect_handed:
  assumes "circuit_ok s" and "elements_ok s E" and "source \<in> E" and "target \<in> E"
    and "circ_connect source target weight s = (r, s')"
  shows "circuit_ok s' \<and> elements_ok s' E"
proof -
  have "element_ok s source" "element_ok s target"
    using assms(2-4) by (auto simp: elements_ok_def)
  then show ?thesis
  proof (rule circ_connect_cases [OF assms(1), where weight = weight])
    fix e s1
    assume "circ_connect source target weight s = (Inl e, s1)" "circuit_ok s1" "s1 = s \<or> s1 = identity_noted source s"
    then show ?thesis
      using assms(5) elements_ok_mono [OF assms(2), of s1] by auto
  next
    fix s1
    assume "circ_connect source target weight s = (Inr (), s1)" "circuit_ok s1"
      "ci_id s1 = ci_id s" "ci_acl_in_used s1 = ci_acl_in_used s" "ci_acl_out_used s1 = ci_acl_out_used s"
    then show ?thesis
      using assms(5) elements_ok_mono [OF assms(2), of s1] by simp
  qed
qed

lemma builds_ok: "builds s E \<Longrightarrow> circuit_ok s \<and> elements_ok s E"
proof (induction rule: builds.induct)
  case (start uuid mac s)
  then show ?case by (simp add: new_circuit_ok elements_ok_def)
next
  case (integrator s E ic0 slow r s')
  then show ?case using circ_int_ok [of s ic0 slow] circ_int_handed by auto
next
  case (multiplier s E r s')
  then show ?case using circ_mul_ok [of s] circ_mul_handed by auto
next
  case (const_giver s E v r s')
  then show ?case using circ_const_ok [of s v] circ_const_handed by auto
next
  case (acl_in s E port r s')
  then show ?case using circ_input_handed by blast
next
  case (acl_out s E port r s')
  then show ?case using circ_output_handed by blast
next
  case (mul_inputs s E i lane c)
  then have "element_ok s (Multiplier i lane c)"
    by (auto simp: elements_ok_def)
  with mul_inputs.IH show ?case by (auto simp: elements_ok_def mul_a_def mul_b_def)
next
  case (identity s E m i c)
  then have "element_ok s (MulInput m i c)"
    by (auto simp: elements_ok_def)
  with identity.IH show ?case
    by (auto simp: elements_ok_def mul_input_id_def handed_out_def rassert_def)
next
  case (connect s E source target weight r' s')
  then show ?case using circ_connect_handed by blast
next
  case (probe s E source ch r'' s')
  then show ?case
    using circ_probe_ok [of s source ch] elements_ok_mono [of s E s'] by auto
next
  case (leds s E l)
  then show ?case
    using elements_ok_mono [of s E "set_leds l s"]
    by (simp add: set_leds_def circuit_ok_defs lane_available_def warned_def)
qed


section \<open>What the builder guarantees\<close>

lemma filter_taken_sources:
  "filter (\<lambda>l. source_for_lane e (int l) = source_for_lane e (int l)) ls = ls"
  "(\<And>l. f l \<noteq> source_for_lane e (int l)) \<Longrightarrow> filter (\<lambda>l. f l = source_for_lane e (int l)) ls = []"
  by (auto simp: filter_empty_conv)

lemma after_connect_gain:
  assumes ok: "circuit_ok s" and t: "tgt < 16" "t < 16" and n: "n_lanes_for weight \<le> length (available_lanes s)"
  shows "source_gain (ci_cluster (after_connect source tgt weight s)) (\<lambda>l. source_for_lane source (int l)) t =
      source_gain (ci_cluster s) (\<lambda>l. source_for_lane source (int l)) t + (if t = tgt then weight else 0)"
    and "(\<And>l. f l \<noteq> source_for_lane source (int l)) \<Longrightarrow>
      source_gain (ci_cluster (after_connect source tgt weight s)) f t = source_gain (ci_cluster s) f t"
proof -
  have la: "lanes_ok s" and wf: "wf_cluster (ci_cluster s)"
    using ok by (simp_all add: circuit_ok_def sizes_ok_def)
  note g = source_gain_wire_lanes [OF wf taken_lanes(1,2) [OF la] t, of "\<lambda>l. source_for_lane source (int l)"
      "n_lanes_for weight" "weight / of_nat (n_lanes_for weight)"]
  show "source_gain (ci_cluster (after_connect source tgt weight s)) (\<lambda>l. source_for_lane source (int l)) t =
      source_gain (ci_cluster s) (\<lambda>l. source_for_lane source (int l)) t + (if t = tgt then weight else 0)"
    using n by (simp add: after_connect_def Let_def g)
  show "source_gain (ci_cluster (after_connect source tgt weight s)) f t = source_gain (ci_cluster s) f t"
    if "\<And>l. f l \<noteq> source_for_lane source (int l)"
    using filter_taken_sources(2) [OF that] by (simp add: after_connect_def Let_def g)
qed

lemma available_after_connect:
  assumes "circuit_ok s"
  shows "length (available_lanes (after_connect source tgt weight s)) = length (available_lanes s) - n_lanes_for weight"
proof -
  have sz: "sizes_ok s"
    using assms by (simp add: circuit_ok_def)
  let ?ls = "take (n_lanes_for weight) (available_lanes s)"
  have "set (available_lanes (after_connect source tgt weight s)) = set (available_lanes s) - set ?ls"
    using lane_available_after_connect [OF sz] by (auto simp: available_lanes_props)
  then have "length (available_lanes (after_connect source tgt weight s)) = card (set (available_lanes s) - set ?ls)"
    by (metis available_lanes_props(1) distinct_card)
  also have "\<dots> = card (set (drop (n_lanes_for weight) (available_lanes s)))"
  proof -
    let ?ds = "drop (n_lanes_for weight) (available_lanes s)"
    have "distinct (?ls @ ?ds)"
      by (simp add: available_lanes_props)
    then have disj: "set ?ls \<inter> set ?ds = {}"
      by (simp only: distinct_append)
    have "set (available_lanes s) = set ?ls \<union> set ?ds"
      by (metis append_take_drop_id set_append)
    with disj have "set (available_lanes s) - set ?ls = set ?ds"
      by blast
    then show ?thesis by simp
  qed
  also have "\<dots> = length (available_lanes s) - n_lanes_for weight"
    using distinct_card [of "drop (n_lanes_for weight) (available_lanes s)"] available_lanes_props(1) by simp
  finally show ?thesis .
qed

subsection \<open>A small circuit\<close>

definition demo0 :: circuit where
  "demo0 = projr (new_circuit 7 ''AA-BB'')"

definition demo1 :: circuit where
  "demo1 = snd (circ_int 0 False demo0)"

lemma demo0_new: "new_circuit 7 ''AA-BB'' = Inr demo0"
proof -
  have "\<not> isl (new_circuit 7 ''AA-BB'')"
    by code_simp
  then show ?thesis
    by (simp add: demo0_def)
qed

lemma demo1_builds: "builds demo1 {Integrator 0 0 (Some 7)}"
proof -
  have "fst (circ_int 0 False demo0) = Inr (Integrator 0 0 (Some 7))"
    by code_simp
  then have "circ_int 0 False demo0 = (Inr (Integrator 0 0 (Some 7)), demo1)"
    by (simp add: demo1_def prod_eq_iff)
  from builds.integrator [OF builds.start [OF demo0_new] this] show ?thesis
    by (simp add: handed_out_def)
qed

lemma demo1_lanes: "length (available_lanes demo1) = 32" "n_lanes_for 20 = 3" "n_lanes_for 300 = 38"
  by code_simp+

text \<open>
  C1. \<open>connect\<close> implements its specification on the weight matrix. For elements of a circuit under
  construction, a source that is not an ACL input and a target that is not an ACL output: if enough
  lanes are available it returns, the weight from the source to the target input grows by exactly
  the requested weight (summed over all lanes used, with up-scaling), the weight from the source to
  every other input and from every other signal to every input stays as it was, and exactly
  max 1 (ceil (|weight| / 8)) lanes are consumed. Otherwise it raises ValueError and the circuit stays
  as it was, but for one entry: where the source is one of the two identities that a constant giver
  can shadow, its use is noted (and warned about if there is a constant giver) before the lanes are counted.
\<close>

theorem connect_refines:
  assumes "builds s E" and "source \<in> E" and "target \<in> E"
    and "standard_source source" and "standard_target target" and "target_m_input target = Some (int tgt)"
  shows "if n_lanes_for weight \<le> length (available_lanes s)
    then \<exists>s'. circ_connect source target weight s = (Inr (), s') \<and>
      length (available_lanes s') = length (available_lanes s) - n_lanes_for weight \<and>
      (\<forall>t<16. source_gain (ci_cluster s') (\<lambda>l. source_for_lane source (int l)) t =
        source_gain (ci_cluster s) (\<lambda>l. source_for_lane source (int l)) t + (if t = tgt then weight else 0)) \<and>
      (\<forall>f. (\<forall>l. f l \<noteq> source_for_lane source (int l)) \<longrightarrow>
        (\<forall>t<16. source_gain (ci_cluster s') f t = source_gain (ci_cluster s) f t))
    else circ_connect source target weight s = (Inl ValueError, identity_noted source s)"
proof -
  have ok: "circuit_ok s" and el: "element_ok s source" "element_ok s target"
    using builds_ok [OF assms(1)] assms(2,3) by (auto simp: elements_ok_def)
  have t: "tgt < 16"
    using standard_target_input [OF el(2) assms(5)] assms(6) by force
  let ?s1 = "identity_noted source s"
  note ok1 = identity_noted_ok [OF ok, of source]
  note c = circ_connect_standard [OF el assms(4-6), of weight] connect_standard_eq [OF ok1 t, of source weight]
  show ?thesis
  proof (cases "n_lanes_for weight \<le> length (available_lanes s)")
    case True
    then have "circ_connect source target weight s = (Inr (), after_connect source tgt weight ?s1)"
      by (simp add: c)
    then show ?thesis
      using True available_after_connect [OF ok1, of source tgt weight]
        after_connect_gain [OF ok1 t, where weight = weight and source = source] by simp
  next
    case False
    then show ?thesis
      by (simp add: c)
  qed
qed

theorem connect_refines_witness:
  "\<exists>s'. circ_connect (Integrator 0 0 (Some 7)) (Integrator 0 0 (Some 7)) 20 demo1 = (Inr (), s') \<and>
     length (available_lanes s') = 29 \<and>
     source_gain (ci_cluster s') (\<lambda>_. 0) 0 = source_gain (ci_cluster demo1) (\<lambda>_. 0) 0 + 20"
proof -
  have f: "(\<lambda>l. source_for_lane (Integrator 0 0 (Some 7)) (int l)) = (\<lambda>_. 0)"
    by (simp add: source_for_lane_def fun_eq_iff)
  show ?thesis
    using connect_refines [OF demo1_builds, of "Integrator 0 0 (Some 7)" "Integrator 0 0 (Some 7)" 0 20]
    by (auto simp: standard_source_def standard_target_def demo1_lanes f)
qed

text \<open>
  Validate then commit: whatever elements of the circuit are connected with whatever weight,
  a call of \<open>connect\<close> that raises leaves every block, lane and port exactly as it was.
\<close>

theorem connect_atomic:
  assumes "builds s E" and "source \<in> E" and "target \<in> E"
    and "circ_connect source target weight s = (Inl e, s')"
  shows "ci_cluster s' = ci_cluster s \<and> ci_general_lanes_used s' = ci_general_lanes_used s \<and>
    ci_acl_in_used s' = ci_acl_in_used s \<and> ci_acl_out_used s' = ci_acl_out_used s"
proof -
  have "circuit_ok s" "element_ok s source" "element_ok s target"
    using builds_ok [OF assms(1)] assms(2,3) by (auto simp: elements_ok_def)
  then show ?thesis
    by (rule circ_connect_cases [where weight = weight]) (use assms(4) in auto)
qed

theorem connect_atomic_witness:
  "ci_cluster (snd (circ_connect (Integrator 0 0 (Some 7)) (Integrator 0 0 (Some 7)) 300 demo1)) = ci_cluster demo1"
proof -
  have "fst (circ_connect (Integrator 0 0 (Some 7)) (Integrator 0 0 (Some 7)) 300 demo1) = Inl ValueError"
    by code_simp
  then have "circ_connect (Integrator 0 0 (Some 7)) (Integrator 0 0 (Some 7)) 300 demo1 =
      (Inl ValueError, snd (circ_connect (Integrator 0 0 (Some 7)) (Integrator 0 0 (Some 7)) 300 demo1))"
    by (simp add: prod_eq_iff)
  from connect_atomic [OF demo1_builds _ _ this] show ?thesis
    by simp
qed

text \<open>
  C20. Lanes are never shared. In every circuit built through the interface, where ACL ports are not
  negative (see \<open>negative_port\<close>): a lane reserved by an
  ACL port is not used by a general signal and is switched to EXTERNAL, and a lane that the next
  \<open>connect\<close> may take has no source in the U-block, no target in the I-block and no up-scaling.
\<close>

theorem lanes_exclusive:
  assumes "builds s E"
  shows "(\<forall>p<8. ci_acl_in_used s ! p \<or> ci_acl_out_used s ! p \<longrightarrow>
       \<not> ci_general_lanes_used s ! (24 + p) \<and> ci_acl_select s ! p = ''EXTERNAL'') \<and>
     (\<forall>l \<in> set (available_lanes s). lane_free (ci_cluster s) l)"
  using builds_ok [OF assms] by (auto simp: circuit_ok_def lanes_ok_def available_lanes_props)

theorem lanes_exclusive_witness: "31 \<in> set (available_lanes demo1) \<and> lane_free (ci_cluster demo1) 31"
proof -
  have "31 \<in> set (available_lanes demo1)"
    by code_simp
  with lanes_exclusive [OF demo1_builds] show ?thesis
    by blast
qed

text \<open>
  The ADC channels of every circuit built through the interface pass the probe validation of
  the serializer, so that \<open>to_config\<close> never fails there.
\<close>

theorem probes_always_valid:
  assumes "builds s E"
  shows "adc_probe_valid \<lparr>rd_carriers = [circuit_carrier s], rd_next_probe = n, rd_wiring_specs = ws\<rparr>"
proof -
  have ok: "probes_ok s"
    using builds_ok [OF assms] by (simp add: circuit_ok_def)
  let ?ps = "probes (List.map_filter id (ci_adc_config s))"
  have "length ?ps = nat (ci_next_probe_index s)"
    using ok by (metis probes_ok_def length_map length_upt diff_zero size_mset)
  with ok have "contiguous ?ps"
    by (simp add: probes_ok_def contiguous_def)
  moreover have "\<forall>ch \<in> set (List.map_filter id (ci_adc_config s)). ch_probe ch \<noteq> None"
    using ok by (auto simp: probes_ok_def List.map_filter_def)
  ultimately show ?thesis
    by (simp add: adc_probe_valid_def active_channels_def circuit_carrier_def probe_errors_Nil_iff)
qed

theorem probes_always_valid_witness:
  "adc_probe_valid \<lparr>rd_carriers = [circuit_carrier demo1], rd_next_probe = 0, rd_wiring_specs = []\<rparr>"
  by (rule probes_always_valid [OF demo1_builds])

text \<open>
  Shadowing is always reported: when the constant giver is on and an identity output 14 or 15
  has been connected, in whichever order that happened, a warning naming the output was issued.
\<close>

theorem shadowing_reported:
  assumes "builds s E" and "const_truthy (u_constant (cl_u (ci_cluster s)))"
    and "out \<in> ci_identity_outputs_connected s"
  shows "warned s out"
  using builds_ok [OF assms(1)] assms(2,3) by (auto simp: circuit_ok_def warnings_ok_def)

definition demo_m1 :: circuit where "demo_m1 = snd (circ_mul demo1)"
definition demo_m2 :: circuit where "demo_m2 = snd (circ_mul demo_m1)"
definition demo_c :: circuit where "demo_c = snd (circ_const (CFloat 1) demo_m2)"
definition demo_x :: circuit where
  "demo_x = snd (circ_connect (Identity 3 (Some 7)) (Integrator 0 0 (Some 7)) 1 demo_c)"

lemma demo_x_builds: "\<exists>E. builds demo_x E"
proof -
  have 1: "circ_mul demo1 = (Inr (Multiplier 0 8 (Some 7)), demo_m1)"
    unfolding demo_m1_def by (rule prod_eqI) (code_simp, simp)
  have 2: "circ_mul demo_m1 = (Inr (Multiplier 1 9 (Some 7)), demo_m2)"
    unfolding demo_m2_def by (rule prod_eqI) (code_simp, simp)
  have 3: "circ_const (CFloat 1) demo_m2 = (Inr (Constant 0 (Some 7)), demo_c)"
    unfolding demo_c_def by (rule prod_eqI) (code_simp, simp)
  have "builds demo_c ({Constant 0 (Some 7), Multiplier 1 9 (Some 7), Multiplier 0 8 (Some 7), Integrator 0 0 (Some 7)})"
    using builds.const_giver [OF builds.multiplier [OF builds.multiplier [OF demo1_builds 1] 2] 3]
    by (simp add: handed_out_def insert_commute)
  from builds.mul_inputs [OF this, of 1 9 "Some 7"]
  have "builds demo_c ({mul_a 1 (Some 7), mul_b 1 (Some 7), Constant 0 (Some 7), Multiplier 1 9 (Some 7),
      Multiplier 0 8 (Some 7), Integrator 0 0 (Some 7)})"
    by (simp add: insert_commute)
  from builds.identity [OF this, of 1 1 "Some 7"]
  have b: "builds demo_c ({Identity 3 (Some 7), mul_a 1 (Some 7), mul_b 1 (Some 7), Constant 0 (Some 7),
      Multiplier 1 9 (Some 7), Multiplier 0 8 (Some 7), Integrator 0 0 (Some 7)})"
    by (simp add: mul_b_def mul_input_id_def handed_out_def insert_commute)
  have "circ_connect (Identity 3 (Some 7)) (Integrator 0 0 (Some 7)) 1 demo_c =
      (fst (circ_connect (Identity 3 (Some 7)) (Integrator 0 0 (Some 7)) 1 demo_c), demo_x)"
    by (simp add: demo_x_def)
  from builds.connect [OF b _ _ this] show ?thesis
    by auto
qed

theorem shadowing_reported_witness: "warned demo_x 15"
proof -
  obtain E where "builds demo_x E"
    using demo_x_builds by blast
  moreover have "const_truthy (u_constant (cl_u (ci_cluster demo_x)))"
    by code_simp
  moreover have "15 \<in> ci_identity_outputs_connected demo_x"
    by code_simp
  ultimately show ?thesis
    by (rule shadowing_reported)
qed

text \<open>
  C36. A fresh circuit has exactly eight integrators: any n \<le> 8 allocations succeed with n different
  slots, a ninth one raises ValueError.
\<close>

theorem eight_integrators:
  assumes "new_circuit uuid mac = Inr s"
  shows "if n \<le> 8
    then \<exists>es s'. repeat_op (circ_int ic0 slow) n s = (Inr es, s') \<and> length es = n \<and> distinct (map slot_of es)
    else \<exists>s'. repeat_op (circ_int ic0 slow) n s = (Inl ValueError, s')"
proof -
  have "slots_of (ci_integrators_used s) = {}"
    using assms by (auto simp: new_circuit_def rbind_eq_Inr_iff slots_of_def)
  then show ?thesis
    using integrators.repeat_distinct [OF new_circuit_ok [OF assms], of n ic0 slow]
      integrators.repeat_exhausted [OF new_circuit_ok [OF assms], of n ic0 slow] by auto
qed

theorem eight_integrators_witness:
  "(\<exists>es s'. repeat_op (circ_int 0 False) 8 demo0 = (Inr es, s') \<and> length es = 8 \<and> distinct (map slot_of es)) \<and>
   (\<exists>s'. repeat_op (circ_int 0 False) 9 demo0 = (Inl ValueError, s'))"
  using eight_integrators [OF demo0_new, of 8 0 False] eight_integrators [OF demo0_new, of 9 0 False] by simp

text \<open>
  Greedy allocation of an ACL input gives up too early: when a general signal occupies lane 24
  and port 0 is not allocated, \<open>input()\<close> raises ValueError although another port can still be
  allocated by naming it.
\<close>

theorem greedy_input_stuck:
  assumes "builds s E" and "ci_general_lanes_used s ! 24" and "\<not> ci_acl_in_used s ! 0"
    and "p < 8" and "\<not> ci_acl_in_used s ! p" and "\<not> ci_general_lanes_used s ! (24 + p)"
  shows "circ_input None s = (Inl ValueError, s) \<and>
    (\<exists>s'. circ_input (Some (int p)) s = (Inr (Input (int p) (24 + int p) (Some (ci_id s))), s'))"
proof -
  have len: "length (ci_acl_in_used s) = 8" "length (ci_general_lanes_used s) = 32" "length (ci_acl_select s) = 8"
    using builds_ok [OF assms(1)] by (simp_all add: circuit_ok_def sizes_ok_def)
  then have fi: "first_index Not (ci_acl_in_used s) = Some 0"
    using assms(3) by (cases "ci_acl_in_used s") auto
  note chosen = acl_port_chosen [of ci_acl_in_used s "\<lambda>xs s. s\<lparr>ci_acl_in_used := xs\<rparr>" _ Input, OF len]
  have "circ_input None s = (Inl ValueError, s)"
    using chosen [of 0] assms(2) fi
    by (simp add: circ_input_def acl_port_def next_free_first_index sbind_def get_st_def ret_def)
  moreover have "\<exists>s'. circ_input (Some (int p)) s = (Inr (Input (int p) (24 + int p) (Some (ci_id s))), s')"
    using chosen [of p] assms(4-6) len
    by (simp add: circ_input_def acl_port_def sbind_def eval_st_def guard_def ret_def)
  ultimately show ?thesis ..
qed

definition demo_full :: circuit where
  "demo_full = snd (circ_connect (Integrator 0 0 (Some 7)) (Integrator 0 0 (Some 7)) 200 demo1)"

theorem greedy_input_stuck_witness:
  "circ_input None demo_full = (Inl ValueError, demo_full) \<and>
    (\<exists>s'. circ_input (Some (int 7)) demo_full = (Inr (Input (int 7) (24 + int 7) (Some (ci_id demo_full))), s'))"
proof (rule greedy_input_stuck)
  have "circ_connect (Integrator 0 0 (Some 7)) (Integrator 0 0 (Some 7)) 200 demo1 =
      (fst (circ_connect (Integrator 0 0 (Some 7)) (Integrator 0 0 (Some 7)) 200 demo1), demo_full)"
    by (simp add: demo_full_def)
  from builds.connect [OF demo1_builds _ _ this] show "builds demo_full {Integrator 0 0 (Some 7)}"
    by simp
  show "ci_general_lanes_used demo_full ! 24" "\<not> ci_acl_in_used demo_full ! 0" "\<not> ci_acl_in_used demo_full ! 7"
    "\<not> ci_general_lanes_used demo_full ! (24 + 7)"
    by code_simp+
qed simp

text \<open>
  A negative port defeats the reservation of lanes: on a fresh circuit \<open>input(port=-1)\<close> returns an
  input on lane 23, which stays available to general signals.
\<close>

theorem negative_port:
  "case circ_input (Some (- 1)) (projr (new_circuit 7 ''AA-BB'')) of
     (Inr e, s') \<Rightarrow> e = Input (- 1) 23 (Some 7) \<and> 23 \<in> set (available_lanes s')
   | _ \<Rightarrow> False"
  by code_simp

end
