(* ===== verification/Config.thy ===== *)
theory Config
  imports Carrier
begin

text \<open>
  Serialization of configurations (base/hybrid/serializer.py, redac/protocol/serializer.py,
  lucidac/protocol/serializer.py): one message payload per kind, the serializer and deserializer
  of every entity class, the breadth-first traversal and the application of a list of items to a
  computer.

  A message is a value of \<open>payload\<close>; an item without payload (\<open>None\<close>) is one whose oneof was never
  written, which the deserializer skips. The protobuf runtime is the parameter \<open>pb_wire\<close>: what
  assigning an int to a uint32 field does, and the rounding of a float field. \<open>wire_ok\<close> states what is
  documented of them.

  A set of inputs is sent as a repeated field and read back as a set; its order is not modelled.
  A payload for an entity of a class the serializer never emits it for raises \<open>AttributeError\<close>.
\<close>

section \<open>Messages\<close>

record pb_wire =
  pb_uint32 :: "int \<Rightarrow> int res"
  pb_float :: "rat \<Rightarrow> rat"

definition wire_ok :: "pb_wire \<Rightarrow> bool" where
  "wire_ok w \<longleftrightarrow>
     (\<forall>i. 0 \<le> i \<and> i < 2 ^ 32 \<longrightarrow> pb_uint32 w i = Inr i) \<and>
     (\<forall>x y. x \<le> y \<longrightarrow> pb_float w x \<le> pb_float w y) \<and>
     pb_float w 1 = 1 \<and> pb_float w (- 1) = - 1"

definition exact_wire :: pb_wire where
  "exact_wire = \<lparr>pb_uint32 = (\<lambda>i. if 0 \<le> i \<and> i < 2 ^ 32 then Inr i else Inl ValueError), pb_float = (\<lambda>x. x)\<rparr>"

lemma exact_wire_ok: "wire_ok exact_wire"
  by (simp add: wire_ok_def exact_wire_def)

datatype constant_cfg = GROUND | POS_REF | NEG_REF | ANALOG_INPUT

datatype magnitude = ONE | ONE_TENTH

datatype payload =
    PAdc "(int \<times> rat \<times> rat \<times> int) list"
  | PPort "bool list"
  | PFrontPanelIO "front_panel_io_mode list"
  | PCoef "(int \<times> rat) list"
  | PMdr "mdr_op list"
  | PItor "(int \<times> rat \<times> int) list"
  | PLimiter "(int \<times> bool) list"
  | PSum "(int set \<times> int) list" "(int \<times> bool) list"
  | PSelect constant_cfg magnitude "(int \<times> int) list"
  | PSwitch "(int \<times> int) list"
  | PBplSwitch "(int \<times> int) list"
  | PFrontPanel int
  | PSigGen signal_generator
  | PDependency "string list" "((int \<times> int \<times> int) \<times> (int \<times> int \<times> int) \<times> bool) list" int

section \<open>Serializers\<close>

record carrier_cfg =
  cc_adc :: "adc_channel option list"
  cc_acl :: "string list option"
  cc_io :: "front_panel_io_mode list option"

definition lower_char :: "char \<Rightarrow> char" where
  "lower_char c =
     (if 65 \<le> (of_char c :: nat) \<and> (of_char c :: nat) \<le> 90 then char_of ((of_char c :: nat) + 32) else c)"

definition is_external :: "string \<Rightarrow> bool" where
  "is_external s \<longleftrightarrow> map lower_char s = ''external''"

definition ser_channel :: "pb_wire \<Rightarrow> adc_channel \<Rightarrow> (int \<times> rat \<times> rat \<times> int) res" where
  "ser_channel w ch =
     rbind (pb_uint32 w (ch_index ch)) (\<lambda>idx.
     rbind (case ch_probe ch of None \<Rightarrow> Inl TypeError | Some p \<Rightarrow> pb_uint32 w p) (\<lambda>probe.
     Inr (idx, ch_gain ch, ch_offset ch, probe)))"

definition ser_carrier :: "pb_wire \<Rightarrow> carrier_cfg \<Rightarrow> payload option list res" where
  "ser_carrier w c =
     rbind (rmap (ser_channel w) (List.map_filter id (cc_adc c))) (\<lambda>chs.
     Inr ([if chs = [] then None else Some (PAdc chs)] @
          (case cc_acl c of None \<Rightarrow> [] | Some [] \<Rightarrow> [] | Some xs \<Rightarrow> [Some (PPort (map is_external xs))]) @
          (case cc_io c of None \<Rightarrow> [] | Some [] \<Rightarrow> [] | Some ms \<Rightarrow> [Some (PFrontPanelIO ms)])))"

definition ser_c :: "pb_wire \<Rightarrow> cblock \<Rightarrow> payload option list res" where
  "ser_c w b = Inr [Some (PCoef (map (\<lambda>(i, f). (int i, pb_float w f)) (enumerate 0 (c_factors b))))]"

definition ser_mdr :: "mdr_op list \<Rightarrow> payload option list res" where
  "ser_mdr ops = Inr [if ops = [] then None else Some (PMdr ops)]"

definition ser_mint :: "pb_wire \<Rightarrow> mint_block \<Rightarrow> payload option list res" where
  "ser_mint w b =
     rbind (rmap (\<lambda>(i, e). rbind (pb_uint32 w (ig_k e)) (\<lambda>kv. Inr (int i, pb_float w (ig_ic e), kv)))
              (enumerate 0 (mi_elements b))) (\<lambda>els.
     Inr [if els = [] then None else Some (PItor els),
          if mi_limiters b = [] then None else Some (PLimiter (map (\<lambda>(i, v). (int i, v)) (enumerate 0 (mi_limiters b))))])"

definition ser_i :: "pb_wire \<Rightarrow> iblock \<Rightarrow> payload option list res" where
  "ser_i w b =
     rbind (rmap (\<lambda>(i, S). rbind (rassert (\<forall>x\<in>S. \<not> isl (pb_uint32 w x)) ValueError) (\<lambda>_. Inr (S, int i)))
              (filter (\<lambda>(i, S). S \<noteq> {}) (enumerate 0 (i_outputs b)))) (\<lambda>conns.
     Inr [Some (PSum conns (map (\<lambda>(i, v). (int i, v)) (enumerate 0 (i_upscaling b))))])"

fun const_value :: "const_val \<Rightarrow> rat" where
  "const_value (CBool b) = (if b then 1 else 0)"
| "const_value (CFloat x) = x"

definition ser_constant :: "const_val \<Rightarrow> constant_cfg \<times> magnitude" where
  "ser_constant c =
     (if \<not> const_truthy c then (GROUND, ONE)
      else let v = const_value c in
        (if v > 0 then POS_REF else NEG_REF, if v = 1 then ONE else ONE_TENTH))"

definition sparse :: "'a option list \<Rightarrow> (int \<times> 'a) list" where
  "sparse vs = List.map_filter (\<lambda>(i, v). map_option (Pair (int i)) v) (enumerate 0 vs)"

definition ser_u :: "pb_wire \<Rightarrow> ublock \<Rightarrow> payload option list res" where
  "ser_u w b =
     rbind (rmap (\<lambda>(out, inp). rbind (pb_uint32 w inp) (\<lambda>inp. Inr (inp, out))) (sparse (u_outputs b))) (\<lambda>conns.
     Inr (if conns = [] then []
          else [Some (PSelect (fst (ser_constant (u_constant b))) (snd (ser_constant (u_constant b))) conns)]))"

definition ser_t :: "pb_wire \<Rightarrow> tblock \<Rightarrow> payload option list res" where
  "ser_t w b =
     rbind (rmap (\<lambda>(idx, st). rbind (pb_uint32 w st) (\<lambda>st. Inr (st, idx))) (sparse (t_muxes b))) (\<lambda>muxes.
     Inr (if muxes = [] then [] else [Some (PSwitch muxes)]))"

text \<open>
  The test \<open>lane_ins is None\<close> never holds inside the loop over \<open>lane_ins\<close>; an unset multiplexer is
  passed as \<open>None\<close>, which leaves the field at its default 0.
\<close>

definition bpl_entries :: "backplane_tblock \<Rightarrow> (int \<times> int \<times> int option) list" where
  "bpl_entries b =
     concat (map (\<lambda>(out, row). map (\<lambda>(lane, inp).
       (int out, int lane, if inp = Some 8 then Some (int out) else inp)) (enumerate 0 row)) (enumerate 0 (b_sectors b)))"

definition ser_b :: "pb_wire \<Rightarrow> backplane_tblock \<Rightarrow> payload option list res" where
  "ser_b w b =
     rbind (rmap (\<lambda>(out, lane, inp).
              rbind (case inp of None \<Rightarrow> Inr 0 | Some x \<Rightarrow> pb_uint32 w x) (\<lambda>st. Inr (st, 9 * lane + out)))
            (bpl_entries b)) (\<lambda>muxes.
     Inr (if muxes = [] then [] else [Some (PBplSwitch muxes)]))"

definition float_gen :: "pb_wire \<Rightarrow> signal_generator \<Rightarrow> signal_generator" where
  "float_gen w g =
     \<lparr>sg_frequency = pb_float w (sg_frequency g), sg_phase = pb_float w (sg_phase g),
      sg_wave_form = sg_wave_form g, sg_amplitude = pb_float w (sg_amplitude g),
      sg_square_voltage_low = pb_float w (sg_square_voltage_low g),
      sg_square_voltage_high = pb_float w (sg_square_voltage_high g),
      sg_offset = pb_float w (sg_offset g), sg_sleep = sg_sleep g,
      sg_dac_outputs = map (pb_float w) (sg_dac_outputs g)\<rparr>"

definition ser_fp :: "pb_wire \<Rightarrow> front_plane \<Rightarrow> payload option list res" where
  "ser_fp w f =
     rbind (pb_uint32 w (fp_leds f)) (\<lambda>leds.
     Inr [Some (PFrontPanel leds), Some (PSigGen (float_gen w (fp_signal_generator f)))])"

datatype config_entity =
    CarrierE carrier_cfg
  | ClusterE
  | MulE
  | MBlockE
  | MdrE "mdr_op list"
  | IntE mint_block
  | IBlockE iblock
  | UBlockE ublock
  | CBlockE cblock
  | TBlockE tblock
  | BplE backplane_tblock
  | FrontPlaneE front_plane

text \<open>\<open>_serialize_configuration\<close>: dispatch on the class; a class without handler emits nothing.\<close>

fun ser_entity :: "pb_wire \<Rightarrow> config_entity \<Rightarrow> payload option list res" where
  "ser_entity w (CarrierE c) = ser_carrier w c"
| "ser_entity w (MdrE ops) = ser_mdr ops"
| "ser_entity w (IntE b) = ser_mint w b"
| "ser_entity w (IBlockE b) = ser_i w b"
| "ser_entity w (UBlockE b) = ser_u w b"
| "ser_entity w (CBlockE b) = ser_c w b"
| "ser_entity w (TBlockE b) = ser_t w b"
| "ser_entity w (BplE b) = ser_b w b"
| "ser_entity w (FrontPlaneE f) = ser_fp w f"
| "ser_entity w MulE = Inr []"
| "ser_entity w ClusterE = Inr []"
| "ser_entity w MBlockE = Inr []"

section \<open>Deserializers\<close>

definition des_adc :: "(int \<times> rat \<times> rat \<times> int) list \<Rightarrow> carrier_cfg \<Rightarrow> carrier_cfg res" where
  "des_adc chs c = Inr (c\<lparr>cc_adc := map (\<lambda>(idx, gain, off, probe).
     Some \<lparr>ch_index = idx, ch_gain = gain, ch_offset = off, ch_probe = Some probe\<rparr>) chs\<rparr>)"

definition des_port :: "bool list \<Rightarrow> carrier_cfg \<Rightarrow> carrier_cfg res" where
  "des_port states c = Inr (c\<lparr>cc_acl := Some (map (\<lambda>b. if b then ''external'' else ''internal'') states)\<rparr>)"

text \<open>The handler stores the modes in an attribute \<open>io_modes\<close> that no other code reads.\<close>

definition des_io :: "front_panel_io_mode list \<Rightarrow> carrier_cfg \<Rightarrow> carrier_cfg res" where
  "des_io modes c = Inr c"

definition des_coef :: "(int \<times> rat) list \<Rightarrow> cblock \<Rightarrow> cblock res" where
  "des_coef els b = rfold (\<lambda>(i, f) b.
     rbind (py_get (c_factors b) i) (\<lambda>_. rbind (validate_factor f) (\<lambda>_.
     rbind (py_set (c_factors b) i f) (\<lambda>xs. Inr (b\<lparr>c_factors := xs\<rparr>))))) els b"

definition des_itor :: "(int \<times> rat \<times> int) list \<Rightarrow> mint_block \<Rightarrow> mint_block res" where
  "des_itor els b = rfold (\<lambda>(i, ic0, kv) b.
     rbind (py_set (mi_elements b) i \<lparr>ig_ic = ic0, ig_k = kv\<rparr>) (\<lambda>xs. Inr (b\<lparr>mi_elements := xs\<rparr>))) els b"

definition des_limiter :: "(int \<times> bool) list \<Rightarrow> mint_block \<Rightarrow> mint_block res" where
  "des_limiter els b =
     rbind (rfold (\<lambda>(i, v) xs. py_set xs i v) els (replicate (length (mi_limiters b)) False)) (\<lambda>xs.
     Inr (b\<lparr>mi_limiters := xs\<rparr>))"

definition des_mdr :: "mdr_op list \<Rightarrow> mdr_op list \<Rightarrow> mdr_op list res" where
  "des_mdr ops els = rfold (\<lambda>(i, op) xs. py_set xs i op) (map (\<lambda>(i, op). (int i, op)) (enumerate 0 ops)) els"

definition des_sum :: "(int set \<times> int) list \<Rightarrow> (int \<times> bool) list \<Rightarrow> iblock \<Rightarrow> iblock res" where
  "des_sum conns ups b =
     rbind (rfold (\<lambda>(S, out) xs. py_set xs out S) conns (replicate (length (i_outputs b)) {})) (\<lambda>outs.
     rbind (rfold (\<lambda>(i, v) xs. py_set xs i v) ups (replicate (length (i_upscaling b)) False)) (\<lambda>us.
     Inr \<lparr>i_outputs = outs, i_upscaling = us\<rparr>))"

definition des_constant :: "constant_cfg \<Rightarrow> magnitude \<Rightarrow> const_val" where
  "des_constant c m =
     (if c = GROUND then CBool False
      else CFloat ((if c = POS_REF then 1 else - 1) * (if m = ONE then 1 else 1 / 10)))"

definition des_select :: "constant_cfg \<Rightarrow> magnitude \<Rightarrow> (int \<times> int) list \<Rightarrow> ublock \<Rightarrow> ublock res" where
  "des_select c m conns b =
     rbind (rfold (\<lambda>(inp, out) xs. py_set xs out (Some inp)) conns (replicate (length (u_outputs b)) None)) (\<lambda>outs.
     Inr \<lparr>u_outputs = outs, u_constant = des_constant c m\<rparr>)"

text \<open>Multiplexers whose index is 0 throughout are numbered by their position.\<close>

definition numbered :: "(int \<times> int) list \<Rightarrow> (int \<times> int) list" where
  "numbered muxes =
     (if \<forall>(st, idx)\<in>set muxes. idx = 0
      then map (\<lambda>(i, st, _). (st, int i)) (enumerate 0 muxes) else muxes)"

definition des_switch :: "(int \<times> int) list \<Rightarrow> tblock \<Rightarrow> tblock res" where
  "des_switch muxes b =
     rfold (\<lambda>(st, idx) b. rbind (py_set (t_muxes b) idx (Some st)) (\<lambda>xs. Inr (b\<lparr>t_muxes := xs\<rparr>))) (numbered muxes) b"

definition bpl_connect :: "int \<Rightarrow> int \<Rightarrow> backplane_tblock \<Rightarrow> backplane_tblock res" where
  "bpl_connect in_sector idx b =
     (let lane = idx div 9; out_sector = idx mod 9 in
      case b_connect (if out_sector = in_sector then 8 else in_sector) out_sector lane b of
        (Inl e, _) \<Rightarrow> Inl e | (Inr _, b') \<Rightarrow> Inr b')"

definition des_bpl :: "(int \<times> int) list \<Rightarrow> backplane_tblock \<Rightarrow> backplane_tblock res" where
  "des_bpl muxes b = rfold (\<lambda>(st, idx). bpl_connect st idx) (numbered muxes) b"

definition des_payload :: "payload \<Rightarrow> config_entity \<Rightarrow> config_entity res" where
  "des_payload p e =
     (case p of
        PAdc chs \<Rightarrow> (case e of CarrierE c \<Rightarrow> rbind (des_adc chs c) (\<lambda>x. Inr (CarrierE x)) | _ \<Rightarrow> Inl AttributeError)
      | PPort sts \<Rightarrow> (case e of CarrierE c \<Rightarrow> rbind (des_port sts c) (\<lambda>x. Inr (CarrierE x)) | _ \<Rightarrow> Inl AttributeError)
      | PFrontPanelIO ms \<Rightarrow> (case e of CarrierE c \<Rightarrow> rbind (des_io ms c) (\<lambda>x. Inr (CarrierE x)) | _ \<Rightarrow> Inl AttributeError)
      | PCoef els \<Rightarrow> (case e of CBlockE b \<Rightarrow> rbind (des_coef els b) (\<lambda>x. Inr (CBlockE x)) | _ \<Rightarrow> Inl AttributeError)
      | PMdr ops \<Rightarrow> (case e of MdrE els \<Rightarrow> rbind (des_mdr ops els) (\<lambda>x. Inr (MdrE x)) | _ \<Rightarrow> Inl AttributeError)
      | PItor els \<Rightarrow> (case e of IntE b \<Rightarrow> rbind (des_itor els b) (\<lambda>x. Inr (IntE x)) | _ \<Rightarrow> Inl AttributeError)
      | PLimiter els \<Rightarrow> (case e of IntE b \<Rightarrow> rbind (des_limiter els b) (\<lambda>x. Inr (IntE x)) | _ \<Rightarrow> Inl AttributeError)
      | PSum conns ups \<Rightarrow> (case e of IBlockE b \<Rightarrow> rbind (des_sum conns ups b) (\<lambda>x. Inr (IBlockE x)) | _ \<Rightarrow> Inl AttributeError)
      | PSelect c m conns \<Rightarrow> (case e of UBlockE b \<Rightarrow> rbind (des_select c m conns b) (\<lambda>x. Inr (UBlockE x)) | _ \<Rightarrow> Inl AttributeError)
      | PSwitch ms \<Rightarrow> (case e of TBlockE b \<Rightarrow> rbind (des_switch ms b) (\<lambda>x. Inr (TBlockE x)) | _ \<Rightarrow> Inl AttributeError)
      | PBplSwitch ms \<Rightarrow> (case e of BplE b \<Rightarrow> rbind (des_bpl ms b) (\<lambda>x. Inr (BplE x)) | _ \<Rightarrow> Inl AttributeError)
      | PFrontPanel leds \<Rightarrow> (case e of FrontPlaneE f \<Rightarrow> Inr (FrontPlaneE (f\<lparr>fp_leds := leds\<rparr>)) | _ \<Rightarrow> Inl AttributeError)
      | PSigGen g \<Rightarrow> (case e of FrontPlaneE f \<Rightarrow> Inr (FrontPlaneE (f\<lparr>fp_signal_generator := g\<rparr>)) | _ \<Rightarrow> Inl AttributeError)
      | PDependency _ _ _ \<Rightarrow> Inr e)"

text \<open>One item: an item without payload is skipped.\<close>

definition des_item :: "payload option \<Rightarrow> config_entity \<Rightarrow> config_entity res" where
  "des_item p e = (case p of None \<Rightarrow> Inr e | Some q \<Rightarrow> des_payload q e)"


section \<open>Round trips of the blocks\<close>

text \<open>Overwriting a list at the positions where another one has a value.\<close>

definition overlay :: "'a option list \<Rightarrow> 'a list \<Rightarrow> 'a list" where
  "overlay vs xs = map (\<lambda>(v, x). case v of None \<Rightarrow> x | Some y \<Rightarrow> y) (zip vs xs)"

lemma sparse_Nil [simp]: "sparse [] = []"
  by (simp add: sparse_def List.map_filter_def)

lemma sparse_snoc:
  "sparse (vs @ [v]) = sparse vs @ (case v of None \<Rightarrow> [] | Some y \<Rightarrow> [(int (length vs), y)])"
  by (auto simp: sparse_def List.map_filter_def enumerate_append_eq split: option.splits)

lemma sparse_eq_Nil: "sparse vs = [] \<longleftrightarrow> (\<forall>v \<in> set vs. v = None)"
  by (induction vs rule: rev_induct) (auto simp: sparse_snoc split: option.splits)

lemma rfold_sparse_prefix:
  assumes "length vs \<le> length xs"
  shows "rfold (\<lambda>(i, v) xs. py_set xs i (g v)) (sparse vs) xs =
    Inr (overlay (map (map_option g) vs) (take (length vs) xs) @ drop (length vs) xs)"
  using assms
proof (induction vs rule: rev_induct)
  case Nil
  then show ?case by (simp add: sparse_def List.map_filter_def overlay_def)
next
  case (snoc v vs)
  let ?n = "length vs"
  let ?ys = "overlay (map (map_option g) vs) (take ?n xs)"
  have n: "?n < length xs"
    using snoc.prems by simp
  then have split: "take (Suc ?n) xs = take ?n xs @ [xs ! ?n]" "drop ?n xs = xs ! ?n # drop (Suc ?n) xs"
    by (simp_all add: take_Suc_conv_app_nth Cons_nth_drop_Suc)
  have len: "length ?ys = ?n"
    using n by (simp add: overlay_def)
  have IH: "rfold (\<lambda>(i, v) xs. py_set xs i (g v)) (sparse vs) xs = Inr (?ys @ drop ?n xs)"
    using snoc by simp
  show ?case
  proof (cases v)
    case None
    with IH split n show ?thesis
      by (simp add: sparse_snoc) (simp add: overlay_def)
  next
    case (Some y)
    have "py_set (?ys @ drop ?n xs) (int ?n) (g y) = Inr (?ys @ g y # drop (Suc ?n) xs)"
      using n len by (subst py_set_int) (simp_all add: list_update_append split(2))
    with Some IH split n show ?thesis
      by (simp add: sparse_snoc rfold_append) (simp add: overlay_def)
  qed
qed

lemma rfold_sparse:
  "length vs = length xs \<Longrightarrow>
     rfold (\<lambda>(i, v) xs. py_set xs i (g v)) (sparse vs) xs = Inr (overlay (map (map_option g) vs) xs)"
  using rfold_sparse_prefix [of vs xs g] by simp

lemma overlay_Some [simp]: "length vs = length xs \<Longrightarrow> overlay (map Some vs) xs = vs"
  by (induction vs xs rule: list_induct2) (auto simp: overlay_def)

lemma overlay_replicate: "overlay vs (replicate (length vs) d) = map (\<lambda>v. case v of None \<Rightarrow> d | Some y \<Rightarrow> y) vs"
  by (induction vs) (auto simp: overlay_def)

lemma enumerate_sparse: "map (\<lambda>(i, v). (int i, v)) (enumerate 0 vs) = sparse (map Some vs)"
  by (induction vs rule: rev_induct) (auto simp: sparse_snoc enumerate_append_eq)

lemma enumerate_sparse_map: "map (\<lambda>(i, v). (int i, h v)) (enumerate 0 vs) = sparse (map (\<lambda>v. Some (h v)) vs)"
  by (induction vs rule: rev_induct) (auto simp: sparse_snoc enumerate_append_eq)

lemma rfold_dense:
  "length vs = length xs \<Longrightarrow>
     rfold (\<lambda>(i, v) xs. py_set xs i v) (map (\<lambda>(i, v). (int i, v)) (enumerate 0 vs)) xs = Inr vs"
  using rfold_sparse [of "map Some vs" xs "\<lambda>v. v"] by (simp add: enumerate_sparse comp_def)

text \<open>A fold on one field of a record is a fold on the field.\<close>

lemma rfold_field:
  assumes "\<And>a b. a \<in> set as \<Longrightarrow> step a b = rbind (inner a (get b)) (\<lambda>xs. Inr (put xs b))"
    and "\<And>xs b. get (put xs b) = xs" and "\<And>xs ys b. put xs (put ys b) = put xs b"
    and "\<And>b. put (get b) b = b"
  shows "rfold step as b = rbind (rfold inner as (get b)) (\<lambda>xs. Inr (put xs b))"
  using assms(1)
proof (induction as arbitrary: b)
  case Nil
  then show ?case by (simp add: assms(4))
next
  case (Cons a as)
  have "rfold step (a # as) b = rbind (rbind (inner a (get b)) (\<lambda>xs. Inr (put xs b))) (rfold step as)"
    by (simp add: Cons.prems [of a b])
  moreover have "rfold step as c = rbind (rfold inner as (get c)) (\<lambda>xs. Inr (put xs c))" for c
    using Cons.IH Cons.prems by simp
  ultimately show ?case
    by (cases "inner a (get b)") (simp_all add: assms(2,3))
qed


subsection \<open>Per block\<close>

lemma wire_u32: "wire_ok w \<Longrightarrow> 0 \<le> i \<Longrightarrow> i < 2 ^ 32 \<Longrightarrow> pb_uint32 w i = Inr i"
  by (simp add: wire_ok_def)

lemma wire_factor: "wire_ok w \<Longrightarrow> - 1 \<le> x \<Longrightarrow> x \<le> 1 \<Longrightarrow> validate_factor (pb_float w x) = Inr ()"
  unfolding wire_ok_def validate_factor_def by (metis rassert_simps(1))

lemma py_get_set_Inl: "py_get xs i = Inl e \<Longrightarrow> py_set xs i v = Inl e"
  by (auto simp: py_get_def py_set_def split: option.splits)

lemma coef_roundtrip:
  assumes w: "wire_ok w" and f: "\<forall>f \<in> set (c_factors b). - 1 \<le> f \<and> f \<le> 1"
    and l: "length (c_factors b0) = length (c_factors b)"
  shows "des_coef (map (\<lambda>(i, f). (int i, pb_float w f)) (enumerate 0 (c_factors b))) b0 =
    Inr (b0\<lparr>c_factors := map (pb_float w) (c_factors b)\<rparr>)"
proof -
  let ?els = "map (\<lambda>(i, f). (int i, pb_float w f)) (enumerate 0 (c_factors b))"
  have "des_coef ?els b0 = rbind (rfold (\<lambda>(i, f) xs. py_set xs i f) ?els (c_factors b0)) (\<lambda>xs. Inr (b0\<lparr>c_factors := xs\<rparr>))"
    unfolding des_coef_def
  proof (rule rfold_field)
    fix a :: "int \<times> rat" and b' :: cblock
    assume "a \<in> set ?els"
    then have "validate_factor (snd a) = Inr ()"
      using w f by (auto simp: wire_factor in_set_enumerate_eq)
    then show "(case a of (i, f) \<Rightarrow> \<lambda>b. rbind (py_get (c_factors b) i) (\<lambda>_. rbind (validate_factor f) (\<lambda>_.
         rbind (py_set (c_factors b) i f) (\<lambda>xs. Inr (b\<lparr>c_factors := xs\<rparr>))))) b' =
       rbind ((case a of (i, f) \<Rightarrow> \<lambda>xs. py_set xs i f) (c_factors b')) (\<lambda>xs. Inr (b'\<lparr>c_factors := xs\<rparr>))"
      by (cases "py_get (c_factors b') (fst a)") (auto simp: split_def py_get_set_Inl)
  qed simp_all
  also have "rfold (\<lambda>(i, f) xs. py_set xs i f) ?els (c_factors b0) = Inr (map (pb_float w) (c_factors b))"
    using rfold_sparse [of "map (\<lambda>v. Some (pb_float w v)) (c_factors b)" "c_factors b0" "\<lambda>v. v"]
      overlay_Some [of "map (pb_float w) (c_factors b)" "c_factors b0"] l
    by (simp add: enumerate_sparse_map comp_def)
  finally show ?thesis by simp
qed

definition float_itor :: "pb_wire \<Rightarrow> integration \<Rightarrow> integration" where
  "float_itor w e = e\<lparr>ig_ic := pb_float w (ig_ic e)\<rparr>"

lemma itor_roundtrip:
  assumes "length (mi_elements b0) = length els"
  shows "des_itor (map (\<lambda>(i, e). (int i, ig_ic e, ig_k e)) (enumerate 0 els)) b0 = Inr (b0\<lparr>mi_elements := els\<rparr>)"
proof -
  let ?els = "map (\<lambda>(i, e). (int i, ig_ic e, ig_k e)) (enumerate 0 els)"
  let ?mk = "\<lambda>(x, y). \<lparr>ig_ic = x, ig_k = y\<rparr> :: integration"
  have "des_itor ?els b0 = rbind (rfold (\<lambda>(i, v) xs. py_set xs i (?mk v)) ?els (mi_elements b0)) (\<lambda>xs. Inr (b0\<lparr>mi_elements := xs\<rparr>))"
    unfolding des_itor_def by (rule rfold_field) (auto simp: split_def)
  also have "rfold (\<lambda>(i, v) xs. py_set xs i (?mk v)) ?els (mi_elements b0) = Inr els"
  proof -
    have eq: "map (map_option ?mk) (map (\<lambda>e. Some (ig_ic e, ig_k e)) els) = map Some els"
      by simp
    have "rfold (\<lambda>(i, v) xs. py_set xs i (?mk v)) (sparse (map (\<lambda>e. Some (ig_ic e, ig_k e)) els)) (mi_elements b0) =
        Inr (overlay (map (map_option ?mk) (map (\<lambda>e. Some (ig_ic e, ig_k e)) els)) (mi_elements b0))"
      by (rule rfold_sparse) (simp add: assms)
    also have "overlay (map (map_option ?mk) (map (\<lambda>e. Some (ig_ic e, ig_k e)) els)) (mi_elements b0) = els"
      unfolding eq by (rule overlay_Some) (simp add: assms)
    finally show ?thesis
      by (simp only: enumerate_sparse_map)
  qed
  finally show ?thesis by simp
qed

lemma limiter_roundtrip:
  "length (mi_limiters b0) = length ls \<Longrightarrow>
     des_limiter (map (\<lambda>(i, v). (int i, v)) (enumerate 0 ls)) b0 = Inr (b0\<lparr>mi_limiters := ls\<rparr>)"
  by (simp add: des_limiter_def rfold_dense)

lemma mdr_roundtrip: "length els = length ops \<Longrightarrow> des_mdr ops els = Inr ops"
  by (simp add: des_mdr_def rfold_dense)

lemma rfold_map: "rfold f (map h xs) s = rfold (\<lambda>x. f (h x)) xs s"
  by (induction xs arbitrary: s) (auto simp: rbind_def split: sum.splits)

lemma sum_conns_sparse:
  "map (\<lambda>(i, S). (int i, S)) (filter (\<lambda>(i, S). S \<noteq> {}) (enumerate 0 xs)) =
     sparse (map (\<lambda>S. if S = {} then None else Some S) xs)"
  by (induction xs rule: rev_induct) (auto simp: sparse_snoc enumerate_append_eq)

lemma sum_roundtrip:
  assumes "length (i_outputs b0) = length (i_outputs b)" and "length (i_upscaling b0) = length (i_upscaling b)"
  shows "des_sum (map (\<lambda>(i, S). (S, int i)) (filter (\<lambda>(i, S). S \<noteq> {}) (enumerate 0 (i_outputs b))))
      (map (\<lambda>(i, v). (int i, v)) (enumerate 0 (i_upscaling b))) b0 = Inr b"
proof -
  let ?opt = "map (\<lambda>S. if S = {} then None else Some S) (i_outputs b)"
  have "rfold (\<lambda>(S, out) xs. py_set xs out S)
      (map (\<lambda>(i, S). (S, int i)) (filter (\<lambda>(i, S). S \<noteq> {}) (enumerate 0 (i_outputs b)))) xs =
      rfold (\<lambda>(i, v) xs. py_set xs i v) (sparse ?opt) xs" for xs
    by (simp add: sum_conns_sparse [symmetric] rfold_map split_def)
  moreover have "rfold (\<lambda>(i, v) xs. py_set xs i v) (sparse ?opt) (replicate (length (i_outputs b)) {}) =
      Inr (map (\<lambda>v. case v of None \<Rightarrow> {} | Some y \<Rightarrow> y) ?opt)"
    using rfold_sparse [of ?opt "replicate (length (i_outputs b)) {}" "\<lambda>v. v"] overlay_replicate [of ?opt "{}"]
    by (simp add: option.map_ident comp_def)
  moreover have "map (\<lambda>v. case v of None \<Rightarrow> {} | Some y \<Rightarrow> y) ?opt = i_outputs b"
    by (rule nth_equalityI) auto
  ultimately show ?thesis
    using assms by (simp add: des_sum_def rfold_dense)
qed

lemma select_roundtrip:
  assumes "length (u_outputs b0) = length (u_outputs b)"
  shows "des_select c m (map (\<lambda>(out, inp). (inp, out)) (sparse (u_outputs b))) b0 =
    Inr \<lparr>u_outputs = u_outputs b, u_constant = des_constant c m\<rparr>"
proof -
  have "rfold (\<lambda>(inp, out) xs. py_set xs out (Some inp)) (map (\<lambda>(out, inp). (inp, out)) (sparse (u_outputs b))) xs =
      rfold (\<lambda>(i, v) xs. py_set xs i (Some v)) (sparse (u_outputs b)) xs" for xs
    by (simp add: rfold_map split_def)
  moreover have "rfold (\<lambda>(i, v) xs. py_set xs i (Some v)) (sparse (u_outputs b)) (replicate (length (u_outputs b)) None) =
      Inr (map (\<lambda>v. case v of None \<Rightarrow> None | Some y \<Rightarrow> y) (map (map_option Some) (u_outputs b)))"
    using rfold_sparse [of "u_outputs b" "replicate (length (u_outputs b)) None" Some]
      overlay_replicate [of "map (map_option Some) (u_outputs b)" None] by simp
  moreover have "map (\<lambda>v. case v of None \<Rightarrow> None | Some y \<Rightarrow> y) (map (map_option Some) (u_outputs b)) = u_outputs b"
    by (rule nth_equalityI) (auto split: option.splits)
  ultimately show ?thesis
    using assms by (simp add: des_select_def)
qed


lemma sparse_index_bound: "(i, v) \<in> set (sparse vs) \<Longrightarrow> 0 \<le> i \<and> i < int (length vs)"
  by (induction vs rule: rev_induct) (auto simp: sparse_snoc split: option.splits)

lemma distinct_sparse: "distinct (map fst (sparse vs))"
  by (induction vs rule: rev_induct) (auto simp: sparse_snoc dest: sparse_index_bound split: option.splits)

lemma numbered_distinct: "distinct (map snd ms) \<Longrightarrow> numbered ms = ms"
proof (cases "\<forall>(st, idx) \<in> set ms. idx = 0")
  case True
  assume d: "distinct (map snd ms)"
  have "ms = [] \<or> (\<exists>st. ms = [(st, 0)])"
  proof (cases ms)
    case (Cons m ms')
    have "ms' = []"
    proof (rule ccontr)
      assume "ms' \<noteq> []"
      then obtain m' ms'' where "ms' = m' # ms''"
        by (cases ms') auto
      with d True Cons show False by auto
    qed
    with Cons True show ?thesis by auto
  qed simp
  then show ?thesis
    by (auto simp: numbered_def)
next
  case False
  then show ?thesis
    by (auto simp: numbered_def)
qed

lemma switch_roundtrip:
  assumes "length (t_muxes b0) = length (t_muxes b)"
  shows "des_switch (map (\<lambda>(idx, st). (st, idx)) (sparse (t_muxes b))) b0 =
    Inr (b0\<lparr>t_muxes := overlay (map (map_option Some) (t_muxes b)) (t_muxes b0)\<rparr>)"
proof -
  let ?ms = "map (\<lambda>(idx, st). (st, idx)) (sparse (t_muxes b))"
  have "numbered ?ms = ?ms"
    by (rule numbered_distinct) (use distinct_sparse in \<open>auto simp: comp_def split_def\<close>)
  then have "des_switch ?ms b0 =
      rbind (rfold (\<lambda>(st, idx) xs. py_set xs idx (Some st)) ?ms (t_muxes b0)) (\<lambda>xs. Inr (b0\<lparr>t_muxes := xs\<rparr>))"
    unfolding des_switch_def by (subst rfold_field [where get = t_muxes and put = "\<lambda>xs b. b\<lparr>t_muxes := xs\<rparr>"
        and inner = "\<lambda>(st, idx) xs. py_set xs idx (Some st)"]) auto
  also have "rfold (\<lambda>(st, idx) xs. py_set xs idx (Some st)) ?ms (t_muxes b0) =
      rfold (\<lambda>(i, v) xs. py_set xs i (Some v)) (sparse (t_muxes b)) (t_muxes b0)"
    by (simp add: rfold_map split_def)
  also have "\<dots> = Inr (overlay (map (map_option Some) (t_muxes b)) (t_muxes b0))"
    using assms by (intro rfold_sparse) simp
  finally show ?thesis by simp
qed

text \<open>The cells of a matrix, row by row, with their coordinates.\<close>

fun cells :: "nat \<Rightarrow> 'a list list \<Rightarrow> (int \<times> int \<times> 'a) list" where
  "cells n [] = []"
| "cells n (row # rows) = map (\<lambda>(lane, x). (int n, int lane, x)) (enumerate 0 row) @ cells (Suc n) rows"

lemma bpl_entries_cells:
  "bpl_entries b = map (\<lambda>(out, lane, inp). (out, lane, if inp = Some 8 then Some out else inp)) (cells 0 (b_sectors b))"
proof -
  have "concat (map (\<lambda>(out, row). map (\<lambda>(lane, inp). (int out, int lane, if inp = Some 8 then Some (int out) else inp))
      (enumerate 0 row)) (enumerate n rows)) =
    map (\<lambda>(out, lane, inp). (out, lane, if inp = Some 8 then Some out else inp)) (cells n rows)" for n and rows :: "int option list list"
    by (induction rows arbitrary: n) (auto simp: comp_def split_def)
  then show ?thesis
    by (simp add: bpl_entries_def)
qed

lemma cells_iff:
  "(out, lane, x) \<in> set (cells n rows) \<longleftrightarrow>
     (\<exists>i l. i < length rows \<and> l < length (rows ! i) \<and> out = int (n + i) \<and> lane = int l \<and> x = rows ! i ! l)"
proof (induction rows arbitrary: n)
  case (Cons row rows)
  have "(out, lane, x) \<in> set (cells n (row # rows)) \<longleftrightarrow>
      (\<exists>l<length row. out = int n \<and> lane = int l \<and> x = row ! l) \<or> (out, lane, x) \<in> set (cells (Suc n) rows)"
    by (force simp: in_set_enumerate_eq)
  also have "\<dots> \<longleftrightarrow> (\<exists>i l. i < length (row # rows) \<and> l < length ((row # rows) ! i) \<and> out = int (n + i) \<and>
      lane = int l \<and> x = (row # rows) ! i ! l)"
  proof -
    have split: "(\<exists>i. P i) \<longleftrightarrow> P 0 \<or> (\<exists>i. P (Suc i))" for P :: "nat \<Rightarrow> bool"
      by (metis not0_implies_Suc)
    show ?thesis
      unfolding Cons.IH by (subst (2) split) simp
  qed
  finally show ?case .
qed simp


lemma cells_keys_distinct: "distinct (map (\<lambda>(out, lane, x). (out, lane)) (cells n rows))"
proof (induction rows arbitrary: n)
  case (Cons row rows)
  have "distinct (map (\<lambda>(out, lane, x). (out, lane)) (map (\<lambda>(lane, x). (int n, int lane, x)) (enumerate 0 row)))"
  proof -
    have "map (\<lambda>(out, lane, x). (out, lane)) (map (\<lambda>(lane, x). (int n, int lane, x)) (enumerate 0 row)) =
        map (\<lambda>l. (int n, int l)) (map fst (enumerate 0 row))"
      unfolding map_map by (rule map_cong) auto
    then show ?thesis
      by (simp add: distinct_map inj_on_def)
  qed
  moreover have "out \<noteq> int n" if "(out, lane, x) \<in> set (cells (Suc n) rows)" for out lane x
    using that by (auto simp: cells_iff)
  ultimately show ?case
    using Cons.IH [of "Suc n"] by (fastforce simp: split_def)
qed simp

text \<open>A backplane block that can be sent: every multiplexer is set, none to its own sector.\<close>

definition bpl_complete :: "backplane_tblock \<Rightarrow> bool" where
  "bpl_complete b \<longleftrightarrow> b_shape b \<and>
     (\<forall>out<9. \<forall>lane<8. \<exists>x. b_sectors b ! out ! lane = Some x \<and> 0 \<le> x \<and> x < 9 \<and> x \<noteq> int out)"

lemma b_shape_ext:
  assumes "b_shape b" and "b_shape b'" and "\<And>out lane. out < 9 \<Longrightarrow> lane < 8 \<Longrightarrow> b_sectors b ! out ! lane = b_sectors b' ! out ! lane"
  shows "b = b'"
proof -
  have "b_sectors b = b_sectors b'"
    using assms by (intro nth_equalityI) (auto simp: b_shape_def intro!: nth_equalityI)
  then show ?thesis by simp
qed

lemma rfold_b_put:
  assumes "b_shape b" and "\<And>s d l. (s, d, l) \<in> set cs \<Longrightarrow> b_ok s d l"
  shows "rfold (\<lambda>(s, d, l) b. case b_connect s d l b of (Inl e, _) \<Rightarrow> Inl e | (Inr _, b') \<Rightarrow> Inr b') cs b =
     Inr (fold (\<lambda>(s, d, l). b_put s d l) cs b) \<and> b_shape (fold (\<lambda>(s, d, l). b_put s d l) cs b)"
  using assms
proof (induction cs arbitrary: b)
  case (Cons c cs)
  obtain s d l where c: "c = (s, d, l)"
    by (cases c) auto
  with Cons.prems have "b_ok s d l"
    by auto
  with Cons c show ?case
    by (simp add: bmux.connect_ok bmux.shape_put)
qed simp

text \<open>The cell \<open>(out, lane, inp)\<close> as it is sent, and as it is connected on the other side.\<close>

definition cell_wire :: "int \<times> int \<times> int option \<Rightarrow> int \<times> int" where
  "cell_wire = (\<lambda>(out, lane, inp). (if inp = Some 8 then out else the inp, 9 * lane + out))"

definition cell_put :: "int \<times> int \<times> int option \<Rightarrow> int \<times> int \<times> int" where
  "cell_put = (\<lambda>(out, lane, inp). (the inp, out, lane))"

lemma complete_cell:
  assumes "bpl_complete b" and "(out, lane, inp) \<in> set (cells 0 (b_sectors b))"
  shows "\<exists>x. inp = Some x \<and> 0 \<le> x \<and> x < 9 \<and> x \<noteq> out \<and> 0 \<le> out \<and> out < 9 \<and> 0 \<le> lane \<and> lane < 8"
proof -
  have "length (b_sectors b) = 9" "\<And>i. i < 9 \<Longrightarrow> length (b_sectors b ! i) = 8"
    using assms(1) by (auto simp: bpl_complete_def b_shape_def)
  with assms show ?thesis
    by (fastforce simp: cells_iff bpl_complete_def)
qed

lemma bpl_connect_cell:
  assumes "bpl_complete b" and "c \<in> set (cells 0 (b_sectors b))"
  shows "bpl_connect (fst (cell_wire c)) (snd (cell_wire c)) x =
    (case cell_put c of (s, d, l) \<Rightarrow> (case b_connect s d l x of (Inl e, _) \<Rightarrow> Inl e | (Inr _, b') \<Rightarrow> Inr b'))"
proof -
  obtain out lane inp where c: "c = (out, lane, inp)"
    by (cases c) auto
  with assms complete_cell obtain v where "inp = Some v" "0 \<le> v" "v < 9" "v \<noteq> out" "0 \<le> out" "out < 9" "0 \<le> lane"
    by blast
  then show ?thesis
    by (simp add: c bpl_connect_def Let_def cell_wire_def cell_put_def)
qed

lemma cell_wire_distinct:
  assumes "bpl_complete b"
  shows "distinct (map snd (map cell_wire (cells 0 (b_sectors b))))"
proof -
  let ?cs = "cells 0 (b_sectors b)" and ?key = "\<lambda>(out, lane, x). (out, lane)"
  have eq: "map snd (map cell_wire ?cs) = map (\<lambda>(out, lane). 9 * lane + out) (map ?key ?cs)"
    by (simp add: split_def cell_wire_def)
  have "inj_on (\<lambda>(out, lane). 9 * lane + out) (set (map ?key ?cs))"
  proof (rule inj_onI, clarsimp)
    fix a l x c m y
    assume "(a, l, x) \<in> set ?cs" "(c, m, y) \<in> set ?cs" "9 * l + a = 9 * m + c"
    with complete_cell [OF assms] have "0 \<le> a" "a < 9" "0 \<le> c" "c < 9" "9 * l + a = 9 * m + c"
      by blast+
    then show "a = c \<and> l = m"
      by presburger
  qed
  then show ?thesis
    unfolding eq using cells_keys_distinct [of 0 "b_sectors b"] by (simp only: distinct_map)
qed

lemma fold_cell_put:
  assumes b: "bpl_complete b" and b0: "b_shape b0"
  shows "fold (\<lambda>(s, d, l). b_put s d l) (map cell_put (cells 0 (b_sectors b))) b0 = b"
proof (rule b_shape_ext)
  let ?puts = "map cell_put (cells 0 (b_sectors b))"
  have ok: "b_ok s d l" if "(s, d, l) \<in> set ?puts" for s d l
    using that complete_cell [OF b] by (fastforce simp: b_ok_def cell_put_def)
  show sh: "b_shape (fold (\<lambda>(s, d, l). b_put s d l) ?puts b0)" "b_shape b"
    using rfold_b_put [OF b0, of ?puts] ok b by (simp_all add: bpl_complete_def)
  fix out lane :: nat
  assume ol: "out < 9" "lane < 8"
  then obtain x where x: "b_sectors b ! out ! lane = Some x"
    using b by (auto simp: bpl_complete_def)
  have "(int out, int lane, Some x) \<in> set (cells 0 (b_sectors b))"
    using ol x sh(2) by (auto simp: cells_iff b_shape_def)
  then have "(x, int out, int lane) \<in> set ?puts"
    by (force simp: cell_put_def)
  moreover have keys: "map snd ?puts = map (\<lambda>(out, lane, x). (out, lane)) (cells 0 (b_sectors b))"
    by (simp add: split_def cell_put_def)
  have "distinct (map snd ?puts)"
    unfolding keys by (rule cells_keys_distinct)
  ultimately have "b_source (int out) (int lane) (fold (\<lambda>(s, d, l). b_put s d l) ?puts b0) = Inr (Some x)"
    using bmux.source_after_connects [OF b0 ok] by blast
  then show "b_sectors (fold (\<lambda>(s, d, l). b_put s d l) ?puts b0) ! out ! lane = b_sectors b ! out ! lane"
    using b_source_in_range [of "fold (\<lambda>(s, d, l). b_put s d l) ?puts b0" "int out" "int lane"] sh ol x by simp
qed

lemma bpl_roundtrip:
  assumes b: "bpl_complete b" and b0: "b_shape b0" and w: "wire_ok w"
  shows "\<exists>ms. ser_b w b = Inr [Some (PBplSwitch ms)] \<and> des_bpl ms b0 = Inr b"
proof -
  let ?cs = "cells 0 (b_sectors b)"
  have "rmap (\<lambda>(out, lane, inp). rbind (case inp of None \<Rightarrow> Inr 0 | Some x \<Rightarrow> pb_uint32 w x) (\<lambda>st. Inr (st, 9 * lane + out)))
      (bpl_entries b) = Inr (map (\<lambda>(out, lane, inp). (the inp, 9 * lane + out)) (bpl_entries b))"
    by (rule rmap_Inr) (use complete_cell [OF b] w in \<open>fastforce simp: bpl_entries_cells wire_u32 split: if_splits\<close>)
  moreover have "map (\<lambda>(out, lane, inp). (the inp, 9 * lane + out)) (bpl_entries b) = map cell_wire ?cs"
    by (simp add: bpl_entries_cells split_def comp_def cell_wire_def if_distrib cong: if_cong)
  moreover have "?cs \<noteq> []"
  proof -
    have "length (b_sectors b) = 9" "length (b_sectors b ! 0) = 8"
      using b by (auto simp: bpl_complete_def b_shape_def)
    then have "(0, 0, b_sectors b ! 0 ! 0) \<in> set ?cs"
      by (force simp: cells_iff)
    then show ?thesis by auto
  qed
  ultimately have ser: "ser_b w b = Inr [Some (PBplSwitch (map cell_wire ?cs))]"
    by (simp add: ser_b_def)
  have "des_bpl (map cell_wire ?cs) b0 = rfold (\<lambda>c. bpl_connect (fst (cell_wire c)) (snd (cell_wire c))) ?cs b0"
    by (simp only: des_bpl_def numbered_distinct [OF cell_wire_distinct [OF b]] rfold_map) (simp add: split_def)
  also have "\<dots> = rfold (\<lambda>c x. case cell_put c of (s, d, l) \<Rightarrow>
         (case b_connect s d l x of (Inl e, _) \<Rightarrow> Inl e | (Inr _, b') \<Rightarrow> Inr b')) ?cs b0"
    by (rule rfold_cong [OF refl refl]) (rule bpl_connect_cell [OF b])
  also have "\<dots> = rfold (\<lambda>(s, d, l) b. case b_connect s d l b of (Inl e, _) \<Rightarrow> Inl e | (Inr _, b') \<Rightarrow> Inr b') (map cell_put ?cs) b0"
    by (simp add: rfold_map split_def)
  also have "\<dots> = Inr b"
    using rfold_b_put [OF b0, of "map cell_put ?cs"] fold_cell_put [OF b b0] complete_cell [OF b]
    by (fastforce simp: b_ok_def cell_put_def)
  finally show ?thesis
    using ser by blast
qed


section \<open>Entities\<close>

text \<open>What can be sent: factors in range, numbers that fit their fields, constants the message can express.\<close>

definition u32 :: "int \<Rightarrow> bool" where
  "u32 i \<longleftrightarrow> 0 \<le> i \<and> i < 2 ^ 32"

fun sendable :: "config_entity \<Rightarrow> bool" where
  "sendable (CarrierE c) = (\<forall>ch. Some ch \<in> set (cc_adc c) \<longrightarrow> u32 (ch_index ch) \<and> (\<exists>p. ch_probe ch = Some p \<and> u32 p))"
| "sendable (IntE b) = (\<forall>e \<in> set (mi_elements b). u32 (ig_k e))"
| "sendable (IBlockE b) = (\<forall>S \<in> set (i_outputs b). \<forall>x \<in> S. u32 x)"
| "sendable (UBlockE b) = (\<forall>i. Some i \<in> set (u_outputs b) \<longrightarrow> u32 i)"
| "sendable (CBlockE b) = (\<forall>f \<in> set (c_factors b). - 1 \<le> f \<and> f \<le> 1)"
| "sendable (TBlockE b) = (\<forall>i. Some i \<in> set (t_muxes b) \<longrightarrow> u32 i)"
| "sendable (BplE b) = bpl_complete b"
| "sendable (FrontPlaneE f) = u32 (fp_leds f)"
| "sendable _ = True"

text \<open>The receiver has the same board: the same class and the same number of elements.\<close>

definition same_board :: "config_entity \<Rightarrow> config_entity \<Rightarrow> bool" where
  "same_board e0 e =
     (case e of
        CarrierE _ \<Rightarrow> (case e0 of CarrierE _ \<Rightarrow> True | _ \<Rightarrow> False)
      | MdrE b \<Rightarrow> (case e0 of MdrE a \<Rightarrow> length a = length b | _ \<Rightarrow> False)
      | IntE b \<Rightarrow> (case e0 of IntE a \<Rightarrow>
          length (mi_elements a) = length (mi_elements b) \<and> length (mi_limiters a) = length (mi_limiters b) | _ \<Rightarrow> False)
      | IBlockE b \<Rightarrow> (case e0 of IBlockE a \<Rightarrow>
          length (i_outputs a) = length (i_outputs b) \<and> length (i_upscaling a) = length (i_upscaling b) | _ \<Rightarrow> False)
      | UBlockE b \<Rightarrow> (case e0 of UBlockE a \<Rightarrow> length (u_outputs a) = length (u_outputs b) | _ \<Rightarrow> False)
      | CBlockE b \<Rightarrow> (case e0 of CBlockE a \<Rightarrow> length (c_factors a) = length (c_factors b) | _ \<Rightarrow> False)
      | TBlockE b \<Rightarrow> (case e0 of TBlockE a \<Rightarrow> length (t_muxes a) = length (t_muxes b) | _ \<Rightarrow> False)
      | BplE b \<Rightarrow> (case e0 of BplE a \<Rightarrow> b_shape a \<and> b_shape b | _ \<Rightarrow> False)
      | FrontPlaneE _ \<Rightarrow> (case e0 of FrontPlaneE _ \<Rightarrow> True | _ \<Rightarrow> False)
      | _ \<Rightarrow> e0 = e)"

text \<open>
  What the receiver's entity \<open>e0\<close> is after the configuration of \<open>e\<close> has been applied to it.
\<close>

definition received :: "pb_wire \<Rightarrow> config_entity \<Rightarrow> config_entity \<Rightarrow> config_entity" where
  "received w e0 e =
     (case e of
        CarrierE c \<Rightarrow> (case e0 of CarrierE c0 \<Rightarrow>
          CarrierE (c0\<lparr>cc_adc := (if List.map_filter id (cc_adc c) = [] then cc_adc c0 else map Some (List.map_filter id (cc_adc c))),
                      cc_acl := (case cc_acl c of None \<Rightarrow> cc_acl c0 | Some [] \<Rightarrow> cc_acl c0
                        | Some xs \<Rightarrow> Some (map (\<lambda>s. if is_external s then ''external'' else ''internal'') xs))\<rparr>) | _ \<Rightarrow> e)
      | IntE b \<Rightarrow> IntE \<lparr>mi_elements = map (float_itor w) (mi_elements b), mi_limiters = mi_limiters b\<rparr>
      | CBlockE b \<Rightarrow> CBlockE \<lparr>c_factors = map (pb_float w) (c_factors b)\<rparr>
      | UBlockE b \<Rightarrow>
          if sparse (u_outputs b) = [] then e0
          else UBlockE \<lparr>u_outputs = u_outputs b,
                       u_constant = des_constant (fst (ser_constant (u_constant b))) (snd (ser_constant (u_constant b)))\<rparr>
      | TBlockE b \<Rightarrow> (case e0 of TBlockE b0 \<Rightarrow>
          TBlockE (b0\<lparr>t_muxes := overlay (map (map_option Some) (t_muxes b)) (t_muxes b0)\<rparr>) | _ \<Rightarrow> e)
      | FrontPlaneE f \<Rightarrow> FrontPlaneE \<lparr>fp_leds = fp_leds f, fp_signal_generator = float_gen w (fp_signal_generator f)\<rparr>
      | _ \<Rightarrow> e)"

lemma sparse_mem: "(i, v) \<in> set (sparse vs) \<Longrightarrow> Some v \<in> set vs"
  by (induction vs rule: rev_induct) (auto simp: sparse_snoc split: option.splits)

lemma rmap_wire:
  assumes "wire_ok w" and "\<And>i v. (i, v) \<in> set xs \<Longrightarrow> u32 v"
  shows "rmap (\<lambda>(i, v). rbind (pb_uint32 w v) (\<lambda>v. Inr (v, i))) xs = Inr (map (\<lambda>(i, v). (v, i)) xs)"
  by (rule rmap_Inr) (use assms in \<open>auto simp: wire_u32 u32_def\<close>)

lemma overlay_None: "length vs = length xs \<Longrightarrow> (\<forall>v \<in> set vs. v = None) \<Longrightarrow> overlay vs xs = xs"
  by (induction vs xs rule: list_induct2) (auto simp: overlay_def)

lemma roundtrip_u:
  assumes "wire_ok w" and "sendable (UBlockE b)" and "same_board (UBlockE b0) (UBlockE b)"
  shows "\<exists>ps. ser_u w b = Inr ps \<and> rfold des_item ps (UBlockE b0) = Inr (received w (UBlockE b0) (UBlockE b))"
proof -
  let ?cs = "map (\<lambda>(out, inp). (inp, out)) (sparse (u_outputs b))"
  have "rmap (\<lambda>(out, inp). rbind (pb_uint32 w inp) (\<lambda>inp. Inr (inp, out))) (sparse (u_outputs b)) = Inr ?cs"
    using assms by (intro rmap_wire) (auto dest: sparse_mem)
  with assms show ?thesis
    by (simp add: ser_u_def des_item_def des_payload_def select_roundtrip same_board_def received_def)
qed

lemma roundtrip_t:
  assumes "wire_ok w" and "sendable (TBlockE b)" and "same_board (TBlockE b0) (TBlockE b)"
  shows "\<exists>ps. ser_t w b = Inr ps \<and> rfold des_item ps (TBlockE b0) = Inr (received w (TBlockE b0) (TBlockE b))"
proof -
  let ?cs = "map (\<lambda>(idx, st). (st, idx)) (sparse (t_muxes b))"
  have "rmap (\<lambda>(idx, st). rbind (pb_uint32 w st) (\<lambda>st. Inr (st, idx))) (sparse (t_muxes b)) = Inr ?cs"
    using assms by (intro rmap_wire) (auto dest: sparse_mem)
  moreover have "overlay (map (map_option Some) (t_muxes b)) (t_muxes b0) = t_muxes b0" if "sparse (t_muxes b) = []"
    using that assms(3) by (intro overlay_None) (auto simp: sparse_eq_Nil same_board_def)
  ultimately show ?thesis
    using assms by (simp add: ser_t_def des_item_def des_payload_def switch_roundtrip same_board_def received_def)
qed

lemma roundtrip_i:
  assumes "wire_ok w" and "sendable (IBlockE b)" and "same_board (IBlockE b0) (IBlockE b)"
  shows "\<exists>ps. ser_i w b = Inr ps \<and> rfold des_item ps (IBlockE b0) = Inr (received w (IBlockE b0) (IBlockE b))"
proof -
  have "rmap (\<lambda>(i, S). rbind (rassert (\<forall>x\<in>S. \<not> isl (pb_uint32 w x)) ValueError) (\<lambda>_. Inr (S, int i)))
      (filter (\<lambda>(i, S). S \<noteq> {}) (enumerate 0 (i_outputs b))) =
    Inr (map (\<lambda>(i, S). (S, int i)) (filter (\<lambda>(i, S). S \<noteq> {}) (enumerate 0 (i_outputs b))))"
  proof (rule rmap_Inr)
    fix x
    assume "x \<in> set (filter (\<lambda>(i, S). S \<noteq> {}) (enumerate 0 (i_outputs b)))"
    then have "snd x \<in> set (i_outputs b)"
      by (auto simp: in_set_enumerate_eq)
    then have "\<forall>y \<in> snd x. pb_uint32 w y = Inr y"
      using assms(1,2) by (auto simp: wire_u32 u32_def)
    then show "(case x of (i, S) \<Rightarrow> rbind (rassert (\<forall>x\<in>S. \<not> isl (pb_uint32 w x)) ValueError) (\<lambda>_. Inr (S, int i))) =
        Inr (case x of (i, S) \<Rightarrow> (S, int i))"
      by (auto simp: split_def)
  qed
  with assms show ?thesis
    by (simp add: ser_i_def des_item_def des_payload_def sum_roundtrip same_board_def received_def)
qed


lemma roundtrip_int:
  assumes "wire_ok w" and "sendable (IntE b)" and "same_board (IntE b0) (IntE b)"
  shows "\<exists>ps. ser_mint w b = Inr ps \<and> rfold des_item ps (IntE b0) = Inr (received w (IntE b0) (IntE b))"
proof -
  let ?els = "map (float_itor w) (mi_elements b)"
  have "rmap (\<lambda>(i, e). rbind (pb_uint32 w (ig_k e)) (\<lambda>kv. Inr (int i, pb_float w (ig_ic e), kv))) (enumerate 0 (mi_elements b)) =
      Inr (map (\<lambda>(i, e). (int i, pb_float w (ig_ic e), ig_k e)) (enumerate 0 (mi_elements b)))"
    by (rule rmap_Inr) (use assms in \<open>auto simp: wire_u32 u32_def in_set_enumerate_eq\<close>)
  also have "map (\<lambda>(i, e). (int i, pb_float w (ig_ic e), ig_k e)) (enumerate 0 (mi_elements b)) =
      map (\<lambda>(i, e). (int i, ig_ic e, ig_k e)) (enumerate 0 ?els)"
    by (rule nth_equalityI) (simp_all add: nth_enumerate_eq float_itor_def)
  finally have r: "rmap (\<lambda>(i, e). rbind (pb_uint32 w (ig_k e)) (\<lambda>kv. Inr (int i, pb_float w (ig_ic e), kv)))
      (enumerate 0 (mi_elements b)) = Inr (map (\<lambda>(i, e). (int i, ig_ic e, ig_k e)) (enumerate 0 ?els))" .
  have len: "length (mi_elements b0) = length ?els" "length (mi_limiters b0) = length (mi_limiters b)"
    using assms(3) by (simp_all add: same_board_def)
  have itor: "des_item (if enumerate 0 ?els = [] then None else Some (PItor (map (\<lambda>(i, e). (int i, ig_ic e, ig_k e)) (enumerate 0 ?els)))) (IntE b0) =
      Inr (IntE (b0\<lparr>mi_elements := ?els\<rparr>))"
    using itor_roundtrip [OF len(1)] len(1) by (cases "mi_elements b = []") (auto simp: des_item_def des_payload_def enumerate_eq_zip)
  have lim: "des_item (if mi_limiters b = [] then None else Some (PLimiter (map (\<lambda>(i, v). (int i, v)) (enumerate 0 (mi_limiters b)))))
      (IntE (b0\<lparr>mi_elements := ?els\<rparr>)) = Inr (IntE (b0\<lparr>mi_elements := ?els, mi_limiters := mi_limiters b\<rparr>))"
    using limiter_roundtrip [of "b0\<lparr>mi_elements := ?els\<rparr>" "mi_limiters b"] len(2)
    by (cases "mi_limiters b = []") (auto simp: des_item_def des_payload_def)
  show ?thesis
    using itor lim by (simp add: ser_mint_def r received_def)
qed

lemma roundtrip_carrier:
  assumes "wire_ok w" and "sendable (CarrierE c)"
  shows "\<exists>ps. ser_carrier w c = Inr ps \<and> rfold des_item ps (CarrierE c0) = Inr (received w (CarrierE c0) (CarrierE c))"
proof -
  let ?chs = "List.map_filter id (cc_adc c)"
  let ?w = "\<lambda>ch. (ch_index ch, ch_gain ch, ch_offset ch, the (ch_probe ch))"
  have ch: "u32 (ch_index ch) \<and> (\<exists>p. ch_probe ch = Some p \<and> u32 p)" if "ch \<in> set ?chs" for ch
    using assms(2) that by (auto simp: List.map_filter_def)
  then have "rmap (ser_channel w) ?chs = Inr (map ?w ?chs)"
    using assms(1) by (intro rmap_Inr) (fastforce simp: ser_channel_def wire_u32 u32_def)
  moreover have "map ((\<lambda>(idx, gain, off, probe). Some \<lparr>ch_index = idx, ch_gain = gain, ch_offset = off, ch_probe = Some probe\<rparr>) \<circ> ?w) ?chs =
      map Some ?chs"
    by (rule map_cong) (use ch in \<open>fastforce+\<close>)
  ultimately show ?thesis
    by (auto simp: ser_carrier_def des_item_def des_payload_def des_adc_def des_port_def des_io_def received_def comp_def
        split: option.splits list.splits)
qed

lemma entity_roundtrip:
  assumes "wire_ok w" and "sendable e" and "same_board e0 e"
  shows "\<exists>ps. ser_entity w e = Inr ps \<and> rfold des_item ps e0 = Inr (received w e0 e)"
proof (cases e)
  case (CarrierE c)
  with assms obtain c0 where "e0 = CarrierE c0"
    by (cases e0) (auto simp: same_board_def)
  with CarrierE assms roundtrip_carrier show ?thesis by simp
next
  case (MdrE ops)
  with assms obtain a where "e0 = MdrE a" "length a = length ops"
    by (cases e0) (auto simp: same_board_def)
  with MdrE mdr_roundtrip [of a ops] show ?thesis
    by (cases ops) (simp_all add: ser_mdr_def des_item_def des_payload_def received_def)
next
  case (IntE b)
  with assms obtain a where "e0 = IntE a"
    by (cases e0) (auto simp: same_board_def)
  with IntE assms roundtrip_int show ?thesis by simp
next
  case (IBlockE b)
  with assms obtain a where "e0 = IBlockE a"
    by (cases e0) (auto simp: same_board_def)
  with IBlockE assms roundtrip_i show ?thesis by simp
next
  case (UBlockE b)
  with assms obtain a where "e0 = UBlockE a"
    by (cases e0) (auto simp: same_board_def)
  with UBlockE assms roundtrip_u show ?thesis by simp
next
  case (CBlockE b)
  with assms obtain a where a: "e0 = CBlockE a" "length (c_factors a) = length (c_factors b)"
    by (cases e0) (auto simp: same_board_def)
  with CBlockE assms coef_roundtrip [of w b a] show ?thesis
    by (simp add: ser_c_def des_item_def des_payload_def received_def)
next
  case (TBlockE b)
  with assms obtain a where "e0 = TBlockE a"
    by (cases e0) (auto simp: same_board_def)
  with TBlockE assms roundtrip_t show ?thesis by simp
next
  case (BplE b)
  with assms obtain a where "e0 = BplE a" "b_shape a"
    by (cases e0) (auto simp: same_board_def)
  with BplE assms bpl_roundtrip [of b a w] show ?thesis
    by (auto simp: des_item_def des_payload_def received_def)
next
  case (FrontPlaneE f)
  with assms obtain a where "e0 = FrontPlaneE a"
    by (cases e0) (auto simp: same_board_def)
  with FrontPlaneE assms show ?thesis
    by (simp add: ser_fp_def des_item_def des_payload_def received_def wire_u32 u32_def)
qed (use assms in \<open>auto simp: same_board_def received_def\<close>)

end
