(* ===== verification/Routing.thy ===== *)
theory Routing
  imports Carrier
begin

text \<open>
  Routing between clusters through the T-blocks (redac/router.py): \<open>Routing\<close> with its dictionaries of
  blocks, \<open>Router.route\<close>, \<open>Tracer.find_coef\<close>, and \<open>REDAC.route\<close> (redac/computer.py) which puts the
  router between a U/C-block and an I-block.

  The dictionaries and the two dummy blocks are class attributes, hence one store that every router
  and every tracer shares. A block that is not registered is replaced by the dummy, which is
  written and read like any other block.

  The loop of \<open>find_coef\<close> runs with fuel: \<open>None\<close> means that the fuel did not suffice. The number of
  stacks on the way plus two is enough for a signal that \<open>route\<close> has set up.
\<close>

section \<open>The store of T-blocks\<close>

record routing =
  carrier_t_blocks :: "loc \<Rightarrow> tblock option"
  bpl_t_blocks :: "loc \<times> int \<Rightarrow> backplane_tblock option"
  dummy :: tblock
  bpl_dummy :: backplane_tblock

definition new_routing :: routing where
  "new_routing = \<lparr>carrier_t_blocks = (\<lambda>_. None), bpl_t_blocks = (\<lambda>_. None),
                  dummy = new_tblock, bpl_dummy = new_backplane_tblock\<rparr>"

definition lift_res :: "'a res \<Rightarrow> ('s, 'a) pym" where
  "lift_res r = (\<lambda>s. (r, s))"

text \<open>\<open>Entity.loc\<close>: the location, when there is one.\<close>

definition entity_loc :: "loc option \<Rightarrow> loc res" where
  "entity_loc l = (case l of None \<Rightarrow> Inl PlainException | Some l \<Rightarrow> Inr l)"

definition add_t_block :: "loc option \<Rightarrow> tblock \<Rightarrow> (routing, unit) pym" where
  "add_t_block location t_block =
     sbind (lift_res (entity_loc location)) (\<lambda>l.
     if is_carrier l
     then sbind (lift_res (loc_carrier l)) (\<lambda>key.
          modify (\<lambda>r. r\<lparr>carrier_t_blocks := (carrier_t_blocks r)(key := Some t_block)\<rparr>))
     else ret ())"

definition add_t_bpl_block :: "int \<Rightarrow> loc option \<Rightarrow> backplane_tblock \<Rightarrow> (routing, unit) pym" where
  "add_t_bpl_block idx location t_block =
     sbind (lift_res (entity_loc location)) (\<lambda>l.
     sbind (lift_res (loc_stack l)) (\<lambda>key.
     modify (\<lambda>r. r\<lparr>bpl_t_blocks := (bpl_t_blocks r)((key, idx) := Some t_block)\<rparr>)))"

text \<open>
  \<open>add_carrier\<close>. The T-block of a carrier has the carrier's location, a backplane block the
  location of the stack (redac/protocol/serializer.py, \<open>_spec_carrier\<close>).
\<close>

definition add_carrier :: "carrier \<Rightarrow> (routing, unit) pym" where
  "add_carrier c =
     (let stack_loc = map_option (take 1) (cr_location c) in
      sbind (case cr_tblock c of None \<Rightarrow> ret () | Some b \<Rightarrow> add_t_block (cr_location c) b) (\<lambda>_.
      sbind (case cr_st0 c of None \<Rightarrow> ret () | Some b \<Rightarrow> add_t_bpl_block 0 stack_loc b) (\<lambda>_.
      sbind (case cr_st1 c of None \<Rightarrow> ret () | Some b \<Rightarrow> add_t_bpl_block 1 stack_loc b) (\<lambda>_.
      case cr_st2 c of None \<Rightarrow> ret () | Some b \<Rightarrow> add_t_bpl_block 2 stack_loc b))))"

definition find_carrier_t_block :: "routing \<Rightarrow> loc \<Rightarrow> tblock" where
  "find_carrier_t_block r key = (case carrier_t_blocks r key of Some b \<Rightarrow> b | None \<Rightarrow> dummy r)"

definition find_bpl_t_block :: "routing \<Rightarrow> loc \<Rightarrow> int \<Rightarrow> backplane_tblock" where
  "find_bpl_t_block r key idx = (case bpl_t_blocks r (key, idx) of Some b \<Rightarrow> b | None \<Rightarrow> bpl_dummy r)"

text \<open>A method called on the block that the search returns: the block, or the dummy, is changed in place.\<close>

definition on_carrier_t_block :: "loc \<Rightarrow> (tblock, 'a) pym \<Rightarrow> (routing, 'a) pym" where
  "on_carrier_t_block key m = (\<lambda>r.
     case carrier_t_blocks r key of
       Some b \<Rightarrow> (case m b of (x, b') \<Rightarrow> (x, r\<lparr>carrier_t_blocks := (carrier_t_blocks r)(key := Some b')\<rparr>))
     | None \<Rightarrow> (case m (dummy r) of (x, b') \<Rightarrow> (x, r\<lparr>dummy := b'\<rparr>)))"

definition on_bpl_t_block :: "loc \<Rightarrow> int \<Rightarrow> (backplane_tblock, 'a) pym \<Rightarrow> (routing, 'a) pym" where
  "on_bpl_t_block key idx m = (\<lambda>r.
     case bpl_t_blocks r (key, idx) of
       Some b \<Rightarrow> (case m b of (x, b') \<Rightarrow> (x, r\<lparr>bpl_t_blocks := (bpl_t_blocks r)((key, idx) := Some b')\<rparr>))
     | None \<Rightarrow> (case m (bpl_dummy r) of (x, b') \<Rightarrow> (x, r\<lparr>bpl_dummy := b'\<rparr>)))"

section \<open>Router\<close>

definition route_cluster :: "loc \<Rightarrow> loc \<Rightarrow> (routing, unit) pym" where
  "route_cluster src dst =
     sbind (lift_res (loc_carrier src)) (\<lambda>src_c.
     sbind (lift_res (loc_carrier dst)) (\<lambda>dst_c.
     sbind (guard (src_c = dst_c) AssertionError) (\<lambda>_.
     sbind (lift_res (lane_id src)) (\<lambda>sl.
     if sl < 8
     then (if src \<noteq> dst then raise RoutingException else ret ())
     else
       sbind (lift_res (lane_id dst)) (\<lambda>dl.
       sbind (guard (sl - 8 = dl - 8) RoutingException) (\<lambda>_.
       sbind (lift_res (cluster_id src)) (\<lambda>sk.
       sbind (lift_res (cluster_id dst)) (\<lambda>dk.
       on_carrier_t_block dst_c (t_connect (sk + 1) (dk + 1) (dl - 8))))))))))"

definition route_carrier :: "loc \<Rightarrow> loc \<Rightarrow> (routing, unit) pym" where
  "route_carrier src dst =
     sbind (lift_res (lane_id src)) (\<lambda>sl.
     sbind (lift_res (lane_id dst)) (\<lambda>dl.
     sbind (guard (sl = dl) RoutingException) (\<lambda>_.
     sbind (guard (\<not> (0 \<le> sl \<and> sl < 8)) RoutingException) (\<lambda>_.
     sbind (lift_res (loc_carrier dst)) (\<lambda>dst_c.
     sbind (lift_res (cluster_id src)) (\<lambda>sk.
     sbind (lift_res (cluster_id dst)) (\<lambda>dk.
     on_carrier_t_block dst_c (t_connect (sk + 1) (dk + 1) (dl - 8)))))))))"

text \<open>\<open>range(a, b, dir)\<close> for a step of 1 or -1.\<close>

definition py_range :: "int \<Rightarrow> int \<Rightarrow> int \<Rightarrow> int list" where
  "py_range a b dir = (if dir = 1 then [a..b - 1] else rev [b + 1..a])"

definition route_stack :: "loc \<Rightarrow> loc \<Rightarrow> (routing, unit) pym" where
  "route_stack src dst =
     sbind (lift_res (lane_id src)) (\<lambda>sl.
     sbind (lift_res (lane_id dst)) (\<lambda>dl.
     sbind (guard (sl = dl) RoutingException) (\<lambda>_.
     sbind (guard (8 \<le> sl \<and> sl < 32) RoutingException) (\<lambda>_.
     let offset_lane_id = sl - 8; partition = offset_lane_id div 8 in
     sbind (lift_res (loc_carrier src)) (\<lambda>src_c.
     sbind (lift_res (loc_carrier dst)) (\<lambda>dst_c.
     sbind (lift_res (cluster_id src)) (\<lambda>sk.
     sbind (on_carrier_t_block src_c (t_connect (sk + 1) 0 offset_lane_id)) (\<lambda>_.
     sbind (lift_res (cluster_id dst)) (\<lambda>dk.
     sbind (on_carrier_t_block dst_c (t_connect 0 (dk + 1) offset_lane_id)) (\<lambda>_.
     let mod_dst_lane = dl mod 8 in
     sbind (lift_res (loc_stack src)) (\<lambda>src_s.
     sbind (lift_res (loc_stack dst)) (\<lambda>dst_s.
     sbind (lift_res (stack_id src)) (\<lambda>ss.
     sbind (lift_res (stack_id dst)) (\<lambda>ds.
     sbind (lift_res (carrier_id src)) (\<lambda>sc.
     sbind (lift_res (carrier_id dst)) (\<lambda>dc.
     if src_s \<noteq> dst_s
     then
       let exit_sector = (if ss < ds then 7 else 8);
           entry_sector = (if ss < ds then 8 else 7);
           dir = (if ss < ds then 1 else - 1) in
       sbind (on_bpl_t_block src_s partition (b_connect sc exit_sector mod_dst_lane)) (\<lambda>_.
       sbind (for_each (py_range (ss + dir) ds dir) (\<lambda>btw.
                on_bpl_t_block (new_stack btw) partition (b_connect entry_sector exit_sector mod_dst_lane))) (\<lambda>_.
       on_bpl_t_block dst_s partition (b_connect entry_sector dc mod_dst_lane)))
     else on_bpl_t_block src_s partition (b_connect sc dc mod_dst_lane)))))))))))))))))"

definition both_below :: "int res \<Rightarrow> int res \<Rightarrow> int \<Rightarrow> bool res" where
  "both_below x y n = rbind x (\<lambda>a. if a < n then rbind y (\<lambda>b. Inr (b < n)) else Inr False)"

definition route :: "loc \<Rightarrow> loc \<Rightarrow> (routing, unit) pym" where
  "route src dst =
     sbind (lift_res (both_below (carrier_id src) (carrier_id dst) 7)) (\<lambda>ok1.
     sbind (guard ok1 AssertionError) (\<lambda>_.
     sbind (lift_res (both_below (cluster_id src) (cluster_id dst) 3)) (\<lambda>ok2.
     sbind (guard ok2 AssertionError) (\<lambda>_.
     sbind (lift_res (both_below (lane_id dst) (lane_id src) 32)) (\<lambda>ok3.
     sbind (guard ok3 AssertionError) (\<lambda>_.
     sbind (lift_res (loc_cluster src)) (\<lambda>src_k.
     sbind (lift_res (loc_cluster dst)) (\<lambda>dst_k.
     if src_k = dst_k then route_cluster src dst
     else
       sbind (lift_res (loc_carrier src)) (\<lambda>src_c.
       sbind (lift_res (loc_carrier dst)) (\<lambda>dst_c.
       if src_c = dst_c then route_carrier src dst else route_stack src dst))))))))))"

section \<open>Tracer\<close>

datatype walk = NoSource | FromCarrier int int

text \<open>The inner loop: from stack to stack along the backplane until a carrier sector is reached.\<close>

fun bpl_walk :: "nat \<Rightarrow> routing \<Rightarrow> int \<Rightarrow> int \<Rightarrow> int \<Rightarrow> int \<Rightarrow> walk res option" where
  "bpl_walk 0 r stack prev part lane = None"
| "bpl_walk (Suc n) r stack prev part lane =
     (case b_source prev lane (find_bpl_t_block r (new_stack stack) part) of
        Inl e \<Rightarrow> Some (Inl e)
      | Inr None \<Rightarrow> Some (Inr NoSource)
      | Inr (Some q) \<Rightarrow>
          if q = 8 then bpl_walk n r (stack - 1) 7 part lane
          else if q = 7 then bpl_walk n r (stack + 1) 8 part lane
          else Some (Inr (FromCarrier stack q)))"

text \<open>
  The outer loop, at stack \<open>s\<close>, carrier \<open>c\<close>, sector \<open>k\<close> and lane \<open>l\<close>. The lane does not change, so
  \<open>visited\<close> is the list of the other three.
\<close>

fun trace :: "nat \<Rightarrow> nat \<Rightarrow> routing \<Rightarrow> (int \<times> int \<times> int) list \<Rightarrow> int \<Rightarrow> int \<Rightarrow> int \<Rightarrow> int \<Rightarrow> loc option res option" where
  "trace m 0 r visited s c k l = None"
| "trace m (Suc n) r visited s c k l =
     (if l < 8 then Some (Inr (Some [s, c, k, l]))
      else if (s, c, k) \<in> set visited then Some (Inr None)
      else
        (case t_source k (l - 8) (find_carrier_t_block r [s, c]) of
           Inl e \<Rightarrow> Some (Inl e)
         | Inr None \<Rightarrow> Some (Inr None)
         | Inr (Some source) \<Rightarrow>
             if \<not> (0 \<le> source \<and> source < 4) then Some (Inr None)
             else if source \<noteq> 0 then Some (Inr (Some [s, c, source - 1, l]))
             else
               (case bpl_walk m r s c ((l - 8) div 8) ((l - 8) mod 8) of
                  None \<Rightarrow> None
                | Some (Inl e) \<Rightarrow> Some (Inl e)
                | Some (Inr NoSource) \<Rightarrow> Some (Inr None)
                | Some (Inr (FromCarrier s' c')) \<Rightarrow>
                    if 0 \<le> c' \<and> c' \<le> 6 then trace m n r ((s, c, k) # visited) s' c' 0 l
                    else Some (Inl RoutingException))))"

definition find_coef :: "nat \<Rightarrow> routing \<Rightarrow> loc \<Rightarrow> loc option res option" where
  "find_coef fuel r target =
     (case target of
        [s, c, k, l] \<Rightarrow>
          if l < 8 then Some (Inr (Some target)) else trace fuel fuel r [] s c (k + 1) l
      | _ \<Rightarrow> Some (Inl IndexError))"


section \<open>Reading and writing multiplexers in the store\<close>

definition store_ok :: "routing \<Rightarrow> bool" where
  "store_ok r \<longleftrightarrow>
     (\<forall>key b. carrier_t_blocks r key = Some b \<longrightarrow> t_shape b) \<and>
     (\<forall>key b. bpl_t_blocks r key = Some b \<longrightarrow> b_shape b) \<and>
     t_shape (dummy r) \<and> b_shape (bpl_dummy r)"

definition put_t :: "loc \<Rightarrow> int \<Rightarrow> int \<Rightarrow> int \<Rightarrow> routing \<Rightarrow> routing" where
  "put_t key s d l r =
     (case carrier_t_blocks r key of
        Some b \<Rightarrow> r\<lparr>carrier_t_blocks := (carrier_t_blocks r)(key := Some (t_put s d l b))\<rparr>
      | None \<Rightarrow> r\<lparr>dummy := t_put s d l (dummy r)\<rparr>)"

definition put_b :: "int \<Rightarrow> int \<Rightarrow> int \<Rightarrow> int \<Rightarrow> int \<Rightarrow> routing \<Rightarrow> routing" where
  "put_b stack idx s d l r =
     (case bpl_t_blocks r ([stack], idx) of
        Some b \<Rightarrow> r\<lparr>bpl_t_blocks := (bpl_t_blocks r)(([stack], idx) := Some (b_put s d l b))\<rparr>
      | None \<Rightarrow> r\<lparr>bpl_dummy := b_put s d l (bpl_dummy r)\<rparr>)"

definition t_at :: "routing \<Rightarrow> loc \<Rightarrow> int \<Rightarrow> int \<Rightarrow> int option res" where
  "t_at r key d l = t_source d l (find_carrier_t_block r key)"

definition b_at :: "routing \<Rightarrow> int \<Rightarrow> int \<Rightarrow> int \<Rightarrow> int \<Rightarrow> int option res" where
  "b_at r stack idx d l = b_source d l (find_bpl_t_block r [stack] idx)"

lemma store_ok_shapes:
  "store_ok r \<Longrightarrow> t_shape (find_carrier_t_block r key)"
  "store_ok r \<Longrightarrow> b_shape (find_bpl_t_block r k' idx)"
  by (auto simp: store_ok_def find_carrier_t_block_def find_bpl_t_block_def split: option.splits)

lemma new_routing_ok: "store_ok new_routing"
  by (simp add: store_ok_def new_routing_def new_tblock_shape new_backplane_tblock_shape)

lemma on_t_Inr_iff:
  assumes "store_ok r"
  shows "on_carrier_t_block key (t_connect s d l) r = (Inr u, r') \<longleftrightarrow> t_ok s d l \<and> r' = put_t key s d l r"
proof -
  have "t_shape (case carrier_t_blocks r key of Some b \<Rightarrow> b | None \<Rightarrow> dummy r)"
    using assms by (auto simp: store_ok_def split: option.splits)
  then show ?thesis
    using tmux.connect_bad [of s d l]
    by (cases "t_ok s d l")
      (auto simp: on_carrier_t_block_def put_t_def tmux.connect_ok split: option.splits prod.splits, (metis Inl_Inr_False Pair_inject)+)
qed

lemma on_b_Inr_iff:
  assumes "store_ok r"
  shows "on_bpl_t_block [stack] idx (b_connect s d l) r = (Inr u, r') \<longleftrightarrow> b_ok s d l \<and> r' = put_b stack idx s d l r"
proof -
  have "b_shape (case bpl_t_blocks r ([stack], idx) of Some b \<Rightarrow> b | None \<Rightarrow> bpl_dummy r)"
    using assms by (auto simp: store_ok_def split: option.splits)
  then show ?thesis
    using bmux.connect_bad [of s d l]
    by (cases "b_ok s d l")
      (auto simp: on_bpl_t_block_def put_b_def bmux.connect_ok split: option.splits prod.splits, (metis Inl_Inr_False Pair_inject)+)
qed

lemma store_ok_put_t: "store_ok r \<Longrightarrow> t_ok s d l \<Longrightarrow> store_ok (put_t key s d l r)"
  by (auto simp: store_ok_def put_t_def tmux.shape_put split: option.splits)

lemma store_ok_put_b: "store_ok r \<Longrightarrow> b_ok s d l \<Longrightarrow> store_ok (put_b stack idx s d l r)"
  by (auto simp: store_ok_def put_b_def bmux.shape_put split: option.splits)

lemma t_at_put_same: "store_ok r \<Longrightarrow> t_ok s d l \<Longrightarrow> t_at (put_t key s d l r) key d l = Inr (Some s)"
  by (auto simp: t_at_def find_carrier_t_block_def put_t_def store_ok_def tmux.source_put_same split: option.splits)

lemma t_at_put_other:
  "store_ok r \<Longrightarrow> t_ok s d l \<Longrightarrow> t_ok s' d' l' \<Longrightarrow> (d', l') \<noteq> (d, l) \<Longrightarrow>
     t_at (put_t key s d l r) key' d' l' = t_at r key' d' l'"
  by (auto simp: t_at_def find_carrier_t_block_def put_t_def store_ok_def tmux.source_put_other split: option.splits)

lemma b_at_put_same: "store_ok r \<Longrightarrow> b_ok s d l \<Longrightarrow> b_at (put_b stack idx s d l r) stack idx d l = Inr (Some s)"
  by (auto simp: b_at_def find_bpl_t_block_def put_b_def store_ok_def bmux.source_put_same split: option.splits)

lemma b_at_put_other_sector:
  "store_ok r \<Longrightarrow> b_ok s d l \<Longrightarrow> b_ok s' d' l' \<Longrightarrow> (d', l') \<noteq> (d, l) \<Longrightarrow>
     b_at (put_b stack idx s d l r) stack' idx' d' l' = b_at r stack' idx' d' l'"
  by (auto simp: b_at_def find_bpl_t_block_def put_b_def store_ok_def bmux.source_put_other split: option.splits)

lemma b_at_put_other_stack:
  "bpl_t_blocks r ([stack'], idx') \<noteq> None \<Longrightarrow> stack' \<noteq> stack \<Longrightarrow>
     b_at (put_b stack idx s d l r) stack' idx' d' l' = b_at r stack' idx' d' l'"
  by (auto simp: b_at_def find_bpl_t_block_def put_b_def split: option.splits)

lemma put_frames [simp]:
  "b_at (put_t key s d l r) stack idx d' l' = b_at r stack idx d' l'"
  "t_at (put_b stack idx s d l r) key d' l' = t_at r key d' l'"
  "bpl_t_blocks (put_t key s d l r) x = bpl_t_blocks r x"
  "bpl_t_blocks (put_b stack idx s d l r) x = None \<longleftrightarrow> bpl_t_blocks r x = None"
  by (auto simp: put_t_def put_b_def b_at_def t_at_def find_bpl_t_block_def find_carrier_t_block_def split: option.splits)

text \<open>The loop over the stacks in between.\<close>

definition put_between :: "int list \<Rightarrow> int \<Rightarrow> int \<Rightarrow> int \<Rightarrow> int \<Rightarrow> routing \<Rightarrow> routing" where
  "put_between ts idx s d l = fold (\<lambda>t. put_b t idx s d l) ts"

lemma for_each_between:
  assumes "store_ok r" and "b_ok s d l"
  shows "for_each ts (\<lambda>t. on_bpl_t_block (new_stack t) idx (b_connect s d l)) r = (Inr (), put_between ts idx s d l r)
    \<and> store_ok (put_between ts idx s d l r)"
  unfolding put_between_def
  by (rule for_each_fold [of store_ok]) (use assms in \<open>auto simp: new_stack_def on_b_Inr_iff store_ok_put_b\<close>)

lemma put_between_frame:
  "bpl_t_blocks r ([stack'], idx') \<noteq> None \<Longrightarrow> stack' \<notin> set ts \<Longrightarrow>
     b_at (put_between ts idx s d l r) stack' idx' d' l' = b_at r stack' idx' d' l'"
  "store_ok r \<Longrightarrow> b_ok s d l \<Longrightarrow> b_ok s' d' l' \<Longrightarrow> (d', l') \<noteq> (d, l) \<Longrightarrow>
     b_at (put_between ts idx s d l r) stack' idx' d' l' = b_at r stack' idx' d' l'"
  "t_at (put_between ts idx s d l r) key d'' l'' = t_at r key d'' l''"
  "bpl_t_blocks (put_between ts idx s d l r) x = None \<longleftrightarrow> bpl_t_blocks r x = None"
  by (induction ts arbitrary: r)
    (auto simp: put_between_def b_at_put_other_stack b_at_put_other_sector store_ok_put_b simp del: not_None_eq)

lemma put_between_same:
  assumes "store_ok r" and "b_ok s d l" and "t \<in> set ts" and "\<forall>x \<in> set ts. bpl_t_blocks r ([x], idx) \<noteq> None"
  shows "b_at (put_between ts idx s d l r) t idx d l = Inr (Some s)"
  using assms
proof (induction ts arbitrary: r)
  case (Cons x xs)
  let ?r = "put_b x idx s d l r"
  have ok: "store_ok ?r" and reg: "\<forall>y \<in> set xs. bpl_t_blocks ?r ([y], idx) \<noteq> None" "bpl_t_blocks ?r ([x], idx) \<noteq> None"
    using Cons.prems by (simp_all add: store_ok_put_b)
  have "put_between (x # xs) idx s d l r = put_between xs idx s d l ?r"
    by (simp add: put_between_def)
  moreover have "b_at (put_between xs idx s d l ?r) t idx d l = Inr (Some s)"
  proof (cases "t \<in> set xs")
    case True
    then show ?thesis using Cons.IH [OF ok Cons.prems(2) _ reg(1)] by simp
  next
    case False
    with Cons.prems reg(2) show ?thesis
      by (auto simp: put_between_frame(1) b_at_put_same)
  qed
  ultimately show ?case by simp
qed simp


section \<open>A routed signal is traced back to its source\<close>

lemma walk_up:
  assumes "b_at r ss part 7 lane = Inr (Some sc)" and "0 \<le> sc" and "sc < 7" and "ss \<le> x"
    and "\<And>y. ss < y \<Longrightarrow> y \<le> x \<Longrightarrow> b_at r y part 7 lane = Inr (Some 8)"
  shows "bpl_walk (Suc n + nat (x - ss)) r x 7 part lane = Some (Inr (FromCarrier ss sc))"
  using assms(4,5)
proof (induction "nat (x - ss)" arbitrary: x)
  case 0
  then have "x = ss" by simp
  with assms(1-3) show ?case by (simp add: b_at_def new_stack_def)
next
  case (Suc m)
  then have m: "m = nat (x - 1 - ss)" "nat (x - ss) = Suc m" "ss \<le> x - 1"
    by auto
  have "bpl_walk (Suc n + nat (x - 1 - ss)) r (x - 1) 7 part lane = Some (Inr (FromCarrier ss sc))"
    using Suc.hyps(1) [OF m(1,3)] Suc.prems by simp
  moreover have "b_at r x part 7 lane = Inr (Some 8)"
    using Suc.prems m by simp
  ultimately show ?case
    using m by (simp add: b_at_def new_stack_def)
qed

lemma walk_down:
  assumes "b_at r ss part 8 lane = Inr (Some sc)" and "0 \<le> sc" and "sc < 7" and "x \<le> ss"
    and "\<And>y. x \<le> y \<Longrightarrow> y < ss \<Longrightarrow> b_at r y part 8 lane = Inr (Some 7)"
  shows "bpl_walk (Suc n + nat (ss - x)) r x 8 part lane = Some (Inr (FromCarrier ss sc))"
  using assms(4,5)
proof (induction "nat (ss - x)" arbitrary: x)
  case 0
  then have "x = ss" by simp
  with assms(1-3) show ?case by (simp add: b_at_def new_stack_def)
next
  case (Suc m)
  then have m: "m = nat (ss - (x + 1))" "nat (ss - x) = Suc m" "x + 1 \<le> ss"
    by auto
  have "bpl_walk (Suc n + nat (ss - (x + 1))) r (x + 1) 8 part lane = Some (Inr (FromCarrier ss sc))"
    using Suc.hyps(1) [OF m(1,3)] Suc.prems by simp
  moreover have "b_at r x part 8 lane = Inr (Some 7)"
    using Suc.prems m by simp
  ultimately show ?case
    using m by (simp add: b_at_def new_stack_def)
qed

text \<open>What \<open>_route_stack\<close> leaves in the store, for the three positions of the stacks.\<close>

definition backplane_set ::
    "routing \<Rightarrow> int \<Rightarrow> int \<Rightarrow> int \<Rightarrow> int \<Rightarrow> int \<Rightarrow> int \<Rightarrow> bool" where
  "backplane_set r ss sc ds dc part m \<longleftrightarrow>
     (if ss = ds then b_at r ss part dc m = Inr (Some sc)
      else if ss < ds then
        b_at r ss part 7 m = Inr (Some sc) \<and> (\<forall>y. ss < y \<and> y < ds \<longrightarrow> b_at r y part 7 m = Inr (Some 8)) \<and>
        b_at r ds part dc m = Inr (Some 8)
      else
        b_at r ss part 8 m = Inr (Some sc) \<and> (\<forall>y. ds < y \<and> y < ss \<longrightarrow> b_at r y part 8 m = Inr (Some 7)) \<and>
        b_at r ds part dc m = Inr (Some 7))"

lemma bpl_walk_set:
  assumes "backplane_set r ss sc ds dc part m" and "0 \<le> sc" and "sc < 7" and "nat \<bar>ds - ss\<bar> + 2 \<le> fuel"
  shows "bpl_walk fuel r ds dc part m = Some (Inr (FromCarrier ss sc))"
proof -
  obtain n where "fuel = nat \<bar>ds - ss\<bar> + 2 + n"
    using assms(4) le_Suc_ex by blast
  then obtain g where f: "fuel = Suc g" and g: "g = Suc n + nat \<bar>ds - ss\<bar>"
    by simp
  consider "ss = ds" | "ss < ds" | "ds < ss"
    by linarith
  then show ?thesis
  proof cases
    case 1
    with assms(1-3) f show ?thesis by (simp add: backplane_set_def b_at_def new_stack_def)
  next
    case 2
    then have "bpl_walk (Suc (Suc n) + nat (ds - 1 - ss)) r (ds - 1) 7 part m = Some (Inr (FromCarrier ss sc))"
      using assms(1-3) by (intro walk_up) (auto simp: backplane_set_def)
    moreover have "g = Suc (Suc n) + nat (ds - 1 - ss)"
      using 2 g by simp
    ultimately have "bpl_walk g r (ds - 1) 7 part m = Some (Inr (FromCarrier ss sc))"
      by (simp only:)
    then show ?thesis
      using 2 assms(1) f by (simp add: backplane_set_def b_at_def new_stack_def)
  next
    case 3
    then have "bpl_walk (Suc (Suc n) + nat (ss - (ds + 1))) r (ds + 1) 8 part m = Some (Inr (FromCarrier ss sc))"
      using assms(1-3) by (intro walk_down) (auto simp: backplane_set_def)
    moreover have "g = Suc (Suc n) + nat (ss - (ds + 1))"
      using 3 g by simp
    ultimately have "bpl_walk g r (ds + 1) 8 part m = Some (Inr (FromCarrier ss sc))"
      by (simp only:)
    then show ?thesis
      using 3 assms(1) f by (simp add: backplane_set_def b_at_def new_stack_def)
  qed
qed

text \<open>The backplane blocks of all stacks between source and target are registered.\<close>

definition stacks_registered :: "routing \<Rightarrow> int \<Rightarrow> int \<Rightarrow> int \<Rightarrow> bool" where
  "stacks_registered r ss ds part \<longleftrightarrow>
     (\<forall>t. min ss ds \<le> t \<and> t \<le> max ss ds \<longrightarrow> bpl_t_blocks r ([t], part) \<noteq> None)"

lemma py_range_set:
  "ss < ds \<Longrightarrow> set (py_range (ss + 1) ds 1) = {ss<..<ds}"
  "ds < ss \<Longrightarrow> set (py_range (ss - 1) ds (- 1)) = {ds<..<ss}"
  by (auto simp: py_range_def)

lemma cross_stack_set:
  assumes ok: "store_ok r" and reg: "stacks_registered r ss ds part" and ne: "ss \<noteq> ds"
    and b: "b_ok sc ex m" "b_ok en ex m" "b_ok en dc m" and ex: "ex = (if ss < ds then 7 else 8)"
    and en: "en = (if ss < ds then 8 else 7)" and dc: "dc < 7"
    and ts: "set ts = (if ss < ds then {ss<..<ds} else {ds<..<ss})"
  defines "r' \<equiv> put_b ds part en dc m (put_between ts part en ex m (put_b ss part sc ex m r))"
  shows "backplane_set r' ss sc ds dc part m"
proof -
  let ?r1 = "put_b ss part sc ex m r" and ?r2 = "put_between ts part en ex m (put_b ss part sc ex m r)"
  have ok1: "store_ok ?r1" and ok2: "store_ok ?r2"
    using for_each_between [OF store_ok_put_b [OF ok b(1)] b(2)] store_ok_put_b [OF ok b(1)] by auto
  have reg': "bpl_t_blocks ?r1 ([t], part) \<noteq> None" if "min ss ds \<le> t" "t \<le> max ss ds" for t
    using reg that by (auto simp: stacks_registered_def simp del: not_None_eq)
  have nex: "(ex, m) \<noteq> (dc, m)"
    using dc ex by (auto split: if_splits)
  have last: "b_at r' ds part dc m = Inr (Some en)"
    unfolding r'_def by (rule b_at_put_same [OF ok2 b(3)])
  have frame: "b_at r' t part ex m = b_at ?r2 t part ex m" for t
    unfolding r'_def by (rule b_at_put_other_sector [OF ok2 b(3) b(1) nex])
  have btw: "b_at ?r2 t part ex m = Inr (Some en)" if "t \<in> set ts" for t
    by (rule put_between_same [OF ok1 b(2) that]) (use reg' ts in \<open>auto simp del: not_None_eq split: if_splits\<close>)
  have "b_at ?r2 ss part ex m = b_at ?r1 ss part ex m"
    by (rule put_between_frame(1)) (use reg' ts in \<open>auto simp del: not_None_eq split: if_splits\<close>)
  then have first: "b_at ?r2 ss part ex m = Inr (Some sc)"
    using b_at_put_same [OF ok b(1)] by simp
  show ?thesis
    using ne last frame btw first ts ex en by (auto simp: backplane_set_def split: if_splits)
qed


lemma lift_res_Inr_iff: "lift_res x s = (Inr a, s') \<longleftrightarrow> x = Inr a \<and> s' = s"
  by (auto simp: lift_res_def)

lemmas routing_inversions = sbind_Inr_iff guard_Inr_iff lift_res_Inr_iff

lemma t_ok_route_lane: "t_ok s d (l - 8) \<Longrightarrow> 8 \<le> l \<and> l < 32"
  by (simp add: t_ok_def)

text \<open>One hop: the T-block of the carrier names the cluster.\<close>

lemma trace_cluster:
  assumes "t_at r [s, c] (dk + 1) (l - 8) = Inr (Some (sk + 1))" and "t_ok (sk + 1) (dk + 1) (l - 8)" and "0 \<le> sk"
    and "0 < fuel"
  shows "find_coef fuel r [s, c, dk, l] = Some (Inr (Some [s, c, sk, l]))"
proof -
  obtain n where "fuel = Suc n"
    using assms(4) gr0_conv_Suc by blast
  with assms t_ok_route_lane [OF assms(2)] show ?thesis
    by (simp add: find_coef_def t_at_def t_ok_def)
qed

lemma trace_stack:
  assumes "t_at r [ds, dc] (dk + 1) (l - 8) = Inr (Some 0)" and "t_at r [ss, sc] 0 (l - 8) = Inr (Some (sk + 1))"
    and "t_ok (sk + 1) 0 (l - 8)" and "0 \<le> sk" and "0 \<le> dk" and "0 \<le> sc" and "sc < 7"
    and "backplane_set r ss sc ds dc ((l - 8) div 8) ((l - 8) mod 8)" and "nat \<bar>ds - ss\<bar> + 2 \<le> fuel"
  shows "find_coef fuel r [ds, dc, dk, l] = Some (Inr (Some [ss, sc, sk, l]))"
proof -
  have w: "bpl_walk fuel r ds dc ((l - 8) div 8) ((l - 8) mod 8) = Some (Inr (FromCarrier ss sc))"
    by (rule bpl_walk_set) (use assms in auto)
  obtain n where "fuel = Suc (Suc n)"
    using assms(9) by (metis add_2_eq_Suc' le_Suc_ex add_Suc)
  with assms t_ok_route_lane [OF assms(3)] w show ?thesis
    by (simp add: find_coef_def t_at_def t_ok_def del: bpl_walk.simps)
qed

lemma route_stack_Inr:
  assumes ok: "store_ok r" and r: "route_stack [ss, sc, sk, sl] [ds, dc, dk, dl] r = (Inr u, r')"
    and reg: "ss \<noteq> ds \<Longrightarrow> stacks_registered r ss ds ((sl - 8) div 8)" and dc: "dc < 7" and k: "0 \<le> sk" "0 \<le> dk"
  shows "sl = dl \<and> 8 \<le> dl \<and> dl < 32 \<and> t_at r' [ds, dc] (dk + 1) (dl - 8) = Inr (Some 0) \<and>
    t_at r' [ss, sc] 0 (dl - 8) = Inr (Some (sk + 1)) \<and> t_ok (sk + 1) 0 (dl - 8) \<and> 0 \<le> sc \<and>
    backplane_set r' ss sc ds dc ((dl - 8) div 8) ((dl - 8) mod 8)"
proof -
  let ?part = "(dl - 8) div 8" and ?m = "dl mod 8"
  have sl: "sl = dl" "8 \<le> dl" "dl < 32" and t1: "t_ok (sk + 1) 0 (dl - 8)"
    using r on_t_Inr_iff [OF ok] by (auto simp: route_stack_def Let_def routing_inversions)
  let ?r1 = "put_t [ss, sc] (sk + 1) 0 (dl - 8) r"
  have ok1: "store_ok ?r1"
    by (rule store_ok_put_t [OF ok t1])
  have t2: "t_ok 0 (dk + 1) (dl - 8)"
    using r on_t_Inr_iff [OF ok] on_t_Inr_iff [OF ok1] sl by (auto simp: route_stack_def Let_def routing_inversions)
  let ?r2 = "put_t [ds, dc] 0 (dk + 1) (dl - 8) ?r1"
  have ok2: "store_ok ?r2"
    by (rule store_ok_put_t [OF ok1 t2])
  have mod: "(dl - 8) mod 8 = ?m"
    by (metis diff_add_cancel mod_add_self2)
  have t_reads: "t_at ?r2 [ds, dc] (dk + 1) (dl - 8) = Inr (Some 0)" "t_at ?r2 [ss, sc] 0 (dl - 8) = Inr (Some (sk + 1))"
    using t_at_put_same [OF ok1 t2] t_at_put_other [OF ok1 t2 t1] t_at_put_same [OF ok t1] k by auto
  show ?thesis
  proof (cases "ss = ds")
    case True
    with r ok ok1 ok2 sl have "b_ok sc dc ?m" "r' = put_b ss ?part sc dc ?m ?r2"
      by (auto simp: route_stack_def Let_def routing_inversions on_t_Inr_iff on_b_Inr_iff)
    with True t_reads t1 sl ok2 mod show ?thesis
      by (simp add: backplane_set_def b_at_put_same) (simp add: b_ok_def)
  next
    case False
    let ?ex = "if ss < ds then 7 else 8 :: int" and ?en = "if ss < ds then 8 else 7 :: int"
    let ?dir = "if ss < ds then 1 else - 1 :: int"
    let ?ts = "py_range (ss + ?dir) ds ?dir"
    have b1: "b_ok sc ?ex ?m"
      using r ok ok1 ok2 sl False
      by (auto simp: route_stack_def Let_def routing_inversions on_t_Inr_iff on_b_Inr_iff)
    have b2: "b_ok ?en ?ex ?m"
      by (simp add: b_ok_def)
    let ?r3 = "put_b ss ?part sc ?ex ?m ?r2"
    have ok3: "store_ok ?r3"
      by (rule store_ok_put_b [OF ok2 b1])
    let ?r4 = "put_between ?ts ?part ?en ?ex ?m ?r3"
    have ok4: "store_ok ?r4" and loop: "for_each ?ts (\<lambda>t. on_bpl_t_block (new_stack t) ?part (b_connect ?en ?ex ?m)) ?r3 = (Inr (), ?r4)"
      using for_each_between [OF ok3 b2] by simp_all
    have "b_ok ?en dc ?m \<and> r' = put_b ds ?part ?en dc ?m ?r4"
      using r ok ok1 ok2 ok4 sl False loop b1
      by (simp add: route_stack_def Let_def routing_inversions on_t_Inr_iff on_b_Inr_iff)
    then have b3: "b_ok ?en dc ?m" and r': "r' = put_b ds ?part ?en dc ?m ?r4"
      by auto
    have "backplane_set r' ss sc ds dc ?part ?m"
      unfolding r'
    proof (rule cross_stack_set [OF ok2 _ False b1 b2 b3 refl refl dc])
      show "stacks_registered ?r2 ss ds ?part"
        using reg [OF False] sl by (simp add: stacks_registered_def)
      show "set ?ts = (if ss < ds then {ss<..<ds} else {ds<..<ss})"
        using False py_range_set [of ss ds] py_range_set(2) [of ds ss] by (cases "ss < ds") simp_all
    qed
    then show ?thesis
      using t_reads t1 sl mod b1 by (simp add: r' put_between_frame(3)) (simp add: b_ok_def)
  qed
qed


lemma route_then_trace:
  assumes "store_ok r" and "route [ss, sc, sk, sl] [ds, dc, dk, dl] r = (Inr u, r')"
    and "0 \<le> sk" and "0 \<le> dk"
    and "ss \<noteq> ds \<Longrightarrow> stacks_registered r ss ds ((sl - 8) div 8)"
    and "nat \<bar>ds - ss\<bar> + 2 \<le> fuel"
  shows "find_coef fuel r' [ds, dc, dk, dl] = Some (Inr (Some [ss, sc, sk, sl]))"
proof -
  have lim: "sc < 7" "dc < 7" "sl < 32" "dl < 32"
    using assms(2) by (auto simp: route_def routing_inversions both_below_def split: if_splits)
  consider (cluster) "ss = ds" "sc = dc" "sk = dk" | (carrier) "ss = ds" "sc = dc" "sk \<noteq> dk"
    | (stack) "[ss, sc] \<noteq> [ds, dc]"
    by auto
  then show ?thesis
  proof cases
    case cluster
    then have c: "route_cluster [ss, sc, sk, sl] [ds, dc, dk, dl] r = (Inr u, r')"
      using assms(2) by (auto simp: route_def routing_inversions)
    show ?thesis
    proof (cases "sl < 8")
      case True
      with c cluster have "sl = dl"
        by (auto simp: route_cluster_def routing_inversions raise_def split: if_splits)
      with True cluster show ?thesis
        by (simp add: find_coef_def)
    next
      case False
      with c have "sl = dl" "t_ok (sk + 1) (dk + 1) (dl - 8)" "r' = put_t [ds, dc] (sk + 1) (dk + 1) (dl - 8) r"
        by (auto simp: route_cluster_def routing_inversions on_t_Inr_iff [OF assms(1)])
      with cluster assms show ?thesis
        by (auto intro!: trace_cluster t_at_put_same)
    qed
  next
    case carrier
    then have "route_carrier [ss, sc, sk, sl] [ds, dc, dk, dl] r = (Inr u, r')"
      using assms(2) by (auto simp: route_def routing_inversions)
    then have "sl = dl" "t_ok (sk + 1) (dk + 1) (dl - 8)" "r' = put_t [ds, dc] (sk + 1) (dk + 1) (dl - 8) r"
      by (auto simp: route_carrier_def routing_inversions on_t_Inr_iff [OF assms(1)])
    with carrier assms show ?thesis
      by (auto intro!: trace_cluster t_at_put_same)
  next
    case stack
    then have "route_stack [ss, sc, sk, sl] [ds, dc, dk, dl] r = (Inr u, r')"
      using assms(2) by (auto simp: route_def routing_inversions)
    from route_stack_Inr [OF assms(1) this assms(5) lim(2) assms(3,4)] show ?thesis
      using assms lim by (auto intro!: trace_stack)
  qed
qed

text \<open>
  C3. What the router sets up, the tracer finds. When \<open>route\<close> from a source lane to a target lane
  returns, \<open>find_coef\<close> on the target lane yields exactly the source lane - within a cluster, between
  clusters of a carrier, between carriers, and across stacks in both directions - and it needs at most
  as much fuel as there are stacks on the way plus two. Cluster positions are not negative; across stacks,
  the backplane blocks of all stacks from source to target have to be registered.
\<close>

theorem route_traced:
  assumes "store_ok r" and "route [ss, sc, sk, sl] [ds, dc, dk, dl] r = (Inr u, r')"
    and "0 \<le> sk" and "0 \<le> dk"
    and "ss \<noteq> ds \<Longrightarrow> stacks_registered r ss ds ((sl - 8) div 8)"
    and "nat \<bar>ds - ss\<bar> + 2 \<le> fuel"
  shows "find_coef fuel r' [ds, dc, dk, dl] = Some (Inr (Some [ss, sc, sk, sl]))"
  using assms by (rule route_then_trace)

definition demo_routing :: routing where
  "demo_routing = new_routing\<lparr>bpl_t_blocks := (\<lambda>_. Some new_backplane_tblock)\<rparr>"

lemma demo_routing_ok: "store_ok demo_routing"
  by (simp add: demo_routing_def store_ok_def new_routing_def new_tblock_shape new_backplane_tblock_shape)

theorem route_traced_witness:
  "find_coef 5 (snd (route [0, 2, 1, 17] [3, 4, 2, 17] demo_routing)) [3, 4, 2, 17] = Some (Inr (Some [0, 2, 1, 17]))"
proof -
  have "fst (route [0, 2, 1, 17] [3, 4, 2, 17] demo_routing) = Inr ()"
    by code_simp
  then have "route [0, 2, 1, 17] [3, 4, 2, 17] demo_routing =
      (Inr (), snd (route [0, 2, 1, 17] [3, 4, 2, 17] demo_routing))"
    by (simp add: prod_eq_iff)
  from route_traced [OF demo_routing_ok this] show ?thesis
    by (simp add: stacks_registered_def demo_routing_def)
qed

section \<open>Different lanes do not interfere\<close>

text \<open>Two stores that agree on every multiplexer of one lane.\<close>

definition lane_eq :: "int \<Rightarrow> routing \<Rightarrow> routing \<Rightarrow> bool" where
  "lane_eq l r r' \<longleftrightarrow>
     (\<forall>key d. t_at r' key d (l - 8) = t_at r key d (l - 8)) \<and>
     (\<forall>stack d. b_at r' stack ((l - 8) div 8) d ((l - 8) mod 8) = b_at r stack ((l - 8) div 8) d ((l - 8) mod 8))"

lemma bpl_walk_lane_eq:
  "lane_eq l r r' \<Longrightarrow>
     bpl_walk n r' s p ((l - 8) div 8) ((l - 8) mod 8) = bpl_walk n r s p ((l - 8) div 8) ((l - 8) mod 8)"
  by (induction n arbitrary: s p) (auto simp: lane_eq_def b_at_def new_stack_def split: sum.splits option.splits)

lemma trace_lane_eq: "lane_eq l r r' \<Longrightarrow> trace m n r' vis s c d l = trace m n r vis s c d l"
proof (induction n arbitrary: vis s c d)
  case (Suc n)
  have "t_source d (l - 8) (find_carrier_t_block r' [s, c]) = t_source d (l - 8) (find_carrier_t_block r [s, c])"
    using Suc.prems by (simp add: lane_eq_def t_at_def)
  then show ?case
    using Suc bpl_walk_lane_eq [OF Suc.prems]
    by (auto split: sum.splits option.splits walk.splits)
qed simp

lemma t_source_put_lane:
  assumes "t_ok s d l" and "l' \<noteq> l"
  shows "t_source d' l' (t_put s d l b) = t_source d' l' b"
proof (cases "0 \<le> d' \<and> d' < 4 \<and> 0 \<le> l' \<and> l' < 24")
  case True
  then have "l' * 4 + d' \<noteq> l * 4 + d"
    using assms unfolding t_ok_def by presburger
  with True assms have "nat (l' * 4 + d') \<noteq> nat (l * 4 + d)"
    by (simp add: t_ok_def eq_nat_nat_iff)
  with True show ?thesis
    by (simp add: t_source_def t_index_def t_put_def py_get_def py_idx_def)
next
  case False
  then show ?thesis
    by (auto simp: t_source_def t_index_def rassert_def)
qed


lemma t_at_put_lane: "t_ok s d l \<Longrightarrow> l' \<noteq> l \<Longrightarrow> t_at (put_t key s d l r) key' d' l' = t_at r key' d' l'"
  by (auto simp: t_at_def find_carrier_t_block_def put_t_def t_source_put_lane split: option.splits)

lemma b_source_put_lane:
  assumes "b_ok s d l" and "b_shape b" and "0 \<le> l'" and "l' \<noteq> l"
  shows "b_source d' l' (b_put s d l b) = b_source d' l' b"
proof (cases "py_idx 9 d'")
  case None
  with assms(2) show ?thesis
    by (simp add: b_source_def b_put_def py_get_def b_shape_def)
next
  case (Some i)
  with assms(2) have "b_source d' l' (b_put s d l b) = py_get (b_sectors (b_put s d l b) ! i) l'"
      "b_source d' l' b = py_get (b_sectors b ! i) l'"
    by (simp_all add: b_source_def b_put_def py_get_def [of "_[_ := _]"] py_get_def [of "b_sectors b"] b_shape_def)
  moreover have "py_get (xs[nat l := v]) l' = py_get xs l'" for xs :: "int option list" and v
  proof -
    have "nat l' \<noteq> nat l"
      using assms by (auto simp: b_ok_def)
    with assms(3) show ?thesis
      by (simp add: py_get_def py_idx_def)
  qed
  moreover have "i < 9"
    using Some py_idx_bound by blast
  ultimately show ?thesis
    using assms(2) by (cases "i = nat d") (simp_all add: b_put_def b_shape_def)
qed

lemma lane_eq_put_t:
  "lane_eq l r0 r \<Longrightarrow> t_ok s d l' \<Longrightarrow> l' \<noteq> l - 8 \<Longrightarrow> lane_eq l r0 (put_t key s d l' r)"
  by (simp add: lane_eq_def t_at_put_lane)

lemma lane_eq_put_b:
  assumes eq: "lane_eq l r0 r" and ok: "store_ok r" and b: "b_ok s d (l' mod 8)" and ne: "l' \<noteq> l"
    and reg: "bpl_t_blocks r ([stack], (l' - 8) div 8) \<noteq> None"
  shows "lane_eq l r0 (put_b stack ((l' - 8) div 8) s d (l' mod 8) r)"
proof -
  have m: "(l - 8) mod 8 = l mod 8"
    by (metis diff_add_cancel mod_add_self2)
  have "b_at (put_b stack ((l' - 8) div 8) s d (l' mod 8) r) st ((l - 8) div 8) e ((l - 8) mod 8) =
      b_at r st ((l - 8) div 8) e ((l - 8) mod 8)" for st e
  proof (cases "(l - 8) div 8 = (l' - 8) div 8")
    case False
    with reg show ?thesis
      by (auto simp: b_at_def find_bpl_t_block_def put_b_def split: option.splits)
  next
    case True
    then have "(l - 8) mod 8 \<noteq> l' mod 8"
      using ne m by (metis diff_add_cancel mod_add_self2 div_mult_mod_eq)
    with ok b show ?thesis
      by (auto simp: b_at_def find_bpl_t_block_def put_b_def store_ok_def b_source_put_lane split: option.splits)
  qed
  with eq show ?thesis
    by (simp add: lane_eq_def)
qed

text \<open>The invariant of a call of \<open>route\<close> on lane \<open>l'\<close> seen from lane \<open>l\<close>.\<close>

definition other_lane :: "int \<Rightarrow> int \<Rightarrow> int set \<Rightarrow> routing \<Rightarrow> routing \<Rightarrow> bool" where
  "other_lane l l' stacks r0 r \<longleftrightarrow>
     store_ok r \<and> lane_eq l r0 r \<and> (\<forall>t \<in> stacks. bpl_t_blocks r ([t], (l' - 8) div 8) \<noteq> None)"

lemma sbind_lift_res [simp]: "sbind (lift_res (Inr a)) f = f a" "sbind (lift_res (Inl e)) f = raise e"
  by (auto simp: sbind_def lift_res_def raise_def)

lemma keeps_lift_res [keeps_intro]: "keeps I (lift_res x)"
  by (simp add: triple_def lift_res_def split: sum.splits)

lemma on_t_eq:
  "store_ok r \<Longrightarrow> \<exists>e. on_carrier_t_block key (t_connect s d l) r =
     (if t_ok s d l then (Inr (), put_t key s d l r) else (Inl e, r))"
proof (cases "t_ok s d l")
  case True
  assume "store_ok r"
  with True show ?thesis
    by (auto simp: on_t_Inr_iff)
next
  case False
  assume "store_ok r"
  obtain e where "t_connect s d l (case carrier_t_blocks r key of Some b \<Rightarrow> b | None \<Rightarrow> dummy r) =
      (Inl e, case carrier_t_blocks r key of Some b \<Rightarrow> b | None \<Rightarrow> dummy r)"
    using tmux.connect_bad [OF False] by blast
  with False show ?thesis
    by (cases "carrier_t_blocks r key") (auto simp: on_carrier_t_block_def fun_upd_idem)
qed

lemma on_b_eq:
  "store_ok r \<Longrightarrow> \<exists>e. on_bpl_t_block [stack] idx (b_connect s d l) r =
     (if b_ok s d l then (Inr (), put_b stack idx s d l r) else (Inl e, r))"
proof (cases "b_ok s d l")
  case True
  assume "store_ok r"
  with True show ?thesis
    by (auto simp: on_b_Inr_iff)
next
  case False
  assume "store_ok r"
  obtain e where "b_connect s d l (case bpl_t_blocks r ([stack], idx) of Some b \<Rightarrow> b | None \<Rightarrow> bpl_dummy r) =
      (Inl e, case bpl_t_blocks r ([stack], idx) of Some b \<Rightarrow> b | None \<Rightarrow> bpl_dummy r)"
    using bmux.connect_bad [OF False] by blast
  with False show ?thesis
    by (cases "bpl_t_blocks r ([stack], idx)") (auto simp: on_bpl_t_block_def fun_upd_idem)
qed

lemma keeps_on_t:
  assumes "l' \<noteq> l"
  shows "keeps (other_lane l l' stacks r0) (on_carrier_t_block key (t_connect s d (l' - 8)))"
  unfolding triple_def
proof (intro allI impI)
  fix r
  assume o: "other_lane l l' stacks r0 r"
  then have "store_ok r"
    by (simp add: other_lane_def)
  from on_t_eq [OF this, of key s d "l' - 8"]
  obtain e where e: "on_carrier_t_block key (t_connect s d (l' - 8)) r =
      (if t_ok s d (l' - 8) then (Inr (), put_t key s d (l' - 8) r) else (Inl e, r))" ..
  with o assms show "case on_carrier_t_block key (t_connect s d (l' - 8)) r of
      (Inl e, s') \<Rightarrow> other_lane l l' stacks r0 s' | (Inr _, s') \<Rightarrow> other_lane l l' stacks r0 s'"
    by (cases "t_ok s d (l' - 8)") (auto simp: other_lane_def store_ok_put_t lane_eq_put_t simp del: not_None_eq)
qed

lemma keeps_on_b:
  assumes "l' \<noteq> l" and "stack \<in> stacks"
  shows "keeps (other_lane l l' stacks r0) (on_bpl_t_block [stack] ((l' - 8) div 8) (b_connect s d (l' mod 8)))"
  unfolding triple_def
proof (intro allI impI)
  fix r
  assume o: "other_lane l l' stacks r0 r"
  then have "store_ok r"
    by (simp add: other_lane_def)
  from on_b_eq [OF this, of stack "(l' - 8) div 8" s d "l' mod 8"]
  obtain e where e: "on_bpl_t_block [stack] ((l' - 8) div 8) (b_connect s d (l' mod 8)) r =
      (if b_ok s d (l' mod 8) then (Inr (), put_b stack ((l' - 8) div 8) s d (l' mod 8) r) else (Inl e, r))" ..
  with o assms show "case on_bpl_t_block [stack] ((l' - 8) div 8) (b_connect s d (l' mod 8)) r of
      (Inl e, s') \<Rightarrow> other_lane l l' stacks r0 s' | (Inr _, s') \<Rightarrow> other_lane l l' stacks r0 s'"
    by (cases "b_ok s d (l' mod 8)") (auto simp: other_lane_def store_ok_put_b lane_eq_put_b simp del: not_None_eq)
qed


lemma keeps_Let [keeps_intro]: "keeps I (f x) \<Longrightarrow> keeps I (Let x f)"
  by simp

lemma keeps_route:
  assumes "dl \<noteq> l" and "\<And>t. min ss ds \<le> t \<Longrightarrow> t \<le> max ss ds \<Longrightarrow> t \<in> stacks"
  shows "keeps (other_lane l dl stacks r0) (route [ss, sc, sk, sl] [ds, dc, dk, dl])"
proof -
  let ?I = "other_lane l dl stacks r0"
  have c: "keeps ?I (route_cluster [ss, sc, sk, sl] [ds, dc, dk, dl])"
    unfolding route_cluster_def using assms(1) by (auto intro!: keeps_intro keeps_on_t)
  have k: "keeps ?I (route_carrier [ss, sc, sk, sl] [ds, dc, dk, dl])"
    unfolding route_carrier_def using assms(1) by (auto intro!: keeps_intro keeps_on_t)
  have s: "keeps ?I (route_stack [ss, sc, sk, sl] [ds, dc, dk, dl])"
  proof (cases "sl = dl")
    case False
    then show ?thesis
      unfolding route_stack_def by (simp add: triple_def pym_defs lift_res_def)
  next
    case True
    have "set (py_range (ss + dir) ds dir) \<subseteq> stacks" if "dir = (if ss < ds then 1 else - 1)" for dir
      using assms(2) that by (auto simp: py_range_def split: if_splits)
    then show ?thesis
      unfolding route_stack_def True using assms
      by (auto simp: Let_def new_stack_def intro!: keeps_intro keeps_on_t keeps_on_b)
  qed
  show ?thesis
    unfolding route_def using c k s by (auto intro!: keeps_intro)
qed

text \<open>
  C24. Routes on different lanes do not interfere. As long as the backplane blocks of the stacks from
  source to target are registered: whatever \<open>route\<close> does for a target lane, also when it raises half way,
  the tracer's answer for every target on another lane stays the same. (Without registered blocks,
  lanes that are equal modulo 8 share the dummy block.)
\<close>

theorem route_other_lane:
  assumes "store_ok r" and "stacks_registered r ss ds ((dl - 8) div 8)" and "l \<noteq> dl"
  shows "find_coef fuel (snd (route [ss, sc, sk, sl] [ds, dc, dk, dl] r)) [s, c, d, l] = find_coef fuel r [s, c, d, l]"
proof -
  let ?stacks = "{t. min ss ds \<le> t \<and> t \<le> max ss ds}"
  have start: "other_lane l dl ?stacks r r"
    using assms by (auto simp: other_lane_def lane_eq_def stacks_registered_def)
  have "keeps (other_lane l dl ?stacks r) (route [ss, sc, sk, sl] [ds, dc, dk, dl])"
    using assms(3) by (intro keeps_route) auto
  from keepsD [OF this start] have "other_lane l dl ?stacks r (snd (route [ss, sc, sk, sl] [ds, dc, dk, dl] r))" .
  then have "lane_eq l r (snd (route [ss, sc, sk, sl] [ds, dc, dk, dl] r))"
    by (simp add: other_lane_def)
  then show ?thesis
    by (simp add: find_coef_def trace_lane_eq)
qed

theorem route_other_lane_witness:
  "find_coef 4 (snd (route [0, 2, 1, 17] [3, 4, 2, 17] demo_routing)) [3, 4, 2, 9] =
   find_coef 4 demo_routing [3, 4, 2, 9]"
  by (rule route_other_lane) (simp_all add: demo_routing_ok stacks_registered_def, simp add: demo_routing_def)

lemma keeps_unregistered:
  "keeps (\<lambda>r. bpl_t_blocks r = (\<lambda>_. None)) (on_carrier_t_block key m)"
  "keeps (\<lambda>r. bpl_t_blocks r = (\<lambda>_. None)) (on_bpl_t_block key' idx m')"
  by (auto simp: triple_def on_carrier_t_block_def on_bpl_t_block_def split: option.splits prod.splits sum.splits)

text \<open>
  Without registered backplane blocks the tracer may never answer: routing across two stack
  boundaries with an empty store returns, but the inner loop of \<open>find_coef\<close> does not end, whatever
  fuel it is given.
\<close>

theorem trace_diverges:
  "fst (route [0, 0, 0, 8] [2, 1, 0, 8] new_routing) = Inr () \<and>
   find_coef fuel (snd (route [0, 0, 0, 8] [2, 1, 0, 8] new_routing)) [2, 1, 0, 8] = None"
proof
  let ?r = "snd (route [0, 0, 0, 8] [2, 1, 0, 8] new_routing)"
  show "fst (route [0, 0, 0, 8] [2, 1, 0, 8] new_routing) = Inr ()"
    by code_simp
  have none: "bpl_t_blocks ?r x = None" for x
  proof -
    have "keeps (\<lambda>r. bpl_t_blocks r = (\<lambda>_. None)) (route [0, 0, 0, 8] [2, 1, 0, 8])"
      unfolding route_def route_cluster_def route_carrier_def route_stack_def Let_def
      by (auto intro!: keeps_intro keeps_unregistered)
    from keepsD [OF this, of new_routing] show ?thesis
      by (simp add: new_routing_def)
  qed
  have seven: "b_source 7 0 (bpl_dummy ?r) = Inr (Some 8)" and one: "b_source 1 0 (bpl_dummy ?r) = Inr (Some 8)"
    by code_simp+
  have t: "t_source 1 0 (find_carrier_t_block ?r [2, 1]) = Inr (Some 0)"
    by code_simp
  have w7: "bpl_walk n ?r s 7 0 0 = None" for n s
    by (induction n arbitrary: s) (simp_all add: find_bpl_t_block_def none seven new_stack_def)
  have w1: "bpl_walk n ?r s 1 0 0 = None" for n s
    by (cases n) (simp_all add: find_bpl_t_block_def none one new_stack_def w7)
  show "find_coef fuel ?r [2, 1, 0, 8] = None"
    by (cases fuel) (simp_all add: find_coef_def t w1)
qed


section \<open>Routing between math elements\<close>

record machine =
  mc_redac :: redac
  mc_routing :: routing

definition cluster_at :: "nat \<Rightarrow> nat \<Rightarrow> redac \<Rightarrow> cluster" where
  "cluster_at i j r = cr_clusters (rd_carriers r ! i) ! j"

definition put_cluster :: "nat \<Rightarrow> nat \<Rightarrow> cluster \<Rightarrow> redac \<Rightarrow> redac" where
  "put_cluster i j c r =
     r\<lparr>rd_carriers := (rd_carriers r)[i := (rd_carriers r ! i)\<lparr>cr_clusters := (cr_clusters (rd_carriers r ! i))[j := c]\<rparr>]\<rparr>"

definition in_cluster :: "nat \<times> nat \<Rightarrow> (cluster, 'a) pym \<Rightarrow> (machine, 'a) pym" where
  "in_cluster ij m =
     zoom (\<lambda>s. cluster_at (fst ij) (snd ij) (mc_redac s))
       (\<lambda>c s. s\<lparr>mc_redac := put_cluster (fst ij) (snd ij) c (mc_redac s)\<rparr>) m"

definition redac_route :: "int \<Rightarrow> loc \<Rightarrow> loc \<Rightarrow> int \<Rightarrow> rat \<Rightarrow> (machine, unit) pym" where
  "redac_route src_math src_lane sink_lane sink_math coefficient =
     sbind (lift_res (loc_cluster src_lane)) (\<lambda>src_loc.
     sbind (eval_st (\<lambda>s. find_cluster src_loc (mc_redac s))) (\<lambda>src_cluster.
     sbind (lift_res (loc_cluster sink_lane)) (\<lambda>sink_loc.
     sbind (eval_st (\<lambda>s. find_cluster sink_loc (mc_redac s))) (\<lambda>tgt_cluster.
     sbind (lift_res (lane_id src_lane)) (\<lambda>src_l.
     sbind (in_cluster src_cluster (on_u (u_connect src_math [src_l] False))) (\<lambda>_.
     sbind (in_cluster src_cluster (on_c (c_set_factor src_l coefficient))) (\<lambda>_.
     sbind (zoom mc_routing (\<lambda>r s. s\<lparr>mc_routing := r\<rparr>) (route src_lane sink_lane)) (\<lambda>_.
     sbind (lift_res (lane_id sink_lane)) (\<lambda>sink_l.
     in_cluster tgt_cluster (on_i (i_connect {sink_l} sink_math False)))))))))))"

definition valid_cluster :: "nat \<times> nat \<Rightarrow> redac \<Rightarrow> bool" where
  "valid_cluster ij r \<longleftrightarrow> fst ij < length (rd_carriers r) \<and> snd ij < length (cr_clusters (rd_carriers r ! fst ij))"

lemma find_cluster_valid:
  assumes "find_cluster l r = Inr ij"
  shows "valid_cluster ij r"
proof -
  from assms obtain cl i n j where "first_index (\<lambda>c. cr_location c = Some cl) (rd_carriers r) = Some i"
    and "py_idx (length (cr_clusters (rd_carriers r ! i))) n = Some j" and "ij = (i, j)"
    by (auto simp: find_cluster_def rbind_eq_Inr_iff split: if_splits option.splits)
  then show ?thesis
    by (auto simp: valid_cluster_def dest: first_index_SomeD py_idx_bound)
qed

lemma put_cluster_laws:
  assumes "valid_cluster ij r"
  shows "valid_cluster kl (put_cluster (fst ij) (snd ij) c r) = valid_cluster kl r"
    and "cluster_at (fst kl) (snd kl) (put_cluster (fst ij) (snd ij) c r) =
      (if kl = ij then c else cluster_at (fst kl) (snd kl) r)"
  using assms
  by (cases ij; cases kl; auto simp: valid_cluster_def put_cluster_def cluster_at_def nth_list_update)+

lemma zoom_Inr_iff: "zoom g u m s = (Inr a, s') \<longleftrightarrow> (\<exists>b. m (g s) = (Inr a, b) \<and> s' = u b s)"
  by (auto simp: zoom_def split: prod.splits)

lemma u_connect_Inr: "u_connect x [l] False b = (Inr u, b') \<Longrightarrow> py_get (u_outputs b') l = Inr (Some x)"
  by (rule u_connect_cases [of x l b]) (auto simp: py_get_def)

lemma c_set_factor_Inr: "c_set_factor l v b = (Inr u, b') \<Longrightarrow> py_get (c_factors b') l = Inr v"
  by (auto simp: c_set_factor_def update_st_def rbind_eq_Inr_iff split: sum.splits dest: py_get_py_set_same)

lemma i_connect_Inr:
  "i_connect S out False b = (Inr u, b') \<Longrightarrow> \<exists>T. py_get (i_outputs b') out = Inr T \<and> S \<subseteq> T"
  by (rule i_connect_cases [of S out b]) (auto simp: py_get_def)

text \<open>
  C23. \<open>REDAC.route\<close> establishes the whole signal path. When it returns, the source element enters
  the source lane in the U-block, the lane has the requested coefficient, the tracer leads from the
  sink lane back to the source lane, and the sink lane is summed into the sink element by the I-block.
  Cluster positions are not negative; across stacks, the backplane blocks of all stacks from source to
  sink have to be registered.
\<close>

theorem redac_route_path:
  assumes "redac_route src_math [ss, sc, sk, sl] [ds, dc, dk, dl] sink_math coefficient s = (Inr u, s')"
    and "store_ok (mc_routing s)" and "0 \<le> sk" and "0 \<le> dk"
    and "ss \<noteq> ds \<Longrightarrow> stacks_registered (mc_routing s) ss ds ((sl - 8) div 8)"
    and "nat \<bar>ds - ss\<bar> + 2 \<le> fuel"
  shows "\<exists>i j i' j'. find_cluster [ss, sc, sk] (mc_redac s) = Inr (i, j) \<and> find_cluster [ds, dc, dk] (mc_redac s) = Inr (i', j') \<and>
     py_get (u_outputs (cl_u (cluster_at i j (mc_redac s')))) sl = Inr (Some src_math) \<and>
     py_get (c_factors (cl_c (cluster_at i j (mc_redac s')))) sl = Inr coefficient \<and>
     find_coef fuel (mc_routing s') [ds, dc, dk, dl] = Some (Inr (Some [ss, sc, sk, sl])) \<and>
     (\<exists>S. py_get (i_outputs (cl_i (cluster_at i' j' (mc_redac s')))) sink_math = Inr S \<and> dl \<in> S)"
proof -
  let ?at = "\<lambda>ij r. cluster_at (fst ij) (snd ij) r" and ?put = "\<lambda>ij c r. put_cluster (fst ij) (snd ij) c r"
  from assms(1) obtain ij ij' bu bc rt bi r1 r2 where
    f: "find_cluster [ss, sc, sk] (mc_redac s) = Inr ij" "find_cluster [ds, dc, dk] (mc_redac s) = Inr ij'"
    and u: "u_connect src_math [sl] False (cl_u (?at ij (mc_redac s))) = (Inr (), bu)"
    and r1: "r1 = ?put ij ((?at ij (mc_redac s))\<lparr>cl_u := bu\<rparr>) (mc_redac s)"
    and c: "c_set_factor sl coefficient (cl_c (?at ij r1)) = (Inr (), bc)"
    and r2: "r2 = ?put ij ((?at ij r1)\<lparr>cl_c := bc\<rparr>) r1"
    and r: "route [ss, sc, sk, sl] [ds, dc, dk, dl] (mc_routing s) = (Inr (), rt)"
    and i: "i_connect {dl} sink_math False (cl_i (?at ij' r2)) = (Inr (), bi)"
    and s': "mc_routing s' = rt" "mc_redac s' = ?put ij' ((?at ij' r2)\<lparr>cl_i := bi\<rparr>) r2"
    by (auto simp: redac_route_def in_cluster_def on_u_def on_c_def on_i_def sbind_Inr_iff lift_res_Inr_iff
        eval_st_def zoom_Inr_iff)
  have v: "valid_cluster ij (mc_redac s)" "valid_cluster ij' (mc_redac s)"
    using f by (auto intro: find_cluster_valid)
  then have v1: "valid_cluster ij r1" "valid_cluster ij' r1"
    by (simp_all add: r1 put_cluster_laws)
  then have v2: "valid_cluster ij r2" "valid_cluster ij' r2"
    by (simp_all add: r2 put_cluster_laws)
  have c1: "cl_u (?at ij r2) = bu" "cl_c (?at ij r2) = bc"
    using v v1 by (simp_all add: r2 r1 put_cluster_laws)
  have "cl_u (?at ij (mc_redac s')) = bu \<and> cl_c (?at ij (mc_redac s')) = bc \<and> cl_i (?at ij' (mc_redac s')) = bi"
    using v2 c1 by (auto simp: s' put_cluster_laws)
  then show ?thesis
    using f s'(1) u_connect_Inr [OF u] c_set_factor_Inr [OF c] i_connect_Inr [OF i] route_then_trace [OF assms(2) r assms(3-6)]
    by (intro exI [of _ "fst ij"] exI [of _ "snd ij"] exI [of _ "fst ij'"] exI [of _ "snd ij'"]) auto
qed

definition demo_cluster :: cluster where
  "demo_cluster = \<lparr>cl_path = [], cl_location = None, cl_m0 = None, cl_m1 = None,
     cl_u = new_ublock, cl_c = new_cblock, cl_i = new_iblock\<rparr>"

definition demo_machine :: machine where
  "demo_machine =
     \<lparr>mc_redac = demo_redac\<lparr>rd_carriers := map (\<lambda>c. c\<lparr>cr_clusters := [demo_cluster, demo_cluster]\<rparr>) (rd_carriers demo_redac)\<rparr>,
      mc_routing = demo_routing\<rparr>"

theorem redac_route_path_witness:
  "\<exists>s'. redac_route 3 [0, 0, 0, 12] [0, 0, 1, 12] 5 (1/2) demo_machine = (Inr (), s') \<and>
     (\<exists>i j i' j'. find_cluster [0, 0, 0] (mc_redac demo_machine) = Inr (i, j) \<and>
        find_cluster [0, 0, 1] (mc_redac demo_machine) = Inr (i', j') \<and>
        py_get (u_outputs (cl_u (cluster_at i j (mc_redac s')))) 12 = Inr (Some 3) \<and>
        py_get (c_factors (cl_c (cluster_at i j (mc_redac s')))) 12 = Inr (1/2) \<and>
        find_coef 2 (mc_routing s') [0, 0, 1, 12] = Some (Inr (Some [0, 0, 0, 12])) \<and>
        (\<exists>S. py_get (i_outputs (cl_i (cluster_at i' j' (mc_redac s')))) 5 = Inr S \<and> 12 \<in> S))"
proof -
  let ?m = "redac_route 3 [0, 0, 0, 12] [0, 0, 1, 12] 5 (1/2)"
  have "fst (?m demo_machine) = Inr ()"
    by code_simp
  then have r: "?m demo_machine = (Inr (), snd (?m demo_machine))"
    by (simp add: prod_eq_iff)
  show ?thesis
    by (rule exI [of _ "snd (?m demo_machine)"], rule conjI [OF r], rule redac_route_path [OF r])
      (simp_all add: demo_machine_def demo_routing_ok)
qed

section \<open>Types of the switch blocks\<close>

definition t_typed :: "tblock \<Rightarrow> bool" where
  "t_typed b \<longleftrightarrow> t_shape b \<and> (\<forall>s. Some s \<in> set (t_muxes b) \<longrightarrow> 0 \<le> s \<and> s < 4)"

definition b_typed :: "backplane_tblock \<Rightarrow> bool" where
  "b_typed b \<longleftrightarrow> b_shape b \<and> (\<forall>row \<in> set (b_sectors b). \<forall>s. Some s \<in> set row \<longrightarrow> 0 \<le> s \<and> s < 9)"

definition routing_typed :: "routing \<Rightarrow> bool" where
  "routing_typed r \<longleftrightarrow>
     (\<forall>key b. carrier_t_blocks r key = Some b \<longrightarrow> t_typed b) \<and> (\<forall>key b. bpl_t_blocks r key = Some b \<longrightarrow> b_typed b) \<and>
     t_typed (dummy r) \<and> b_typed (bpl_dummy r)"

lemma keeps_t_typed: "keeps t_typed (t_connect s d l)"
  unfolding triple_def
proof (intro allI impI)
  fix b assume b: "t_typed b"
  show "case t_connect s d l b of (Inl e, b') \<Rightarrow> t_typed b' | (Inr _, b') \<Rightarrow> t_typed b'"
  proof (cases "t_ok s d l")
    case True
    have "t_connect s d l b = (Inr (), t_put s d l b)" using tmux.connect_ok True b by (simp add: t_typed_def)
    moreover have "t_typed (t_put s d l b)"
      using tmux.shape_put True b by (auto simp: t_typed_def t_put_def t_ok_def dest: set_update_subset_insert [THEN subsetD])
    ultimately show ?thesis by simp
  next
    case False
    from tmux.connect_bad [OF this, of b] b show ?thesis by auto
  qed
qed

lemma keeps_b_typed: "keeps b_typed (b_connect s d l)"
  unfolding triple_def
proof (intro allI impI)
  fix b assume b: "b_typed b"
  show "case b_connect s d l b of (Inl e, b') \<Rightarrow> b_typed b' | (Inr _, b') \<Rightarrow> b_typed b'"
  proof (cases "b_ok s d l")
    case True
    have "b_connect s d l b = (Inr (), b_put s d l b)" using bmux.connect_ok True b by (simp add: b_typed_def)
    moreover have "b_typed (b_put s d l b)"
    proof -
      have old: "b_sectors b ! nat d \<in> set (b_sectors b)" using True b by (intro nth_mem) (auto simp: b_typed_def b_shape_def b_ok_def)
      have "0 \<le> v \<and> v < 9" if "row \<in> set (b_sectors (b_put s d l b))" "Some v \<in> set row" for row v
      proof -
        have "row \<in> set (b_sectors b) \<or> row = (b_sectors b ! nat d)[nat l := Some s]"
          using that(1) by (auto simp: b_put_def dest: set_update_subset_insert [THEN subsetD])
        then show ?thesis
          using that(2) b old True by (auto simp: b_typed_def b_ok_def dest!: set_update_subset_insert [THEN subsetD])
      qed
      then show ?thesis using bmux.shape_put True b by (simp add: b_typed_def)
    qed
    ultimately show ?thesis by simp
  next
    case False
    from bmux.connect_bad [OF this, of b] b show ?thesis by auto
  qed
qed

lemma keeps_typed_on_t [keeps_intro]: "keeps routing_typed (on_carrier_t_block key (t_connect s d l))"
proof -
  have typed: "t_typed b'" if "t_typed b" "t_connect s d l b = (x, b')" for b x b'
    using keepsD [OF keeps_t_typed that(1), of s d l] that(2) by simp
  show ?thesis
    unfolding triple_def
    by (auto simp: on_carrier_t_block_def routing_typed_def split: option.splits prod.splits sum.splits dest!: typed [rotated])
qed

lemma keeps_typed_on_b [keeps_intro]: "keeps routing_typed (on_bpl_t_block key idx (b_connect s d l))"
proof -
  have typed: "b_typed b'" if "b_typed b" "b_connect s d l b = (x, b')" for b x b'
    using keepsD [OF keeps_b_typed that(1), of s d l] that(2) by simp
  have "routing_typed r'" if r: "routing_typed r" and m: "on_bpl_t_block key idx (b_connect s d l) r = (x, r')" for r x r'
  proof (cases "bpl_t_blocks r (key, idx)")
    case None
    obtain b' where "b_connect s d l (bpl_dummy r) = (x, b')" "r' = r\<lparr>bpl_dummy := b'\<rparr>"
      using m None by (auto simp: on_bpl_t_block_def split: prod.splits)
    with r typed show ?thesis by (auto simp: routing_typed_def)
  next
    case (Some b)
    obtain b' where b': "b_connect s d l b = (x, b')" "r' = r\<lparr>bpl_t_blocks := (bpl_t_blocks r)((key, idx) := Some b')\<rparr>"
      using m Some by (auto simp: on_bpl_t_block_def split: prod.splits)
    have "b_typed b" using r Some by (simp add: routing_typed_def)
    then have "b_typed b'" using typed b'(1) by blast
    with r b'(2) show ?thesis by (simp add: routing_typed_def)
  qed
  then show ?thesis unfolding triple_def by (fastforce split: prod.splits sum.splits)
qed

lemma keeps_typed_route: "keeps routing_typed (route src dst)"
  unfolding route_def route_cluster_def route_carrier_def route_stack_def Let_def
  by (intro keeps_intro keeps_lift_res)

text \<open>
  C25. Routing keeps every switch block well-typed. Whatever locations are asked for, also when the request
  is refused half way, every carrier T-block keeps 24 lanes with 4 sectors, every backplane T-block 9
  sectors with 8 lanes, and every multiplexer is unset or selects an existing sector.
\<close>

theorem route_well_typed:
  assumes "routing_typed r"
  shows "routing_typed (snd (for_each reqs (\<lambda>(src, dst). route src dst) r))"
  using assms by (rule keepsD [rotated]) (auto intro!: keeps_intro keeps_typed_route)

lemma new_routing_typed: "routing_typed new_routing"
proof -
  have "t_typed new_tblock" "b_typed new_backplane_tblock"
    unfolding t_typed_def b_typed_def using new_tblock_shape new_backplane_tblock_shape
    by (auto simp: new_tblock_def new_backplane_tblock_def)
  then show ?thesis by (simp add: routing_typed_def new_routing_def)
qed

theorem route_well_typed_witness:
  "fst (route [0, 0, 0, 12] [2, 1, 1, 12] new_routing) = Inr () \<and>
   routing_typed (snd (for_each [([0, 0, 0, 12], [2, 1, 1, 12]), ([0, 0, 0, 40], [0])] (\<lambda>(src, dst). route src dst) new_routing))"
proof -
  have "fst (route [0, 0, 0, 12] [2, 1, 1, 12] new_routing) = Inr ()" by code_simp
  with route_well_typed [OF new_routing_typed] show ?thesis by blast
qed

end
