(* ===== verification/Transmission.thy ===== *)
theory Transmission
  imports Config Routing
begin

text \<open>
  Transfer of the configuration of a whole computer (base/hybrid/serializer.py,
  base/hybrid/utils.py, redac/protocol/serializer.py): the entity tree of a computer, its
  breadth-first traversal into a list of items, the dependency information for calibration, the
  dictionary of entities by path and the application of a list of items to it.

  An item is the printed path of its entity and its payload. The blocks of a cluster and of a carrier
  have the paths that \<open>_spec_cluster\<close> and \<open>_spec_carrier\<close> give them. The dictionary is a map from
  paths to entities; objects are changed in place through it.
\<close>

section \<open>The entity tree\<close>

datatype node = Node (n_path: path) (n_entity: config_entity) (n_children: "node list")

fun mblock_entity :: "mblock \<Rightarrow> config_entity" where
  "mblock_entity (MIntBlock b) = IntE b"
| "mblock_entity MMulBlock = MulE"
| "mblock_entity (MMDRBlock ops) = MdrE ops"
| "mblock_entity MBlock = MBlockE"

definition leaf :: "path \<Rightarrow> string \<Rightarrow> config_entity \<Rightarrow> node" where
  "leaf p name e = Node (p @ [PS name]) e []"

definition opt_leaf :: "path \<Rightarrow> string \<Rightarrow> config_entity option \<Rightarrow> node list" where
  "opt_leaf p name e = (case e of None \<Rightarrow> [] | Some e \<Rightarrow> [leaf p name e])"

definition cluster_node :: "cluster \<Rightarrow> node" where
  "cluster_node c =
     Node (cl_path c) ClusterE
       (opt_leaf (cl_path c) ''M0'' (map_option mblock_entity (cl_m0 c)) @
        opt_leaf (cl_path c) ''M1'' (map_option mblock_entity (cl_m1 c)) @
        [leaf (cl_path c) ''U'' (UBlockE (cl_u c)), leaf (cl_path c) ''C'' (CBlockE (cl_c c)),
         leaf (cl_path c) ''I'' (IBlockE (cl_i c))])"

definition carrier_node :: "carrier \<Rightarrow> node" where
  "carrier_node c =
     Node (cr_path c)
       (CarrierE \<lparr>cc_adc = cr_adc_config c, cc_acl = cr_acl_select c, cc_io = cr_front_panel_io c\<rparr>)
       (map cluster_node (cr_clusters c) @
        opt_leaf (cr_path c) ''T'' (map_option TBlockE (cr_tblock c)) @
        opt_leaf (cr_path c) ''ST0'' (map_option BplE (cr_st0 c)) @
        opt_leaf (cr_path c) ''ST1'' (map_option BplE (cr_st1 c)) @
        opt_leaf (cr_path c) ''ST2'' (map_option BplE (cr_st2 c)) @
        opt_leaf (cr_path c) ''FP'' (map_option FrontPlaneE (cr_front_plane c)))"

definition config_entities :: "redac \<Rightarrow> node list" where
  "config_entities r = map carrier_node (rd_carriers r)"

section \<open>Traversal and dictionary\<close>

lemma size_list_children: "size_list size (q @ cs) < size_list size (Node p e cs # q)"
  by (induction q) auto

text \<open>The loop over the queue: an entity is taken from the front, its children go to the back.\<close>

function bfs :: "node list \<Rightarrow> (path \<times> config_entity) list" where
  "bfs [] = []"
| "bfs (Node p e cs # q) = (p, e) # bfs (q @ cs)"
  by pat_completeness auto
termination
  by (relation "measure (size_list size)") (auto intro: size_list_children [simplified])

text \<open>\<open>_add_to_entity_path_dict\<close>: an entity, then its children, later entries replace earlier ones.\<close>

fun preorder :: "node \<Rightarrow> (path \<times> config_entity) list" where
  "preorder (Node p e cs) = (p, e) # concat (map preorder cs)"

definition build_entity_path_dict :: "node list \<Rightarrow> path \<rightharpoonup> config_entity" where
  "build_entity_path_dict ns = fold (\<lambda>(p, e) d. d(p \<mapsto> e)) (concat (map preorder ns)) (\<lambda>_. None)"

type_synonym store = "path \<rightharpoonup> config_entity"

definition get_entity :: "store \<Rightarrow> path \<Rightarrow> config_entity res" where
  "get_entity d p = (case d p of None \<Rightarrow> Inl EntityDoesNotExist | Some e \<Rightarrow> Inr e)"

lemma mset_bfs: "mset (bfs q) = mset (concat (map preorder q))"
proof (induction q rule: bfs.induct)
  case (2 p e cs q)
  then show ?case by (simp add: ac_simps)
qed simp

lemma dict_fold_map_of: "fold (\<lambda>(p, e) d. d(p \<mapsto> e)) xs d = d ++ map_of (rev xs)"
  by (induction xs arbitrary: d) (auto simp: fun_eq_iff map_add_def split: option.splits)

text \<open>\<open>serialize_configuration\<close> runs one such loop per top-level entity.\<close>

definition traversal :: "node list \<Rightarrow> (path \<times> config_entity) list" where
  "traversal ns = concat (map (\<lambda>n. bfs [n]) ns)"

lemma mset_traversal: "mset (traversal ns) = mset (concat (map preorder ns))"
  by (induction ns) (simp_all add: traversal_def mset_bfs)

text \<open>With distinct paths the dictionary holds exactly the entities that the traversal visits.\<close>

lemma dict_traversal:
  assumes "distinct (map fst (traversal ns))"
  shows "build_entity_path_dict ns p = Some e \<longleftrightarrow> (p, e) \<in> set (traversal ns)"
proof -
  let ?xs = "concat (map preorder ns)"
  have "mset (map fst (traversal ns)) = mset (map fst ?xs)"
    by (simp only: mset_map mset_traversal)
  then have "distinct (map fst ?xs)"
    using assms by (metis mset_eq_imp_distinct_iff)
  then have "distinct (map fst (rev ?xs))"
    by (simp only: rev_map [symmetric] distinct_rev)
  then have "map_of (rev ?xs) p = Some e \<longleftrightarrow> (p, e) \<in> set ?xs"
    by (simp only: map_of_eq_Some_iff set_rev)
  moreover have "set ?xs = set (traversal ns)"
    using mset_traversal [of ns] by (metis set_mset_mset)
  moreover have "build_entity_path_dict ns p = map_of (rev ?xs) p"
    by (simp only: build_entity_path_dict_def dict_fold_map_of) (simp add: map_add_def split: option.splits)
  ultimately show ?thesis
    by (simp only:)
qed

section \<open>Items\<close>

type_synonym item = "string \<times> payload option"

text \<open>
  The two loops, over the serializer and deserializer of single entities. Reading an item without
  payload does not look its entity up.
\<close>

definition collect :: "('e \<Rightarrow> 'p list res) \<Rightarrow> ('k \<Rightarrow> 's) \<Rightarrow> ('k \<times> 'e) list \<Rightarrow> ('s \<times> 'p) list res" where
  "collect ser print es =
     rbind (rmap (\<lambda>(k, e). rbind (ser e) (\<lambda>ps. Inr (map (Pair (print k)) ps))) es) (\<lambda>xss. Inr (concat xss))"

definition apply_to ::
    "('p \<Rightarrow> bool) \<Rightarrow> ('s \<Rightarrow> 'k res) \<Rightarrow> ('p \<Rightarrow> 'e \<Rightarrow> 'e res) \<Rightarrow> 's \<times> 'p \<Rightarrow> ('k \<rightharpoonup> 'e) \<Rightarrow> ('k \<rightharpoonup> 'e) res" where
  "apply_to skip parse des it d =
     (if skip (snd it) then Inr d
      else rbind (parse (fst it)) (\<lambda>k.
        case d k of None \<Rightarrow> Inl EntityDoesNotExist
        | Some e \<Rightarrow> rbind (des (snd it) e) (\<lambda>e'. Inr (d(k \<mapsto> e')))))"

definition serialize_entities :: "pb_wire \<Rightarrow> node list \<Rightarrow> item list res" where
  "serialize_entities w ns = collect (ser_entity w) path_str (traversal ns)"

text \<open>\<open>DependencyInfo\<close> has no handler: like an item without payload it is passed over.\<close>

definition ignored :: "payload option \<Rightarrow> bool" where
  "ignored p = (case p of None \<Rightarrow> True | Some (PDependency _ _ _) \<Rightarrow> True | _ \<Rightarrow> False)"

definition deserialize_configuration :: "item list \<Rightarrow> store \<Rightarrow> store res" where
  "deserialize_configuration its d =
     rfold (apply_to ignored (path_parse redac_schema (\<lambda>_. None)) des_item) its d"

text \<open>
  A transfer rests on two contracts: the name of an entity is read back as it was printed, and the
  payloads of one entity turn the receiver's entity into what the receiver should have.
\<close>

locale path_codec =
  fixes print :: "'k \<Rightarrow> 's" and parse :: "'s \<Rightarrow> 'k res" and named :: "'k \<Rightarrow> bool"
  assumes parse_print: "named k \<Longrightarrow> parse (print k) = Inr k"

locale entity_codec = path_codec print parse named
  for print :: "'k \<Rightarrow> 's" and parse :: "'s \<Rightarrow> 'k res" and named :: "'k \<Rightarrow> bool" +
  fixes ser :: "'e \<Rightarrow> 'p list res" and des :: "'p \<Rightarrow> 'e \<Rightarrow> 'e res" and skip :: "'p \<Rightarrow> bool"
    and ok :: "'e \<Rightarrow> bool" and fits :: "'e \<Rightarrow> 'e \<Rightarrow> bool" and recv :: "'e \<Rightarrow> 'e \<Rightarrow> 'e"
  assumes codec: "ok e \<Longrightarrow> fits e0 e \<Longrightarrow> \<exists>ps. ser e = Inr ps \<and> rfold des ps e0 = Inr (recv e0 e)"
    and skip_des: "skip p \<Longrightarrow> ser e = Inr ps \<Longrightarrow> p \<in> set ps \<Longrightarrow> des p e' = Inr e'"
begin

lemma apply_entity:
  assumes "named k" and "\<And>p e'. p \<in> set ps \<Longrightarrow> skip p \<Longrightarrow> des p e' = Inr e'"
    and "d k = Some e0" and "rfold des ps e0 = Inr e1"
  shows "rfold (apply_to skip parse des) (map (Pair (print k)) ps) d = Inr (d(k \<mapsto> e1))"
  using assms(2-4)
proof (induction ps arbitrary: d e0)
  case Nil
  then show ?case by (auto simp: fun_eq_iff)
next
  case (Cons p ps)
  from Cons.prems(3) obtain e' where e': "des p e0 = Inr e'" "rfold des ps e' = Inr e1"
    by (auto simp: rbind_eq_Inr_iff)
  have step: "apply_to skip parse des (print k, p) d = Inr (d(k \<mapsto> e'))"
  proof (cases "skip p")
    case True
    then have "e' = e0"
      using Cons.prems(1) [of p e0] e'(1) by simp
    then have "d(k \<mapsto> e') = d"
      using Cons.prems(2) by (auto simp: fun_eq_iff)
    with True show ?thesis by (simp add: apply_to_def)
  next
    case False
    then show ?thesis
      using Cons.prems(2) e'(1) by (simp add: apply_to_def parse_print [OF assms(1)])
  qed
  have "rfold (apply_to skip parse des) (map (Pair (print k)) ps) (d(k \<mapsto> e')) = Inr ((d(k \<mapsto> e'))(k \<mapsto> e1))"
    by (rule Cons.IH) (use Cons.prems(1) e'(2) in auto)
  with step show ?case by (auto simp: fun_upd_def)
qed

text \<open>
  The transfer of distinct entities succeeds, gives every entity that was sent its received value
  and leaves the others as they were.
\<close>

lemma transfer:
  assumes "distinct (map fst es)" and "\<And>k e. (k, e) \<in> set es \<Longrightarrow> named k \<and> ok e \<and> (\<exists>e0. d k = Some e0 \<and> fits e0 e)"
  shows "\<exists>its d'. collect ser print es = Inr its \<and> rfold (apply_to skip parse des) its d = Inr d' \<and>
    (\<forall>k e. (k, e) \<in> set es \<longrightarrow> d' k = Some (recv (the (d k)) e)) \<and> (\<forall>k. k \<notin> fst ` set es \<longrightarrow> d' k = d k)"
  using assms
proof (induction es arbitrary: d)
  case Nil
  then show ?case by (simp add: collect_def)
next
  case (Cons x es)
  obtain k e where x: "x = (k, e)" by fastforce
  from Cons.prems(2) [of k e] obtain e0 where k: "named k" "ok e" "d k = Some e0" "fits e0 e"
    by (auto simp: x)
  obtain ps where ps: "ser e = Inr ps" "rfold des ps e0 = Inr (recv e0 e)"
    using codec [OF k(2,4)] by blast
  let ?d = "d(k \<mapsto> recv e0 e)"
  have first: "rfold (apply_to skip parse des) (map (Pair (print k)) ps) d = Inr ?d"
    using k(1) _ k(3) ps(2) by (rule apply_entity) (use skip_des ps(1) in blast)
  have keep: "?d k' = d k'" if "k' \<in> fst ` set es" for k'
    using that Cons.prems(1) by (auto simp: x)
  have "named k' \<and> ok e' \<and> (\<exists>e0. ?d k' = Some e0 \<and> fits e0 e')" if "(k', e') \<in> set es" for k' e'
    using Cons.prems(2) [of k' e'] that keep [of k'] by (force simp del: fun_upd_apply)
  then obtain its d' where IH: "collect ser print es = Inr its" "rfold (apply_to skip parse des) its ?d = Inr d'"
      "\<forall>k e. (k, e) \<in> set es \<longrightarrow> d' k = Some (recv (the (?d k)) e)" "\<forall>k. k \<notin> fst ` set es \<longrightarrow> d' k = ?d k"
    using Cons.IH [of ?d] Cons.prems(1) by (auto simp del: fun_upd_apply)
  have "collect ser print (x # es) = Inr (map (Pair (print k)) ps @ its)"
    using IH(1) ps(1) by (auto simp: collect_def x rbind_eq_Inr_iff)
  moreover have "rfold (apply_to skip parse des) (map (Pair (print k)) ps @ its) d = Inr d'"
    by (simp add: rfold_append first IH(2))
  moreover have "d' k' = Some (recv (the (d k')) e')" if "(k', e') \<in> set (x # es)" for k' e'
  proof (cases "(k', e') \<in> set es")
    case True
    then have "k' \<in> fst ` set es" by force
    with True IH(3) keep show ?thesis by (metis (no_types, lifting))
  next
    case False
    with that have "k' = k" "e' = e" by (auto simp: x)
    moreover have "k \<notin> fst ` set es"
      using Cons.prems(1) by (auto simp: x)
    ultimately show ?thesis
      using IH(4) k(3) by simp
  qed
  moreover have "d' k' = d k'" if "k' \<notin> fst ` set (x # es)" for k'
    using that IH(4) by (simp add: x)
  ultimately show ?case by blast
qed

end

definition addressable :: "path \<Rightarrow> bool" where
  "addressable p \<longleftrightarrow> canonical_path p"

interpretation redac_paths: path_codec path_str "path_parse redac_schema (\<lambda>_. None)" addressable
  by unfold_locales (simp add: addressable_def path_parse_path_str)

lemma ser_entity_no_dependency:
  "ser_entity w e = Inr ps \<Longrightarrow> Some (PDependency a b c) \<notin> set ps"
  by (cases e) (auto simp: ser_carrier_def ser_mdr_def ser_mint_def ser_i_def ser_u_def ser_c_def ser_t_def
      ser_b_def ser_fp_def res_simps split: option.splits list.splits if_splits)

interpretation redac_config: entity_codec path_str "path_parse redac_schema (\<lambda>_. None)" addressable
    "ser_entity w" des_item ignored "\<lambda>e. wire_ok w \<and> sendable e" same_board "received w" for w
proof unfold_locales
  show "\<exists>ps. ser_entity w e = Inr ps \<and> rfold des_item ps e0 = Inr (received w e0 e)"
    if "wire_ok w \<and> sendable e" "same_board e0 e" for e e0
    using that entity_roundtrip by blast
  show "des_item p e' = Inr e'" if "ignored p" "ser_entity w e = Inr ps" "p \<in> set ps" for p e ps e'
    using that(1) ser_entity_no_dependency [OF that(2)] that(3)
    by (auto simp: ignored_def des_item_def split: option.splits payload.splits)
qed

section \<open>Dependency information\<close>

text \<open>
  A computation with fuel: \<open>None\<close> when \<open>find_coef\<close> did not return, otherwise a result.
\<close>

definition dbind :: "'a res option \<Rightarrow> ('a \<Rightarrow> 'b res option) \<Rightarrow> 'b res option" where
  "dbind m f = (case m of None \<Rightarrow> None | Some (Inl e) \<Rightarrow> Some (Inl e) | Some (Inr a) \<Rightarrow> f a)"

fun dfold :: "('a \<Rightarrow> 's \<Rightarrow> 's res option) \<Rightarrow> 'a list \<Rightarrow> 's \<Rightarrow> 's res option" where
  "dfold f [] s = Some (Inr s)"
| "dfold f (x # xs) s = dbind (f x s) (dfold f xs)"

text \<open>Python's stable \<open>sorted\<close> by location.\<close>

fun insert_by_loc :: "(loc \<times> 'a) \<Rightarrow> (loc \<times> 'a) list \<Rightarrow> (loc \<times> 'a) list" where
  "insert_by_loc x [] = [x]"
| "insert_by_loc x (y # ys) = (if loc_less (fst y) (fst x) then y # insert_by_loc x ys else x # y # ys)"

definition sorted_by_loc :: "(loc \<times> 'a) list \<Rightarrow> (loc \<times> 'a) list" where
  "sorted_by_loc xs = foldr insert_by_loc xs []"

text \<open>\<open>loc2carrier_idx\<close>: the dictionary numbers the carriers in the order of their first use.\<close>

definition loc2carrier_idx :: "loc \<Rightarrow> loc list \<Rightarrow> (int \<times> loc list) res" where
  "loc2carrier_idx l nodes =
     rbind (loc_carrier l) (\<lambda>c.
     Inr (case first_index (\<lambda>x. x = c) nodes of
            Some i \<Rightarrow> (int i, nodes) | None \<Rightarrow> (int (length nodes), nodes @ [c])))"

definition loc2trace_lane :: "loc \<Rightarrow> loc list \<Rightarrow> ((int \<times> int \<times> int) \<times> loc list) res" where
  "loc2trace_lane l nodes =
     rbind (loc2carrier_idx l nodes) (\<lambda>(i, nodes).
     rbind (cluster_id l) (\<lambda>k. rbind (lane_id l) (\<lambda>n. Inr ((i, k, n), nodes))))"

type_synonym trace_lane = "int \<times> int \<times> int"

record dep_state =
  dp_nodes :: "loc list"
  dp_traces :: "(trace_lane \<times> trace_lane \<times> bool) list"
  dp_active :: int

definition shl1 :: "int \<Rightarrow> int res" where
  "shl1 n = (if n < 0 then Inl ValueError else Inr (2 ^ nat n))"

definition add_sink :: "loc \<Rightarrow> loc \<Rightarrow> bool \<Rightarrow> dep_state \<Rightarrow> dep_state res" where
  "add_sink src sink up d =
     rbind (rbind (lane_id sink) shl1) (\<lambda>b1.
     rbind (rbind (lane_id src) shl1) (\<lambda>b2.
     rbind (loc2trace_lane src (dp_nodes d)) (\<lambda>(s, nodes).
     rbind (loc2trace_lane sink nodes) (\<lambda>(t, nodes).
     Inr \<lparr>dp_nodes = nodes, dp_traces = dp_traces d @ [(s, t, up)],
          dp_active = Bit_Operations.or (Bit_Operations.or (dp_active d) b1) b2\<rparr>))))"

definition dep_lane :: "nat \<Rightarrow> routing \<Rightarrow> redac \<Rightarrow> cluster \<Rightarrow> int \<Rightarrow> dep_state \<Rightarrow> dep_state res option" where
  "dep_lane fuel rt r cl lane d =
     dbind (Some (entity_loc (cl_location cl))) (\<lambda>l. let target = loc_div l lane in
     dbind (find_coef fuel rt target) (\<lambda>source. case source of
        None \<Rightarrow> Some (Inr d)
      | Some source \<Rightarrow>
          dbind (Some (lane_id target)) (\<lambda>target_lane.
          if \<not> (\<exists>S\<in>set (i_outputs (cl_i cl)). target_lane \<in> S) then Some (Inr d)
          else
            dbind (Some (rbind (loc_cluster source) (\<lambda>c. find_cluster c r))) (\<lambda>(i, j).
            dbind (Some (rbind (lane_id source) (py_get (u_outputs (cl_u (cluster_at i j r)))))) (\<lambda>select.
            if select = Some (- 1) \<or> select = None then Some (Inr d)
            else dbind (Some (py_get (i_upscaling (cl_i cl)) target_lane)) (\<lambda>up.
                 Some (add_sink source target up d)))))))"

definition dep_traces :: "nat \<Rightarrow> routing \<Rightarrow> redac \<Rightarrow> dep_state \<Rightarrow> dep_state res option" where
  "dep_traces fuel rt r d =
     dfold (\<lambda>cr. dfold (\<lambda>cl. dfold (dep_lane fuel rt r cl) [0..31]) (cr_clusters cr)) (rd_carriers r) d"

definition located_carriers :: "redac \<Rightarrow> (loc \<times> carrier) list res" where
  "located_carriers r = rmap (\<lambda>c. rbind (entity_loc (cr_location c)) (\<lambda>l. Inr (l, c))) (rd_carriers r)"

text \<open>
  The carriers in the order of their locations: their numbers, their paths, and the tracer that
  knows their T-blocks.
\<close>

fun dep_start :: "(loc \<times> carrier) list \<Rightarrow> loc list \<Rightarrow> (routing, string list \<times> loc list) pym" where
  "dep_start [] nodes = ret ([], nodes)"
| "dep_start ((l, c) # cs) nodes =
     sbind (lift_res (loc2carrier_idx l nodes)) (\<lambda>(_, nodes).
     sbind (add_carrier c) (\<lambda>_.
     sbind (dep_start cs nodes) (\<lambda>(ids, nodes). ret (path_str (cr_path c) # ids, nodes))))"

definition dep_message :: "string list \<Rightarrow> dep_state \<Rightarrow> carrier \<Rightarrow> item res" where
  "dep_message ids d c =
     rbind (entity_loc (cr_location c)) (\<lambda>l.
     rbind (loc2carrier_idx l (dp_nodes d)) (\<lambda>(n, _).
     Inr (path_str (cr_path c),
       Some (PDependency ids (filter (\<lambda>(s, t, up). fst s = n \<or> fst t = n) (dp_traces d)) (dp_active d)))))"

definition serialize_dependency_info :: "nat \<Rightarrow> redac \<Rightarrow> routing \<Rightarrow> item list res option \<times> routing" where
  "serialize_dependency_info fuel r rt =
     (case located_carriers r of
        Inl e \<Rightarrow> (Some (Inl e), rt)
      | Inr cs \<Rightarrow>
          (case dep_start (sorted_by_loc cs) [] rt of
             (Inl e, rt) \<Rightarrow> (Some (Inl e), rt)
           | (Inr (ids, nodes), rt) \<Rightarrow>
               (dbind (dep_traces fuel rt r \<lparr>dp_nodes = nodes, dp_traces = [], dp_active = 0\<rparr>) (\<lambda>d.
                Some (rmap (dep_message ids d) (rd_carriers r))), rt)))"

definition serialize_configuration :: "nat \<Rightarrow> pb_wire \<Rightarrow> redac \<Rightarrow> routing \<Rightarrow> item list res option \<times> routing" where
  "serialize_configuration fuel w r rt =
     (case serialize_entities w (config_entities r) of
        Inl e \<Rightarrow> (Some (Inl e), rt)
      | Inr its \<Rightarrow>
          (case serialize_dependency_info fuel r rt of
             (m, rt) \<Rightarrow> (dbind m (\<lambda>deps. Some (Inr (its @ deps))), rt)))"

lemma dbind_eq_Inr_iff: "dbind m f = Some (Inr b) \<longleftrightarrow> (\<exists>a. m = Some (Inr a) \<and> f a = Some (Inr b))"
  by (auto simp: dbind_def split: option.splits sum.splits)

lemma dfold_invariant:
  assumes "dfold f xs s = Some (Inr s')" and "I s"
    and "\<And>x s s'. x \<in> set xs \<Longrightarrow> I s \<Longrightarrow> f x s = Some (Inr s') \<Longrightarrow> I s'"
  shows "I s'"
  using assms by (induction xs arbitrary: s) (auto simp: dbind_eq_Inr_iff)

lemma mset_insert_by_loc: "mset (insert_by_loc x xs) = add_mset x (mset xs)"
  by (induction xs) auto

lemma mset_sorted_by_loc: "mset (sorted_by_loc xs) = mset xs"
  by (induction xs) (simp_all add: sorted_by_loc_def mset_insert_by_loc)

lemma length_find_coef: "find_coef fuel rt l = Some (Inr (Some s)) \<Longrightarrow> length s = 4"
proof -
  have "trace m n r vis a b c d = Some (Inr (Some s)) \<Longrightarrow> length s = 4" for m n r vis a b c d
    by (induction m n r vis a b c d rule: trace.induct)
      (auto split: if_splits option.splits sum.splits walk.splits)
  then show "find_coef fuel rt l = Some (Inr (Some s)) \<Longrightarrow> length s = 4"
    by (auto simp: find_coef_def split: list.splits if_splits)
qed

lemma first_index_known:
  assumes "distinct xs" and "i < length xs"
  shows "first_index (\<lambda>x. x = xs ! i) xs = Some i"
proof -
  obtain k where k: "first_index (\<lambda>x. x = xs ! i) xs = Some k"
    using first_index_Some_ex [of "xs ! i" xs "\<lambda>x. x = xs ! i"] assms(2) by auto
  then have "k < length xs" "xs ! k = xs ! i"
    by (auto dest: first_index_SomeD)
  with assms k show ?thesis
    by (simp add: nth_eq_iff_index_eq)
qed

lemma loc2carrier_idx_known:
  assumes "L \<in> set nodes" and "length L = 2" and "take 2 l = L" and "distinct nodes"
  shows "\<exists>i. i < length nodes \<and> nodes ! i = L \<and> loc2carrier_idx l nodes = Inr (int i, nodes)"
proof -
  obtain i where i: "i < length nodes" "nodes ! i = L"
    using assms(1) by (auto simp: in_set_conv_nth)
  moreover have "loc_carrier l = Inr L"
    using assms(2,3) by (auto simp: loc_prefix_def)
  ultimately show ?thesis
    using first_index_known [OF assms(4) i(1)] by (auto simp: loc2carrier_idx_def)
qed

text \<open>
  The board positions as \<open>_spec_carrier\<close> assigns them: every carrier has its own location of two
  numbers, every cluster that of its carrier followed by its number.
\<close>

definition boards_located :: "redac \<Rightarrow> bool" where
  "boards_located r \<longleftrightarrow>
     distinct (map cr_location (rd_carriers r)) \<and>
     (\<forall>c \<in> set (rd_carriers r). \<exists>s n. cr_location c = Some [s, n] \<and>
       (\<forall>cl \<in> set (cr_clusters c). \<exists>k. cl_location cl = Some [s, n, k]))"

lemma dep_start_result:
  assumes "dep_start cs nodes rt = (Inr (ids, nodes'), rt')"
    and "distinct (nodes @ map fst cs)" and "\<forall>(l, c) \<in> set cs. length l = 2"
  shows "ids = map (\<lambda>(l, c). path_str (cr_path c)) cs \<and> nodes' = nodes @ map fst cs"
  using assms
proof (induction cs arbitrary: nodes rt ids)
  case Nil
  then show ?case by (simp add: ret_def)
next
  case (Cons x cs)
  obtain l c where x: "x = (l, c)" by fastforce
  have "loc2carrier_idx l nodes = Inr (int (length nodes), nodes @ [l])"
    using Cons.prems(2,3) by (auto simp: x loc2carrier_idx_def loc_prefix_def split: option.splits dest!: first_index_SomeD)
  with Cons.prems(1) obtain rt1 ids' where ds: "dep_start cs (nodes @ [l]) rt1 = (Inr (ids', nodes'), rt')" "ids = path_str (cr_path c) # ids'"
    by (auto simp: x sbind_Inr_iff ret_def)
  show ?case
    using Cons.IH [OF ds(1)] Cons.prems(2,3) ds(2) by (simp add: x)
qed

definition trace_ok :: "nat \<Rightarrow> routing \<Rightarrow> redac \<Rightarrow> loc list \<Rightarrow> int \<Rightarrow> trace_lane \<times> trace_lane \<times> bool \<Rightarrow> bool" where
  "trace_ok fuel rt r nodes active = (\<lambda>((i, k, l), (j, k', l'), up).
     0 \<le> i \<and> i < int (length nodes) \<and> 0 \<le> j \<and> j < int (length nodes) \<and>
     find_coef fuel rt (nodes ! nat j @ [k', l']) = Some (Inr (Some (nodes ! nat i @ [k, l]))) \<and>
     bit active (nat l) \<and> bit active (nat l') \<and>
     (\<exists>c \<in> set (rd_carriers r). \<exists>cl \<in> set (cr_clusters c).
        cl_location cl = Some (nodes ! nat j @ [k']) \<and> (\<exists>S \<in> set (i_outputs (cl_i cl)). l' \<in> S) \<and>
        py_get (i_upscaling (cl_i cl)) l' = Inr up))"

lemma add_sink_ok:
  assumes "add_sink [a, b, k, l] [a', b', k', l'] up d = Inr d'" and "distinct (dp_nodes d)"
    and "[a, b] \<in> set (dp_nodes d)" and "[a', b'] \<in> set (dp_nodes d)"
  shows "\<exists>i j. i < length (dp_nodes d) \<and> j < length (dp_nodes d) \<and> dp_nodes d ! i = [a, b] \<and> dp_nodes d ! j = [a', b'] \<and>
    d' = \<lparr>dp_nodes = dp_nodes d, dp_traces = dp_traces d @ [((int i, k, l), (int j, k', l'), up)],
      dp_active = Bit_Operations.or (Bit_Operations.or (dp_active d) (2 ^ nat l')) (2 ^ nat l)\<rparr>"
proof -
  obtain i where i: "i < length (dp_nodes d)" "dp_nodes d ! i = [a, b]" "loc2carrier_idx [a, b, k, l] (dp_nodes d) = Inr (int i, dp_nodes d)"
    using loc2carrier_idx_known [OF assms(3) _ _ assms(2), of "[a, b, k, l]"] by auto
  obtain j where j: "j < length (dp_nodes d)" "dp_nodes d ! j = [a', b']" "loc2carrier_idx [a', b', k', l'] (dp_nodes d) = Inr (int j, dp_nodes d)"
    using loc2carrier_idx_known [OF assms(4) _ _ assms(2), of "[a', b', k', l']"] by auto
  show ?thesis
    using assms(1) i j
    by (intro exI [of _ i] exI [of _ j]) (auto simp: add_sink_def shl1_def loc2trace_lane_def rbind_eq_Inr_iff split: if_splits)
qed

lemma trace_ok_more_active:
  "trace_ok fuel rt r nodes a t \<Longrightarrow> trace_ok fuel rt r nodes (Bit_Operations.or (Bit_Operations.or a b) c) t"
  by (auto simp: trace_ok_def bit_or_iff)

definition dep_inv :: "nat \<Rightarrow> routing \<Rightarrow> redac \<Rightarrow> loc list \<Rightarrow> dep_state \<Rightarrow> bool" where
  "dep_inv fuel rt r nodes d \<longleftrightarrow> dp_nodes d = nodes \<and> (\<forall>t \<in> set (dp_traces d). trace_ok fuel rt r nodes (dp_active d) t)"

lemma dep_lane_inv:
  assumes "dep_lane fuel rt r cl lane d = Some (Inr d')" and "dep_inv fuel rt r nodes d"
    and "cr \<in> set (rd_carriers r)" and "cl \<in> set (cr_clusters cr)"
    and "cr_location cr = Some [a', b']" and "cl_location cl = Some [a', b', k']"
    and "distinct nodes" and nodes: "Some ` set nodes = cr_location ` set (rd_carriers r)"
  shows "dep_inv fuel rt r nodes d'"
proof (cases "d' = d")
  case False
  from assms(1,6) obtain so where so: "find_coef fuel rt [a', b', k', lane] = Some (Inr so)"
    by (auto simp: dep_lane_def dbind_eq_Inr_iff entity_loc_def loc_div_def Let_def)
  with False assms(1,6) obtain src i j up where f: "find_coef fuel rt [a', b', k', lane] = Some (Inr (Some src))"
    and S: "\<exists>S\<in>set (i_outputs (cl_i cl)). lane \<in> S" and c: "rbind (loc_cluster src) (\<lambda>c. find_cluster c r) = Inr (i, j)"
    and up: "py_get (i_upscaling (cl_i cl)) lane = Inr up" and add: "add_sink src [a', b', k', lane] up d = Inr d'"
    by (cases so) (auto simp: dep_lane_def dbind_eq_Inr_iff entity_loc_def loc_div_def Let_def split: if_splits)
  obtain a b k l where src: "src = [a, b, k, l]"
    using length_find_coef [OF f] by (auto simp: numeral_eq_Suc length_Suc_conv)
  obtain x where "x \<in> set (rd_carriers r)" "cr_location x = Some [a, b]"
    using c by (auto simp: src find_cluster_def split: if_splits option.splits dest!: first_index_SomeD intro: nth_mem)
  then have "Some [a, b] \<in> Some ` set nodes"
    using nodes by (metis image_eqI)
  moreover have "Some [a', b'] \<in> Some ` set nodes"
    using nodes assms(3,5) by (metis image_eqI)
  moreover have n: "dp_nodes d = nodes"
    using assms(2) by (simp add: dep_inv_def)
  ultimately obtain p q where pq: "p < length nodes" "q < length nodes" "nodes ! p = [a, b]" "nodes ! q = [a', b']"
    "d' = \<lparr>dp_nodes = nodes, dp_traces = dp_traces d @ [((int p, k, l), (int q, k', lane), up)],
      dp_active = Bit_Operations.or (Bit_Operations.or (dp_active d) (2 ^ nat lane)) (2 ^ nat l)\<rparr>"
    using add_sink_ok [of a b k l a' b' k' lane up d d'] add assms(7) by (auto simp: src)
  have "trace_ok fuel rt r nodes (dp_active d') ((int p, k, l), (int q, k', lane), up)"
    using pq f S up assms(3,4,6) by (force simp: trace_ok_def src bit_or_iff bit_exp_iff)
  then show ?thesis
    using assms(2) pq(5) by (auto simp: dep_inv_def intro: trace_ok_more_active)
qed (use assms(2) in simp)

lemma dep_traces_inv:
  assumes "dep_traces fuel rt r d = Some (Inr d')" and "dep_inv fuel rt r nodes d" and "boards_located r"
    and "distinct nodes" and "Some ` set nodes = cr_location ` set (rd_carriers r)"
  shows "dep_inv fuel rt r nodes d'"
  using assms(1) [unfolded dep_traces_def] assms(2)
proof (rule dfold_invariant)
  fix cr s s'
  assume cr: "cr \<in> set (rd_carriers r)" "dep_inv fuel rt r nodes s"
    and f: "dfold (\<lambda>cl. dfold (dep_lane fuel rt r cl) [0..31]) (cr_clusters cr) s = Some (Inr s')"
  obtain a b where ab: "cr_location cr = Some [a, b]" "\<forall>cl \<in> set (cr_clusters cr). \<exists>k. cl_location cl = Some [a, b, k]"
    using assms(3) cr(1) by (auto simp: boards_located_def)
  show "dep_inv fuel rt r nodes s'"
    using f cr(2)
  proof (rule dfold_invariant)
    fix cl u u'
    assume cl: "cl \<in> set (cr_clusters cr)" "dep_inv fuel rt r nodes u" "dfold (dep_lane fuel rt r cl) [0..31] u = Some (Inr u')"
    from ab(2) cl(1) obtain k where "cl_location cl = Some [a, b, k]" by blast
    then have "dep_inv fuel rt r nodes v'" if "dep_inv fuel rt r nodes v" "dep_lane fuel rt r cl lane v = Some (Inr v')" for lane v v'
      using dep_lane_inv [OF that(2,1) cr(1) cl(1) ab(1) _ assms(4,5)] by blast
    with cl(3,2) show "dep_inv fuel rt r nodes u'"
      by (rule dfold_invariant)
  qed
qed

lemma located_carriers_eq:
  assumes "located_carriers r = Inr cs"
  shows "map snd cs = rd_carriers r" and "\<forall>(l, c) \<in> set cs. cr_location c = Some l"
proof -
  have "map snd cs = xs \<and> (\<forall>(l, c) \<in> set cs. cr_location c = Some l)"
    if "rmap (\<lambda>c. rbind (entity_loc (cr_location c)) (\<lambda>l. Inr (l, c))) xs = Inr cs" for xs
    using that by (induction xs arbitrary: cs) (auto simp: rbind_eq_Inr_iff entity_loc_def split: option.splits)
  then show "map snd cs = rd_carriers r" and "\<forall>(l, c) \<in> set cs. cr_location c = Some l"
    using assms by (auto simp: located_carriers_def)
qed

lemma sorted_carriers:
  assumes "located_carriers r = Inr cs" and "boards_located r"
  shows "distinct (map fst (sorted_by_loc cs))" and "Some ` set (map fst (sorted_by_loc cs)) = cr_location ` set (rd_carriers r)"
    and "\<forall>(l, c) \<in> set (sorted_by_loc cs). length l = 2 \<and> c \<in> set (rd_carriers r) \<and> cr_location c = Some l"
proof -
  note eq = located_carriers_eq [OF assms(1)]
  have set: "set (sorted_by_loc cs) = set cs"
    using mset_sorted_by_loc [of cs] by (metis set_mset_mset)
  have "map Some (map fst cs) = map cr_location (map snd cs)"
    using eq(2) by auto
  then have "distinct (map Some (map fst cs))"
    using assms(2) eq(1) by (simp add: boards_located_def)
  then have "distinct (map fst cs)"
    by (rule distinct_map [THEN iffD1, THEN conjunct1])
  moreover have "mset (map fst (sorted_by_loc cs)) = mset (map fst cs)"
    by (simp only: mset_map mset_sorted_by_loc)
  ultimately show "distinct (map fst (sorted_by_loc cs))"
    by (metis mset_eq_imp_distinct_iff)
  have "Some ` set (map fst cs) = cr_location ` set (map snd cs)"
    using eq(2) by (force simp: image_iff)
  then show "Some ` set (map fst (sorted_by_loc cs)) = cr_location ` set (rd_carriers r)"
    by (simp add: set eq(1) [symmetric] image_image)
  show "\<forall>(l, c) \<in> set (sorted_by_loc cs). length l = 2 \<and> c \<in> set (rd_carriers r) \<and> cr_location c = Some l"
  proof clarify
    fix l c
    assume "(l, c) \<in> set (sorted_by_loc cs)"
    then have "c \<in> set (rd_carriers r) \<and> cr_location c = Some l"
      using eq set by (force simp: eq(1) [symmetric])
    then show "length l = 2 \<and> c \<in> set (rd_carriers r) \<and> cr_location c = Some l"
      using assms(2) by (fastforce simp: boards_located_def)
  qed
qed

text \<open>The entry of the message's list of carriers at an index, and the one of the receiver.\<close>

lemma carrier_entry:
  assumes "located_carriers r = Inr cs" "boards_located r" and x: "x \<in> set (rd_carriers r)" "cr_location x = Some L0"
    and idx: "loc2carrier_idx L0 (map fst (sorted_by_loc cs)) = Inr (n, nn)" and a: "0 \<le> a" "a < int (length (sorted_by_loc cs))"
  shows "\<exists>c \<in> set (rd_carriers r). py_get (map (\<lambda>(l, c). path_str (cr_path c)) (sorted_by_loc cs)) a = Inr (path_str (cr_path c)) \<and>
    cr_location c = Some (map fst (sorted_by_loc cs) ! nat a) \<and> (a = n \<longrightarrow> c = x)"
proof -
  let ?cs = "sorted_by_loc cs"
  note sc = sorted_carriers [OF assms(1,2)]
  have na: "nat a < length ?cs" using a by simp
  obtain L c where c: "?cs ! nat a = (L, c)" by fastforce
  have lc: "c \<in> set (rd_carriers r)" "cr_location c = Some L"
    using sc(3) na c by (metis (mono_tags, lifting) case_prodD nth_mem)+
  moreover have "py_get (map (\<lambda>(l, c). path_str (cr_path c)) ?cs) a = Inr (path_str (cr_path c))" "map fst ?cs ! nat a = L"
    using a na c by simp_all
  moreover have "c = x" if "a = n"
  proof -
    have "Some L0 \<in> Some ` set (map fst ?cs)"
      unfolding sc(2) using x by (metis image_eqI)
    then have L0: "L0 \<in> set (map fst ?cs)" "length L0 = 2"
      using sc(3) by auto
    obtain q where "q < length (map fst ?cs)" "map fst ?cs ! q = L0" "n = int q"
      using loc2carrier_idx_known [OF L0, of L0] sc(1) idx L0(2) by auto
    with that \<open>map fst ?cs ! nat a = L\<close> have "cr_location c = cr_location x"
      using x(2) lc(2) by simp
    then show "c = x"
      using assms(2) lc(1) x(1) by (auto simp: boards_located_def distinct_map dest: inj_onD)
  qed
  ultimately show ?thesis by blast
qed


section \<open>Transfer of a whole configuration\<close>

lemma apply_ignored: "(\<And>it. it \<in> set its \<Longrightarrow> ignored (snd it)) \<Longrightarrow> deserialize_configuration its d = Inr d"
  unfolding deserialize_configuration_def by (induction its) (auto simp: apply_to_def)

lemma dependency_ignored:
  assumes "serialize_dependency_info fuel r rt = (Some (Inr its), rt')" and "it \<in> set its"
  shows "ignored (snd it)"
proof -
  obtain ids d where "rmap (dep_message ids d) (rd_carriers r) = Inr its"
    using assms(1) by (auto simp: serialize_dependency_info_def dbind_eq_Inr_iff split: sum.splits prod.splits)
  from rmap_member [OF this assms(2)] show ?thesis
    by (auto simp: dep_message_def rbind_eq_Inr_iff ignored_def)
qed

text \<open>The receiver knows every entity of the sender and has the same board in its place.\<close>

definition receivable :: "node list \<Rightarrow> store \<Rightarrow> bool" where
  "receivable ns d \<longleftrightarrow>
     distinct (map fst (traversal ns)) \<and>
     (\<forall>(p, e) \<in> set (traversal ns). canonical_path p \<and> sendable e \<and>
        (case d p of None \<Rightarrow> False | Some e0 \<Rightarrow> same_board e0 e))"

lemma entities_transfer:
  assumes "wire_ok w" and "receivable ns d"
  shows "\<exists>its d'. serialize_entities w ns = Inr its \<and> deserialize_configuration its d = Inr d' \<and>
    (\<forall>p e. (p, e) \<in> set (traversal ns) \<longrightarrow> d' p = Some (received w (the (d p)) e)) \<and>
    (\<forall>p. p \<notin> fst ` set (traversal ns) \<longrightarrow> d' p = d p)"
  unfolding serialize_entities_def deserialize_configuration_def
proof (rule redac_config.transfer)
  show "distinct (map fst (traversal ns))"
    using assms(2) by (simp add: receivable_def)
  show "addressable p \<and> (wire_ok w \<and> sendable e) \<and> (\<exists>e0. d p = Some e0 \<and> same_board e0 e)" if "(p, e) \<in> set (traversal ns)" for p e
    using assms that by (fastforce simp: receivable_def addressable_def split: option.splits)
qed

lemma configuration_applied:
  assumes "wire_ok w" and "receivable (config_entities r) d"
    and "serialize_configuration fuel w r rt = (Some (Inr its), rt')"
  shows "\<exists>d'. deserialize_configuration its d = Inr d' \<and>
    (\<forall>p e. (p, e) \<in> set (traversal (config_entities r)) \<longrightarrow> d' p = Some (received w (the (d p)) e)) \<and>
    (\<forall>p. p \<notin> fst ` set (traversal (config_entities r)) \<longrightarrow> d' p = d p)"
proof -
  obtain its1 d' where e: "serialize_entities w (config_entities r) = Inr its1" "deserialize_configuration its1 d = Inr d'"
    "\<forall>p e. (p, e) \<in> set (traversal (config_entities r)) \<longrightarrow> d' p = Some (received w (the (d p)) e)"
    "\<forall>p. p \<notin> fst ` set (traversal (config_entities r)) \<longrightarrow> d' p = d p"
    using entities_transfer [OF assms(1,2)] by blast
  obtain its2 where i: "serialize_dependency_info fuel r rt = (Some (Inr its2), rt')" "its = its1 @ its2"
    using assms(3) e(1) by (auto simp: serialize_configuration_def dbind_eq_Inr_iff split: prod.splits)
  have "deserialize_configuration its2 d' = Inr d'"
    using dependency_ignored [OF i(1)] by (rule apply_ignored)
  then have "deserialize_configuration its d = Inr d'"
    using e(2) by (simp add: i(2) deserialize_configuration_def rfold_append)
  with e(3,4) show ?thesis by blast
qed

text \<open>
  Transfer of a configuration. Whenever the serializer produces the items of a computer, the
  deserializer applies all of them to a computer with the same boards: every entity of the sender
  is found by its printed path and gets its received value, and no other entity changes. The
  dependency information at the end of the list does not disturb the configuration.
\<close>

theorem configuration_transfer:
  assumes "wire_ok w" and "receivable (config_entities r) d"
    and "serialize_configuration fuel w r rt = (Some (Inr its), rt')"
  shows "\<exists>d'. deserialize_configuration its d = Inr d' \<and>
    (\<forall>p e. (p, e) \<in> set (traversal (config_entities r)) \<longrightarrow> d' p = Some (received w (the (d p)) e)) \<and>
    (\<forall>p. p \<notin> fst ` set (traversal (config_entities r)) \<longrightarrow> d' p = d p)"
  using assms by (rule configuration_applied)

text \<open>
  What the messages can express without loss: numbers that a float field holds, a constant among
  0, 0.1, -0.1 and 1, at least one connection wherever the serializer sends nothing for an empty
  block, an ADC and an ACL selection, and no modes of the front panel.
\<close>

definition lossless :: "pb_wire \<Rightarrow> config_entity \<Rightarrow> config_entity \<Rightarrow> bool" where
  "lossless w e0 e =
     (case e of
        CarrierE c \<Rightarrow> cc_adc c \<noteq> [] \<and> None \<notin> set (cc_adc c) \<and>
          (\<exists>xs. cc_acl c = Some xs \<and> xs \<noteq> [] \<and> set xs \<subseteq> {''external'', ''internal''}) \<and>
          (case e0 of CarrierE c0 \<Rightarrow> cc_io c = cc_io c0 | _ \<Rightarrow> False)
      | IntE b \<Rightarrow> (\<forall>i \<in> set (mi_elements b). pb_float w (ig_ic i) = ig_ic i)
      | CBlockE b \<Rightarrow> (\<forall>f \<in> set (c_factors b). pb_float w f = f)
      | UBlockE b \<Rightarrow> (\<exists>i. Some i \<in> set (u_outputs b)) \<and>
          u_constant b \<in> {CBool False, CFloat 1, CFloat (1 / 10), CFloat (- 1 / 10)}
      | TBlockE b \<Rightarrow> None \<notin> set (t_muxes b)
      | FrontPlaneE f \<Rightarrow> float_gen w (fp_signal_generator f) = fp_signal_generator f
      | _ \<Rightarrow> True)"

lemma map_filter_id: "None \<notin> set xs \<Longrightarrow> map Some (List.map_filter id xs) = xs"
proof (induction xs)
  case (Cons a xs)
  then show ?case by (cases a) (auto simp: List.map_filter_def)
qed (simp add: List.map_filter_def)

lemma overlay_all: "length vs = length xs \<Longrightarrow> None \<notin> set vs \<Longrightarrow> overlay (map (map_option Some) vs) xs = vs"
  by (induction vs xs rule: list_induct2) (auto simp: overlay_def split: option.splits)

lemma is_external_words: "is_external ''external''" "\<not> is_external ''internal''"
  by code_simp+

lemma received_lossless:
  assumes "lossless w e0 e" and "same_board e0 e"
  shows "received w e0 e = e"
proof (cases e)
  case (CarrierE c)
  with assms obtain c0 xs where c0: "e0 = CarrierE c0" "cc_io c = cc_io c0"
    and xs: "cc_acl c = Some xs" "xs \<noteq> []" "set xs \<subseteq> {''external'', ''internal''}"
    and adc: "cc_adc c \<noteq> []" "None \<notin> set (cc_adc c)"
    by (cases e0) (auto simp: lossless_def same_board_def)
  have "map (\<lambda>s. if is_external s then ''external'' else ''internal'') xs = xs"
    using xs(3) by (induction xs) (auto simp: is_external_words)
  moreover have "List.map_filter id (cc_adc c) \<noteq> []"
    using adc map_filter_id [OF adc(2)] by auto
  ultimately show ?thesis
    using CarrierE c0 xs map_filter_id [OF adc(2)] by (cases c) (auto simp: received_def split: list.splits)
next
  case (IntE b)
  then have "map (float_itor w) (mi_elements b) = mi_elements b"
    using assms(1) by (auto simp: lossless_def float_itor_def intro!: map_idI)
  with IntE show ?thesis by (simp add: received_def)
next
  case (CBlockE b)
  then have "map (pb_float w) (c_factors b) = c_factors b"
    using assms(1) by (auto simp: lossless_def intro!: map_idI)
  with CBlockE show ?thesis by (simp add: received_def)
next
  case (UBlockE b)
  then have "sparse (u_outputs b) \<noteq> []" "u_constant b \<in> {CBool False, CFloat 1, CFloat (1 / 10), CFloat (- 1 / 10)}"
    using assms(1) by (auto simp: lossless_def sparse_eq_Nil)
  then show ?thesis
    using UBlockE by (cases b) (auto simp: received_def ser_constant_def des_constant_def Let_def)
next
  case (TBlockE b)
  with assms obtain b0 where "e0 = TBlockE b0" "length (t_muxes b) = length (t_muxes b0)" "None \<notin> set (t_muxes b)"
    by (cases e0) (auto simp: lossless_def same_board_def)
  with TBlockE show ?thesis
    by (cases b; cases b0) (simp add: received_def overlay_all)
qed (use assms in \<open>auto simp: lossless_def received_def\<close>)

text \<open>
  C2. Round trip of a configuration. When everything the sender holds can be expressed in messages
  without loss, every entity of a receiver with the same boards ends up equal to the sender's,
  whatever was configured there before.
\<close>

theorem configuration_roundtrip:
  assumes "wire_ok w" and "receivable (config_entities r) d"
    and "serialize_configuration fuel w r rt = (Some (Inr its), rt')"
    and "\<forall>(p, e) \<in> set (traversal (config_entities r)). lossless w (the (d p)) e"
  shows "\<exists>d'. deserialize_configuration its d = Inr d' \<and>
    (\<forall>p e. (p, e) \<in> set (traversal (config_entities r)) \<longrightarrow> d' p = Some e)"
proof -
  obtain d' where d': "deserialize_configuration its d = Inr d'"
    "\<forall>p e. (p, e) \<in> set (traversal (config_entities r)) \<longrightarrow> d' p = Some (received w (the (d p)) e)"
    using configuration_applied [OF assms(1-3)] by blast
  have "received w (the (d p)) e = e" if "(p, e) \<in> set (traversal (config_entities r))" for p e
    using that assms(2,4) by (intro received_lossless) (fastforce simp: receivable_def split: option.splits)+
  with d' show ?thesis by auto
qed

text \<open>
  A reference constant of -1 in a U-block does not survive the transfer: the serializer marks
  every constant other than +1 as a tenth, so the receiver gets -0.1.
\<close>

theorem negative_reference_lost:
  assumes "wire_ok w" and "sendable (UBlockE b)" and "same_board (UBlockE b0) (UBlockE b)"
    and "u_constant b = CFloat (- 1)" and "Some i \<in> set (u_outputs b)"
  shows "\<exists>ps. ser_entity w (UBlockE b) = Inr ps \<and>
    rfold des_item ps (UBlockE b0) = Inr (UBlockE (b\<lparr>u_constant := CFloat (- 1 / 10)\<rparr>))"
proof -
  have "sparse (u_outputs b) \<noteq> []"
    using assms(5) by (auto simp: sparse_eq_Nil)
  then have "received w (UBlockE b0) (UBlockE b) = UBlockE (b\<lparr>u_constant := CFloat (- 1 / 10)\<rparr>)"
    using assms(4) by (cases b) (simp add: received_def ser_constant_def des_constant_def Let_def)
  then show ?thesis
    using entity_roundtrip [OF assms(1-3)] by simp
qed

definition demo_ublock :: ublock where
  "demo_ublock = new_ublock\<lparr>u_outputs := (u_outputs new_ublock)[5 := Some 15], u_constant := CFloat (- 1)\<rparr>"

theorem negative_reference_lost_witness:
  "\<exists>ps. ser_entity exact_wire (UBlockE demo_ublock) = Inr ps \<and>
    rfold des_item ps (UBlockE new_ublock) = Inr (UBlockE (demo_ublock\<lparr>u_constant := CFloat (- 1 / 10)\<rparr>))"
proof (rule negative_reference_lost [OF exact_wire_ok, where i = 15])
  show "sendable (UBlockE demo_ublock)"
    by (auto simp: demo_ublock_def new_ublock_def u32_def dest!: set_update_subset_insert [THEN subsetD])
  show "same_board (UBlockE new_ublock) (UBlockE demo_ublock)"
    by (simp add: same_board_def demo_ublock_def)
  show "u_constant demo_ublock = CFloat (- 1)"
    by (simp add: demo_ublock_def)
  show "Some 15 \<in> set (u_outputs demo_ublock)"
    by (simp add: demo_ublock_def new_ublock_def set_update_memI)
qed

text \<open>
  A backplane block on which nothing is connected is not transferred as such: every unset
  multiplexer is sent as state 0, and a fresh receiver ends up with every output connected.
\<close>

theorem unset_backplane_connected:
  "rbind (ser_entity w (BplE new_backplane_tblock)) (\<lambda>ps. rfold des_item ps (BplE new_backplane_tblock)) =
     Inr (BplE \<lparr>b_sectors = replicate 8 (Some 8) # replicate 8 (replicate 8 (Some 0))\<rparr>)"
  by code_simp

text \<open>An example: a carrier with a cluster and a T-block, and a fresh one to receive its configuration.\<close>

lemma bpl_complete_code [code]:
  "bpl_complete b \<longleftrightarrow> b_shape b \<and>
     (\<forall>out<9. \<forall>lane<8. case b_sectors b ! out ! lane of None \<Rightarrow> False | Some x \<Rightarrow> 0 \<le> x \<and> x < 9 \<and> x \<noteq> int out)"
proof -
  have "(\<exists>x. v = Some x \<and> P x) \<longleftrightarrow> (case v of None \<Rightarrow> False | Some x \<Rightarrow> P x)" for v and P :: "int \<Rightarrow> bool"
    by (cases v) simp_all
  then show ?thesis
    by (simp only: bpl_complete_def)
qed

lemma sendable_carrier_code:
  "sendable (CarrierE c) \<longleftrightarrow>
     list_all (\<lambda>ch. case ch of None \<Rightarrow> True
       | Some ch \<Rightarrow> u32 (ch_index ch) \<and> (case ch_probe ch of None \<Rightarrow> False | Some p \<Rightarrow> u32 p)) (cc_adc c)"
  unfolding sendable.simps list_all_iff
  by (intro iffI ballI allI impI) (fastforce split: option.splits)+

lemma sendable_code [code]:
  "sendable e =
     (case e of
        CarrierE c \<Rightarrow> list_all (\<lambda>ch. case ch of None \<Rightarrow> True
          | Some ch \<Rightarrow> u32 (ch_index ch) \<and> (case ch_probe ch of None \<Rightarrow> False | Some p \<Rightarrow> u32 p)) (cc_adc c)
      | IntE b \<Rightarrow> list_all (\<lambda>i. u32 (ig_k i)) (mi_elements b)
      | IBlockE b \<Rightarrow> list_all (\<lambda>S. \<forall>x\<in>S. u32 x) (i_outputs b)
      | UBlockE b \<Rightarrow> list_all (case_option True u32) (u_outputs b)
      | CBlockE b \<Rightarrow> list_all (\<lambda>f. - 1 \<le> f \<and> f \<le> 1) (c_factors b)
      | TBlockE b \<Rightarrow> list_all (case_option True u32) (t_muxes b)
      | BplE b \<Rightarrow> bpl_complete b
      | FrontPlaneE f \<Rightarrow> u32 (fp_leds f)
      | _ \<Rightarrow> True)"
  by (cases e) (auto simp: sendable_carrier_code list_all_iff simp del: sendable.simps(1) split: option.splits)

definition demo_board :: "string \<Rightarrow> carrier" where
  "demo_board mac =
     \<lparr>cr_path = [PS mac], cr_location = Some [0, 0], cr_adc_config = [], cr_acl_select = None,
      cr_front_panel_io = None,
      cr_clusters = [\<lparr>cl_path = [PS mac, PS ''0''], cl_location = Some [0, 0, 0],
        cl_m0 = Some (MIntBlock new_mint_block), cl_m1 = Some MMulBlock,
        cl_u = new_ublock, cl_c = new_cblock, cl_i = new_iblock\<rparr>],
      cr_tblock = Some new_tblock, cr_st0 = None, cr_st1 = None, cr_st2 = None, cr_front_plane = None\<rparr>"

definition demo_receiver :: redac where
  "demo_receiver = \<lparr>rd_carriers = [demo_board ''04-E9''], rd_next_probe = 0, rd_wiring_specs = []\<rparr>"

definition demo_sender :: redac where
  "demo_sender = demo_receiver\<lparr>rd_carriers := map (\<lambda>c.
     c\<lparr>cr_adc_config := [Some \<lparr>ch_index = 3, ch_gain = 1, ch_offset = 0, ch_probe = Some 0\<rparr>],
       cr_acl_select := Some (''external'' # replicate 7 ''internal''),
       cr_clusters := map (\<lambda>k. k\<lparr>cl_u := (cl_u k)\<lparr>u_outputs := (u_outputs (cl_u k))[4 := Some 3]\<rparr>,
         cl_c := (cl_c k)\<lparr>c_factors := (c_factors (cl_c k))[4 := - 1 / 2]\<rparr>,
         cl_i := (cl_i k)\<lparr>i_outputs := (i_outputs (cl_i k))[7 := {4}]\<rparr>\<rparr>) (cr_clusters c)\<rparr>) (rd_carriers demo_receiver)\<rparr>"

abbreviation demo_dict :: store where
  "demo_dict \<equiv> build_entity_path_dict (config_entities demo_receiver)"

lemma demo_receivable: "receivable (config_entities demo_sender) demo_dict"
  by code_simp

lemma demo_serializes: "\<exists>its rt'. serialize_configuration 2 exact_wire demo_sender new_routing = (Some (Inr its), rt')"
proof -
  have "(case fst (serialize_configuration 2 exact_wire demo_sender new_routing) of Some (Inr _) \<Rightarrow> True | _ \<Rightarrow> False)"
    by code_simp
  then show ?thesis
    by (cases "serialize_configuration 2 exact_wire demo_sender new_routing") (auto split: option.splits sum.splits)
qed

theorem configuration_transfer_witness:
  "\<exists>its rt' d'. serialize_configuration 2 exact_wire demo_sender new_routing = (Some (Inr its), rt') \<and>
    deserialize_configuration its demo_dict = Inr d' \<and>
    (\<forall>p e. (p, e) \<in> set (traversal (config_entities demo_sender)) \<longrightarrow> d' p = Some (received exact_wire (the (demo_dict p)) e)) \<and>
    (\<forall>p. p \<notin> fst ` set (traversal (config_entities demo_sender)) \<longrightarrow> d' p = demo_dict p)"
  using demo_serializes configuration_transfer [OF exact_wire_ok demo_receivable] by blast

lemma demo_lossless: "\<forall>(p, e) \<in> set (traversal (config_entities demo_sender)). lossless exact_wire (the (demo_dict p)) e"
  by (simp add: demo_sender_def demo_receiver_def demo_board_def config_entities_def traversal_def carrier_node_def
      cluster_node_def opt_leaf_def leaf_def build_entity_path_dict_def lossless_def exact_wire_def new_ublock_def
      new_tblock_def set_update_memI eval_nat_numeral)

theorem configuration_roundtrip_witness:
  "\<exists>its rt' d'. serialize_configuration 2 exact_wire demo_sender new_routing = (Some (Inr its), rt') \<and>
    deserialize_configuration its demo_dict = Inr d' \<and>
    (\<forall>p e. (p, e) \<in> set (traversal (config_entities demo_sender)) \<longrightarrow> d' p = Some e)"
  using demo_serializes configuration_roundtrip [OF exact_wire_ok demo_receivable _ demo_lossless] by blast

abbreviation demo_dependencies :: "item list" where
  "demo_dependencies \<equiv> [(''04-E9'', Some (PDependency [''04-E9''] [((0, 0, 4), (0, 0, 4), False)] 16))]"


end
