(* ===== verification/Specification.thy ===== *)
theory Specification
  imports Transmission "HOL-Library.Sublist"
begin

text \<open>
  The specification of a computer: the tree of hardware modules that a device reports, the entities
  built from it, and whole modules of specification and configuration items
  (redac/protocol/serializer.py, \<open>_serialize_specification\<close> and \<open>deserialize_specification\<close>;
  lucidac/protocol/serializer.py; base/hybrid/serializer.py, \<open>serialize\<close> and \<open>deserialize\<close>).

  \<open>spec_entity\<close> is what an entity keeps of its specification: path, location, class and reported type,
  and its parts; its configuration is in theory Transmission. The deserializer of the REDAC and that
  of the LUCIDAC differ in a counter of unlocated carriers and in the front plane: \<open>ctr\<close> is \<open>None\<close> for
  the former and \<open>Some n\<close> for the latter with counter \<open>n\<close>.
\<close>

section \<open>Data\<close>

datatype pb_entity =
  PbEntity (pe_id: string) (pe_class: int) (pe_type: int) (pe_variant: int) (pe_version: "int \<times> int \<times> int")
    (pe_location: "(int \<times> int) option") (pe_children: "pb_entity list")

record block_spec =
  bs_path :: path
  bs_location :: "loc option"
  bs_cls :: entity_cls
  bs_type :: "entity_type option"

record cluster_spec =
  cs_path :: path
  cs_location :: "loc option"
  cs_type :: "entity_type option"
  cs_m0 :: "block_spec option"
  cs_m1 :: "block_spec option"
  cs_u :: block_spec
  cs_c :: block_spec
  cs_i :: block_spec
  cs_sh :: "block_spec option"

text \<open>A carrier apart from its clusters, which stand beside it in \<open>CarrierS\<close>.\<close>

record carrier_spec =
  ca_path :: path
  ca_location :: "loc option"
  ca_type :: "entity_type option"
  ca_t :: "block_spec option"
  ca_st0 :: "block_spec option"
  ca_st1 :: "block_spec option"
  ca_st2 :: "block_spec option"
  ca_fp :: "block_spec option"
  ca_acl :: "string list option"

datatype spec_entity =
    BlockS block_spec
  | ClusterS cluster_spec
  | CarrierS carrier_spec "spec_entity list"
  | DeviceS path "spec_entity list"

section \<open>Serialization\<close>

definition or_zero :: "int option \<Rightarrow> int" where
  "or_zero x = (case x of None \<Rightarrow> 0 | Some n \<Rightarrow> n)"

definition make_version :: "pb_wire \<Rightarrow> (int \<times> int \<times> int) option \<Rightarrow> (int \<times> int \<times> int) res" where
  "make_version w v =
     (case v of None \<Rightarrow> Inr (0, 0, 0)
      | Some (major, minor, micro) \<Rightarrow>
          rbind (pb_uint32 w major) (\<lambda>a. rbind (pb_uint32 w minor) (\<lambda>b. rbind (pb_uint32 w micro) (\<lambda>c. Inr (a, b, c)))))"

definition entity_id :: "path \<Rightarrow> string res" where
  "entity_id p = rbind (path_id p) (\<lambda>x. Inr (CHR ''/'' # part_str x))"

text \<open>The message of one entity before its location and children are added; the numbers are uint32 fields.\<close>

definition pb_of_type :: "pb_wire \<Rightarrow> path \<Rightarrow> entity_type \<Rightarrow> pb_entity res" where
  "pb_of_type w p et =
     rbind (make_version w (et_version et)) (\<lambda>version.
     rbind (entity_id p) (\<lambda>name.
     rbind (pb_uint32 w (or_zero (et_type et))) (\<lambda>type.
     rbind (pb_uint32 w (or_zero (et_variant et))) (\<lambda>variant.
     Inr (PbEntity name (entity_class_value (et_class et)) type variant version None [])))))"

definition with_parts :: "pb_entity \<Rightarrow> (int \<times> int) option \<Rightarrow> pb_entity list \<Rightarrow> pb_entity" where
  "with_parts e l children = PbEntity (pe_id e) (pe_class e) (pe_type e) (pe_variant e) (pe_version e) l children"

definition ser_block_spec :: "pb_wire \<Rightarrow> block_spec \<Rightarrow> pb_entity res" where
  "ser_block_spec w b =
     rbind (case bs_type b of Some t \<Rightarrow> Inr t | None \<Rightarrow> reverse_lookup entity_type_registry (bs_cls b)) (\<lambda>et.
     pb_of_type w (bs_path b) et)"

definition opt_list :: "'a option \<Rightarrow> 'a list" where
  "opt_list x = (case x of None \<Rightarrow> [] | Some y \<Rightarrow> [y])"

text \<open>The blocks of a cluster that \<open>children\<close> yields: the SH-block is not among them.\<close>

definition cluster_blocks :: "cluster_spec \<Rightarrow> block_spec list" where
  "cluster_blocks c = opt_list (cs_m0 c) @ opt_list (cs_m1 c) @ [cs_u c, cs_c c, cs_i c]"

definition ser_cluster_spec :: "pb_wire \<Rightarrow> cluster_spec \<Rightarrow> pb_entity res" where
  "ser_cluster_spec w c =
     rbind (pb_of_type w (cs_path c) (case cs_type c of Some t \<Rightarrow> t | None \<Rightarrow> plain_type CLUSTER None)) (\<lambda>e.
     rbind (rmap (ser_block_spec w) (cluster_blocks c)) (\<lambda>children.
     Inr (with_parts e None children)))"

definition carrier_blocks :: "carrier_spec \<Rightarrow> block_spec list" where
  "carrier_blocks c = opt_list (ca_t c) @ opt_list (ca_st0 c) @ opt_list (ca_st1 c) @ opt_list (ca_st2 c) @ opt_list (ca_fp c)"

definition ser_location :: "pb_wire \<Rightarrow> loc option \<Rightarrow> (int \<times> int) option res" where
  "ser_location w l =
     (case l of None \<Rightarrow> Inr None
      | Some l \<Rightarrow>
          rbind (py_get l 0) (\<lambda>s. rbind (pb_uint32 w s) (\<lambda>s.
          rbind (py_get l 1) (\<lambda>k. rbind (pb_uint32 w k) (\<lambda>k. Inr (Some (s, k)))))))"

fun serialize_specification :: "pb_wire \<Rightarrow> spec_entity \<Rightarrow> pb_entity res" where
  "serialize_specification w (BlockS b) = ser_block_spec w b"
| "serialize_specification w (ClusterS c) = ser_cluster_spec w c"
| "serialize_specification w (CarrierS c ks) =
     rbind (pb_of_type w (ca_path c) (case ca_type c of Some t \<Rightarrow> t | None \<Rightarrow> plain_type CARRIER None)) (\<lambda>e.
     rbind (ser_location w (ca_location c)) (\<lambda>l.
     rbind (rmap (serialize_specification w) ks) (\<lambda>clusters.
     rbind (rmap (ser_block_spec w) (carrier_blocks c)) (\<lambda>blocks.
     Inr (with_parts e l (clusters @ blocks))))))"
| "serialize_specification w (DeviceS p cs) =
     rbind (entity_id p) (\<lambda>name. rbind (rmap (serialize_specification w) cs) (\<lambda>children.
     Inr (PbEntity name (entity_class_value DEVICE) 0 0 (0, 0, 0) None children)))"

section \<open>Deserialization\<close>

definition pop_type :: "pb_entity \<Rightarrow> entity_type res" where
  "pop_type e =
     rbind (entity_class_of (pe_class e)) (\<lambda>c.
     Inr \<lparr>et_class = c, et_type = Some (pe_type e), et_version = Some (pe_version e), et_variant = Some (pe_variant e)\<rparr>)"

abbreviation parse_id :: "pb_entity \<Rightarrow> path res" where
  "parse_id e \<equiv> path_parse redac_schema (\<lambda>_. None) (pe_id e)"

definition child_path :: "path \<Rightarrow> pb_entity \<Rightarrow> path res" where
  "child_path p e = rbind (parse_id e) (\<lambda>q. Inr (path_join p (Inl q)))"

definition spec_function_block :: "pb_entity \<Rightarrow> path \<Rightarrow> loc option \<Rightarrow> block_spec res" where
  "spec_function_block e p l =
     rbind (pop_type e) (\<lambda>t. rbind (lookup_type entity_type_registry t True) (\<lambda>cls.
     Inr \<lparr>bs_path = p, bs_location = l, bs_cls = cls, bs_type = Some t\<rparr>))"

definition cluster_child ::
    "path \<Rightarrow> loc option \<Rightarrow> pb_entity \<Rightarrow> (string \<times> block_spec) list \<Rightarrow> (string \<times> block_spec) list res" where
  "cluster_child p l child d =
     rbind (child_path p child) (\<lambda>q.
     rbind (spec_function_block child q l) (\<lambda>b.
     rbind (path_id q) (\<lambda>x. case x of
        PI _ \<Rightarrow> Inl AttributeError
      | PS s \<Rightarrow> Inr ((map lower_char s @ ''block'', b) # d))))"

text \<open>
  The collected blocks are passed to the constructor by keyword: \<open>d\<close> is the dictionary, newest entry
  first. A name that is no parameter and a missing U-, C- or I-block are refused by the call.
\<close>

definition block_names :: "string list" where
  "block_names = [''m0block'', ''m1block'', ''ublock'', ''cblock'', ''iblock'', ''shblock'']"

definition make_cluster ::
    "path \<Rightarrow> loc option \<Rightarrow> entity_type \<Rightarrow> (string \<times> block_spec) list \<Rightarrow> cluster_spec res" where
  "make_cluster p l t d =
     rbind (rassert (list_all (\<lambda>(s, _). s \<in> set block_names) d) TypeError) (\<lambda>_.
     case (map_of d ''ublock'', map_of d ''cblock'', map_of d ''iblock'') of
       (Some u, Some c, Some i) \<Rightarrow>
         Inr \<lparr>cs_path = p, cs_location = l, cs_type = Some t, cs_m0 = map_of d ''m0block'', cs_m1 = map_of d ''m1block'',
              cs_u = u, cs_c = c, cs_i = i, cs_sh = map_of d ''shblock''\<rparr>
     | _ \<Rightarrow> Inl TypeError)"

definition spec_cluster :: "pb_entity \<Rightarrow> path \<Rightarrow> loc option \<Rightarrow> cluster_spec res" where
  "spec_cluster e p l =
     rbind (pop_type e) (\<lambda>t.
     rbind (rassert (et_class t = CLUSTER) AssertionError) (\<lambda>_.
     rbind (rfold (cluster_child p l) (pe_children e) []) (make_cluster p l t)))"

text \<open>
  The children of a carrier are told apart by name. \<open>des\<close> is the recursive call for a child named by a
  digit; the loop carries the carrier built so far, its clusters and the counter.
\<close>

definition handle_front_plane :: "int option \<Rightarrow> path \<Rightarrow> carrier_spec \<Rightarrow> carrier_spec" where
  "handle_front_plane ctr q c =
     (if ctr = None then c
      else c\<lparr>ca_fp := Some \<lparr>bs_path = q, bs_location = None, bs_cls = FrontPlane_cls, bs_type = None\<rparr>,
             ca_acl := Some (replicate 8 ''INTERNAL'')\<rparr>)"

type_synonym carrier_loop = "carrier_spec \<times> spec_entity list \<times> int option"

definition carrier_child ::
    "(int option \<Rightarrow> path \<Rightarrow> loc option \<Rightarrow> pb_entity \<Rightarrow> (spec_entity \<times> int option) res) \<Rightarrow>
     path \<Rightarrow> loc option \<Rightarrow> loc option \<Rightarrow> pb_entity \<Rightarrow> carrier_loop \<Rightarrow> carrier_loop res" where
  "carrier_child des p l stack_loc child st =
     (case st of (c, ks, ctr) \<Rightarrow>
      rbind (child_path p child) (\<lambda>q. rbind (path_id q) (\<lambda>x. case x of
         PI n \<Rightarrow> if n = 0 then Inr st else Inl TypeError
       | PS s \<Rightarrow>
           if s = [] then Inr st
           else if s = ''T'' then rbind (spec_function_block child q l) (\<lambda>b. Inr (c\<lparr>ca_t := Some b\<rparr>, ks, ctr))
           else if s = ''ST0'' then rbind (spec_function_block child q stack_loc) (\<lambda>b. Inr (c\<lparr>ca_st0 := Some b\<rparr>, ks, ctr))
           else if s = ''ST1'' then rbind (spec_function_block child q stack_loc) (\<lambda>b. Inr (c\<lparr>ca_st1 := Some b\<rparr>, ks, ctr))
           else if s = ''ST2'' then rbind (spec_function_block child q stack_loc) (\<lambda>b. Inr (c\<lparr>ca_st2 := Some b\<rparr>, ks, ctr))
           else if s = ''FP'' then Inr (handle_front_plane ctr q c, ks, ctr)
           else if sublist s ''0123456789''
           then rbind (case l of None \<Rightarrow> Inr None | Some l \<Rightarrow> rbind (py_int s) (\<lambda>n. Inr (Some (loc_div l n)))) (\<lambda>kl.
                rbind (des ctr q kl child) (\<lambda>(k, ctr). Inr (c, ks @ [k], ctr)))
           else Inr st)))"

text \<open>Where a carrier is: the reported location, else the caller's, else, on a LUCIDAC, the next free one.\<close>

definition locate_carrier :: "int option \<Rightarrow> pb_entity \<Rightarrow> loc option \<Rightarrow> loc option \<times> int option" where
  "locate_carrier ctr e l =
     (case (pe_location e, l, ctr) of
        (Some (s, c), _, _) \<Rightarrow> (Some (new_carrier s c), ctr)
      | (None, None, Some n) \<Rightarrow> (Some (new_carrier 0 n), Some (n + 1))
      | (None, _, _) \<Rightarrow> (l, ctr))"

definition new_carrier_spec :: "path \<Rightarrow> loc option \<Rightarrow> entity_type \<Rightarrow> carrier_spec" where
  "new_carrier_spec p l t =
     \<lparr>ca_path = p, ca_location = l, ca_type = Some t, ca_t = None, ca_st0 = None, ca_st1 = None,
      ca_st2 = None, ca_fp = None, ca_acl = None\<rparr>"

lemma carrier_child_cong [fundef_cong]:
  assumes "p = p'" and "l = l'" and "sl = sl'" and "child = child'" and "st = st'"
    and "\<And>ctr q kl. des ctr q kl child' = des' ctr q kl child'"
  shows "carrier_child des p l sl child st = carrier_child des' p' l' sl' child' st'"
  by (simp only: carrier_child_def assms)

fun deserialize_specification ::
    "int option \<Rightarrow> path \<Rightarrow> loc option \<Rightarrow> pb_entity \<Rightarrow> (spec_entity \<times> int option) res" where
  "deserialize_specification ctr p l (PbEntity name cl ty va ve lo children) =
     (let e = PbEntity name cl ty va ve lo children in
      rbind (entity_class_of cl) (\<lambda>cls.
      if cls = DEVICE then
        rbind (rassert (l = None) AssertionError) (\<lambda>_.
        rbind (rfold (\<lambda>child (ks, ctr).
            rbind (parse_id child) (\<lambda>q.
            rbind (deserialize_specification ctr q None child) (\<lambda>(k, ctr). Inr (ks @ [k], ctr)))) children ([], ctr)) (\<lambda>(ks, ctr).
        Inr (DeviceS p ks, ctr)))
      else if cls = CARRIER then
        rbind (pop_type e) (\<lambda>t.
        rbind (rassert (et_class t = CARRIER) AssertionError) (\<lambda>_.
        case locate_carrier ctr e l of (l, ctr) \<Rightarrow>
        rbind (case l of None \<Rightarrow> Inr None | Some l \<Rightarrow> rbind (loc_stack l) (\<lambda>s. Inr (Some s))) (\<lambda>stack_loc.
        rbind (rfold (\<lambda>child. carrier_child deserialize_specification p l stack_loc child) children
            (new_carrier_spec p l t, [], ctr)) (\<lambda>(c, ks, ctr).
        Inr (CarrierS c ks, ctr)))))
      else if cls = CLUSTER then rbind (spec_cluster e p l) (\<lambda>k. Inr (ClusterS k, ctr))
      else rbind (spec_function_block e p l) (\<lambda>b. Inr (BlockS b, ctr))))"

declare deserialize_specification.simps [simp del]

section \<open>Round trip of a specification\<close>

text \<open>
  What comes back is the same tree with its types completed: the message has no way to say that a
  type, variant or version is not set, and a block without a type of its own gets that of its class.
  An SH-block is lost, because the serializer only visits the other blocks of a cluster.
\<close>

definition norm_type :: "entity_type \<Rightarrow> entity_type" where
  "norm_type t = \<lparr>et_class = et_class t, et_type = Some (or_zero (et_type t)),
     et_version = Some (case et_version t of None \<Rightarrow> (0, 0, 0) | Some v \<Rightarrow> v), et_variant = Some (or_zero (et_variant t))\<rparr>"

definition norm_block :: "block_spec \<Rightarrow> block_spec" where
  "norm_block b = b\<lparr>bs_type := Some (norm_type (case bs_type b of Some t \<Rightarrow> t
     | None \<Rightarrow> projr (reverse_lookup entity_type_registry (bs_cls b))))\<rparr>"

definition norm_cluster :: "cluster_spec \<Rightarrow> cluster_spec" where
  "norm_cluster c = c\<lparr>cs_type := Some (norm_type (case cs_type c of Some t \<Rightarrow> t | None \<Rightarrow> plain_type CLUSTER None)),
     cs_m0 := map_option norm_block (cs_m0 c), cs_m1 := map_option norm_block (cs_m1 c),
     cs_u := norm_block (cs_u c), cs_c := norm_block (cs_c c), cs_i := norm_block (cs_i c), cs_sh := None\<rparr>"

definition norm_carrier :: "carrier_spec \<Rightarrow> carrier_spec" where
  "norm_carrier c = c\<lparr>ca_type := Some (norm_type (case ca_type c of Some t \<Rightarrow> t | None \<Rightarrow> plain_type CARRIER None)),
     ca_t := map_option norm_block (ca_t c), ca_st0 := map_option norm_block (ca_st0 c),
     ca_st1 := map_option norm_block (ca_st1 c), ca_st2 := map_option norm_block (ca_st2 c),
     ca_acl := map_option (\<lambda>_. replicate 8 ''INTERNAL'') (ca_fp c)\<rparr>"

fun norm_spec :: "spec_entity \<Rightarrow> spec_entity" where
  "norm_spec (BlockS b) = BlockS (norm_block b)"
| "norm_spec (ClusterS c) = ClusterS (norm_cluster c)"
| "norm_spec (CarrierS c ks) = CarrierS (norm_carrier c) (map norm_spec ks)"
| "norm_spec (DeviceS p cs) = DeviceS p (map norm_spec cs)"

text \<open>
  A well-formed tree: parts stand below their carrier or cluster under the name of their slot, carry
  the location that slot implies, and their class is the one their type is registered for. The numbers
  of types, versions and locations fit into the uint32 fields of the message.
\<close>

definition type_fits :: "entity_type \<Rightarrow> bool" where
  "type_fits t \<longleftrightarrow> u32 (or_zero (et_type t)) \<and> u32 (or_zero (et_variant t)) \<and>
     (case et_version t of None \<Rightarrow> True | Some (a, b, c) \<Rightarrow> u32 a \<and> u32 b \<and> u32 c)"

definition block_ok :: "path \<Rightarrow> loc option \<Rightarrow> string \<Rightarrow> block_spec \<Rightarrow> bool" where
  "block_ok p l name b \<longleftrightarrow> bs_path b = p @ [PS name] \<and> bs_location b = l \<and>
     (bs_type b = None \<longrightarrow> (\<exists>t. reverse_lookup entity_type_registry (bs_cls b) = Inr t)) \<and>
     type_fits (the (bs_type (norm_block b))) \<and>
     lookup_type entity_type_registry (the (bs_type (norm_block b))) True = Inr (bs_cls b)"

definition cluster_ok :: "path \<Rightarrow> loc option \<Rightarrow> cluster_spec \<Rightarrow> bool" where
  "cluster_ok p l c \<longleftrightarrow>
     (\<exists>s n. cs_path c = p @ [PS s] \<and> s \<noteq> [] \<and> sublist s ''0123456789'' \<and> py_int s = Inr n \<and>
        cs_location c = map_option (\<lambda>l. loc_div l n) l) \<and>
     (\<forall>t. cs_type c = Some t \<longrightarrow> et_class t = CLUSTER \<and> type_fits t) \<and>
     pred_option (block_ok (cs_path c) (cs_location c) ''M0'') (cs_m0 c) \<and>
     pred_option (block_ok (cs_path c) (cs_location c) ''M1'') (cs_m1 c) \<and>
     block_ok (cs_path c) (cs_location c) ''U'' (cs_u c) \<and> block_ok (cs_path c) (cs_location c) ''C'' (cs_c c) \<and>
     block_ok (cs_path c) (cs_location c) ''I'' (cs_i c)"

definition front_plane_ok :: "int option \<Rightarrow> path \<Rightarrow> block_spec \<Rightarrow> bool" where
  "front_plane_ok ctr p b \<longleftrightarrow> ctr \<noteq> None \<and>
     b = \<lparr>bs_path = p @ [PS ''FP''], bs_location = None, bs_cls = FrontPlane_cls, bs_type = None\<rparr>"

definition carrier_ok :: "int option \<Rightarrow> spec_entity \<Rightarrow> bool" where
  "carrier_ok ctr x \<longleftrightarrow> (\<exists>c ks. x = CarrierS c (map ClusterS ks) \<and>
     (case ca_location c of None \<Rightarrow> ctr = None | Some l \<Rightarrow> is_carrier l \<and> list_all u32 l) \<and>
     (\<exists>mac. ca_path c = [PS mac] \<and> mac \<noteq> [] \<and> CHR ''/'' \<notin> set mac) \<and>
     (\<forall>t. ca_type c = Some t \<longrightarrow> et_class t = CARRIER \<and> type_fits t) \<and>
     (\<forall>k \<in> set ks. cluster_ok (ca_path c) (ca_location c) k) \<and>
     pred_option (block_ok (ca_path c) (ca_location c) ''T'') (ca_t c) \<and>
     pred_option (block_ok (ca_path c) (map_option (take 1) (ca_location c)) ''ST0'') (ca_st0 c) \<and>
     pred_option (block_ok (ca_path c) (map_option (take 1) (ca_location c)) ''ST1'') (ca_st1 c) \<and>
     pred_option (block_ok (ca_path c) (map_option (take 1) (ca_location c)) ''ST2'') (ca_st2 c) \<and>
     pred_option (front_plane_ok ctr (ca_path c)) (ca_fp c))"

definition clean_name :: "string \<Rightarrow> bool" where
  "clean_name s \<longleftrightarrow> s \<noteq> [] \<and> CHR ''/'' \<notin> set s"

lemma set_opt_list [simp]: "set (opt_list x) = set_option x"
  by (cases x) (simp_all add: opt_list_def)

lemma parse_entity_id:
  assumes "clean_name s"
  shows "path_parse redac_schema (\<lambda>_. None) (CHR ''/'' # s) = Inr [PS s]"
proof -
  have "canonical_path [PS s]"
    using assms by (auto simp: canonical_path_def clean_name_def)
  then have "path_parse redac_schema (\<lambda>_. None) s = Inr [PS s]"
    using path_parse_path_str [of "[PS s]" "\<lambda>_. None"] by (simp add: path_str_def)
  moreover have "strip (\<lambda>c. c = CHR ''/'') (CHR ''/'' # s) = strip (\<lambda>c. c = CHR ''/'') s"
    by (simp add: strip_def)
  ultimately show ?thesis
    by (simp add: path_parse_def)
qed

lemma path_id_snoc [simp]: "path_id (p @ [x]) = Inr x"
  by (simp add: path_id_def py_get_def py_idx_def nth_append nat_diff_distrib')

lemma entity_id_snoc [simp]: "entity_id (p @ [PS s]) = Inr (CHR ''/'' # s)"
  by (simp add: entity_id_def)

text \<open>The message of an entity whose numbers fit.\<close>

definition pb_typed :: "string \<Rightarrow> entity_type \<Rightarrow> (int \<times> int) option \<Rightarrow> pb_entity list \<Rightarrow> pb_entity" where
  "pb_typed name et l children =
     PbEntity name (entity_class_value (et_class et)) (or_zero (et_type et)) (or_zero (et_variant et))
       (case et_version et of None \<Rightarrow> (0, 0, 0) | Some v \<Rightarrow> v) l children"

lemma pb_of_type_fits:
  assumes "wire_ok w" and "type_fits et"
  shows "pb_of_type w (p @ [PS s]) et = Inr (pb_typed (CHR ''/'' # s) et None [])"
  using assms by (auto simp: pb_of_type_def pb_typed_def type_fits_def u32_def make_version_def wire_u32 split: option.splits)

lemma with_parts_typed [simp]: "with_parts (pb_typed name et l0 cs0) l cs = pb_typed name et l cs"
  by (simp add: with_parts_def pb_typed_def)

lemma type_fits_norm [simp]: "type_fits (norm_type t) = type_fits t"
  by (auto simp: type_fits_def norm_type_def or_zero_def u32_def split: option.splits)

lemma plain_type_class [simp]: "et_class (plain_type c t) = c"
  by (simp add: plain_type_def)

lemma type_fits_plain [simp]: "type_fits (plain_type c None)"
  by (simp add: type_fits_def plain_type_def or_zero_def u32_def)

lemma pop_pb_typed [simp]: "pop_type (pb_typed name t l cs) = Inr (norm_type t)"
  by (simp add: pop_type_def pb_typed_def norm_type_def entity_class_roundtrip del: entity_class_of.simps)

lemma pb_typed_sel [simp]:
  "pe_id (pb_typed name t l cs) = name" "pe_location (pb_typed name t l cs) = l"
  "pe_children (pb_typed name t l cs) = cs" "pe_class (pb_typed name t l cs) = entity_class_value (et_class t)"
  by (simp_all add: pb_typed_def)

lemma norm_type_class [simp]: "et_class (norm_type t) = et_class t"
  by (simp add: norm_type_def)

text \<open>One block: serialized, found again at its path and rebuilt.\<close>

lemma block_roundtrip:
  assumes "block_ok p l name b" and "clean_name name" and w: "wire_ok w"
  shows "\<exists>e. ser_block_spec w b = Inr e \<and> child_path p e = Inr (p @ [PS name]) \<and>
    spec_function_block e (p @ [PS name]) l = Inr (norm_block b)"
proof -
  define t where "t = (case bs_type b of Some t \<Rightarrow> t | None \<Rightarrow> projr (reverse_lookup entity_type_registry (bs_cls b)))"
  have t: "(case bs_type b of Some t \<Rightarrow> Inr t | None \<Rightarrow> reverse_lookup entity_type_registry (bs_cls b)) = Inr t"
    using assms(1) by (auto simp: t_def block_ok_def split: option.splits)
  have n: "norm_block b = b\<lparr>bs_type := Some (norm_type t)\<rparr>"
    by (simp add: norm_block_def t_def)
  have "type_fits t"
    using assms(1) by (simp add: block_ok_def n)
  then have "ser_block_spec w b = Inr (pb_typed (CHR ''/'' # name) t None [])"
    using assms(1) pb_of_type_fits [OF w] by (simp add: ser_block_spec_def t block_ok_def)
  moreover have "spec_function_block (pb_typed (CHR ''/'' # name) t None []) (p @ [PS name]) l = Inr (norm_block b)"
    using assms(1) n by (cases b) (simp add: spec_function_block_def block_ok_def)
  ultimately show ?thesis
    using parse_entity_id [OF assms(2)] by (simp add: child_path_def)
qed

lemma cluster_children:
  assumes w: "wire_ok w" and "\<forall>(name, b) \<in> set nbs. clean_name name \<and> block_ok p l name b"
  shows "\<exists>es. rmap (ser_block_spec w) (map snd nbs) = Inr es \<and>
    rfold (cluster_child p l) es d =
      Inr (rev (map (\<lambda>(name, b). (map lower_char name @ ''block'', norm_block b)) nbs) @ d)"
  using assms
proof (induction nbs arbitrary: d)
  case (Cons nb nbs)
  obtain name b where nb: "nb = (name, b)" by fastforce
  with Cons.prems have "block_ok p l name b" "clean_name name" by auto
  then obtain e where e: "ser_block_spec w b = Inr e" "child_path p e = Inr (p @ [PS name])"
      "spec_function_block e (p @ [PS name]) l = Inr (norm_block b)"
    using block_roundtrip w by blast
  obtain es where "rmap (ser_block_spec w) (map snd nbs) = Inr es"
    "rfold (cluster_child p l) es ((map lower_char name @ ''block'', norm_block b) # d) =
      Inr (rev (map (\<lambda>(name, b). (map lower_char name @ ''block'', norm_block b)) nbs) @
        (map lower_char name @ ''block'', norm_block b) # d)"
    using Cons.IH Cons.prems by (meson list.set_intros(2))
  moreover have "cluster_child p l e d = Inr ((map lower_char name @ ''block'', norm_block b) # d)"
    using e by (simp add: cluster_child_def)
  ultimately show ?case
    using e by (simp add: nb)
qed simp

definition cluster_slots :: "cluster_spec \<Rightarrow> (string \<times> block_spec) list" where
  "cluster_slots c = map (Pair ''M0'') (opt_list (cs_m0 c)) @ map (Pair ''M1'') (opt_list (cs_m1 c)) @
     [(''U'', cs_u c), (''C'', cs_c c), (''I'', cs_i c)]"

lemma cluster_blocks_slots: "cluster_blocks c = map snd (cluster_slots c)"
  by (simp add: cluster_blocks_def cluster_slots_def comp_def)

lemma slot_keys:
  "map lower_char ''M0'' @ ''block'' = ''m0block''" "map lower_char ''M1'' @ ''block'' = ''m1block''"
  "map lower_char ''U'' @ ''block'' = ''ublock''" "map lower_char ''C'' @ ''block'' = ''cblock''"
  "map lower_char ''I'' @ ''block'' = ''iblock''"
  by code_simp+

lemma make_cluster_slots:
  "make_cluster (cs_path c) (cs_location c) t
      (rev (map (\<lambda>(name, b). (map lower_char name @ ''block'', norm_block b)) (cluster_slots c))) =
    Inr (norm_cluster c\<lparr>cs_type := Some t\<rparr>)"
  by (cases c; cases "cs_m0 c"; cases "cs_m1 c")
    (simp_all add: make_cluster_def cluster_slots_def opt_list_def slot_keys [simplified list.map append.simps] block_names_def norm_cluster_def)

lemma cluster_roundtrip:
  assumes "cluster_ok p l c" and w: "wire_ok w"
  shows "\<exists>e s n. ser_cluster_spec w c = Inr e \<and> child_path p e = Inr (cs_path c) \<and> cs_path c = p @ [PS s] \<and>
    s \<noteq> [] \<and> sublist s ''0123456789'' \<and> py_int s = Inr n \<and> cs_location c = map_option (\<lambda>l. loc_div l n) l \<and>
    deserialize_specification ctr (cs_path c) (cs_location c) e = Inr (ClusterS (norm_cluster c), ctr)"
proof -
  obtain s n where s: "cs_path c = p @ [PS s]" "s \<noteq> []" "sublist s ''0123456789''" "py_int s = Inr n"
      "cs_location c = map_option (\<lambda>l. loc_div l n) l"
    using assms unfolding cluster_ok_def by blast
  define t where "t = (case cs_type c of Some t \<Rightarrow> t | None \<Rightarrow> plain_type CLUSTER None)"
  have t: "et_class t = CLUSTER" "type_fits t"
    using assms(1) by (auto simp: t_def cluster_ok_def split: option.splits)
  have "\<forall>(name, b) \<in> set (cluster_slots c). clean_name name \<and> block_ok (cs_path c) (cs_location c) name b"
    using assms by (auto simp: cluster_slots_def cluster_ok_def clean_name_def option.pred_set)
  from cluster_children [OF w this, of "[]"] obtain es where es: "rmap (ser_block_spec w) (cluster_blocks c) = Inr es"
      "rfold (cluster_child (cs_path c) (cs_location c)) es [] =
        Inr (rev (map (\<lambda>(name, b). (map lower_char name @ ''block'', norm_block b)) (cluster_slots c)))"
    by (auto simp: cluster_blocks_slots)
  let ?e = "pb_typed (CHR ''/'' # s) t None es"
  have ser: "ser_cluster_spec w c = Inr ?e"
    using es(1) s(1) pb_of_type_fits [OF w t(2)] by (simp add: ser_cluster_spec_def t_def [symmetric])
  have "CHR ''/'' \<notin> set s"
    using set_mono_sublist [OF s(3)] by auto
  then have "child_path p ?e = Inr (cs_path c)"
    using parse_entity_id [of s] s(1,2) by (simp add: child_path_def clean_name_def)
  moreover have "spec_cluster ?e (cs_path c) (cs_location c) = Inr (norm_cluster c)"
    using es(2) make_cluster_slots [of c "norm_type t"] t
    by (simp add: spec_cluster_def) (simp add: norm_cluster_def t_def)
  then have "deserialize_specification ctr (cs_path c) (cs_location c) ?e = Inr (ClusterS (norm_cluster c), ctr)"
    by (simp add: pb_typed_def deserialize_specification.simps t)
  ultimately show ?thesis
    using ser s by blast
qed

lemma carrier_clusters:
  assumes w: "wire_ok w" and "\<forall>k \<in> set ks. cluster_ok p l k"
  shows "\<exists>es. rmap (ser_cluster_spec w) ks = Inr es \<and>
    rfold (carrier_child deserialize_specification p l sl) es (c, ks0, ctr) =
      Inr (c, ks0 @ map (\<lambda>k. ClusterS (norm_cluster k)) ks, ctr)"
  using assms
proof (induction ks arbitrary: ks0)
  case (Cons k ks)
  then obtain e s n where e: "ser_cluster_spec w k = Inr e" "child_path p e = Inr (cs_path k)" "cs_path k = p @ [PS s]"
      "s \<noteq> []" "sublist s ''0123456789''" "py_int s = Inr n" "cs_location k = map_option (\<lambda>l. loc_div l n) l"
      "deserialize_specification ctr (cs_path k) (cs_location k) e = Inr (ClusterS (norm_cluster k), ctr)"
    using cluster_roundtrip [of p l k w ctr] w by auto
  have "set s \<subseteq> set ''0123456789''"
    using e(5) by (rule set_mono_sublist)
  then have named: "s \<noteq> ''T''" "s \<noteq> ''ST0''" "s \<noteq> ''ST1''" "s \<noteq> ''ST2''" "s \<noteq> ''FP''"
    by auto
  have loc: "(case l of None \<Rightarrow> Inr None | Some l \<Rightarrow> rbind (py_int s) (\<lambda>n. Inr (Some (loc_div l n)))) = Inr (cs_location k)"
    using e(6,7) by (cases l) simp_all
  have step: "carrier_child deserialize_specification p l sl e (c, ks0, ctr) = Inr (c, ks0 @ [ClusterS (norm_cluster k)], ctr)"
    unfolding carrier_child_def prod.case e(2) rbind_simps e(3) path_id_snoc part.case if_not_P [OF e(4)]
      if_not_P [OF named(1)] if_not_P [OF named(2)] if_not_P [OF named(3)] if_not_P [OF named(4)] if_not_P [OF named(5)]
      if_P [OF e(5)] loc e(8) [unfolded e(3)]
    by simp
  obtain es where "rmap (ser_cluster_spec w) ks = Inr es"
    "rfold (carrier_child deserialize_specification p l sl) es (c, ks0 @ [ClusterS (norm_cluster k)], ctr) =
      Inr (c, (ks0 @ [ClusterS (norm_cluster k)]) @ map (\<lambda>k. ClusterS (norm_cluster k)) ks, ctr)"
    using Cons.IH Cons.prems by (meson list.set_intros(2))
  with e(1) step show ?case by simp
qed simp

text \<open>The single blocks of a carrier, one slot at a time.\<close>

definition slot_setter :: "(string \<times> (block_spec \<Rightarrow> carrier_spec \<Rightarrow> carrier_spec)) list" where
  "slot_setter = [(''T'', \<lambda>b c. c\<lparr>ca_t := Some b\<rparr>), (''ST0'', \<lambda>b c. c\<lparr>ca_st0 := Some b\<rparr>),
     (''ST1'', \<lambda>b c. c\<lparr>ca_st1 := Some b\<rparr>), (''ST2'', \<lambda>b c. c\<lparr>ca_st2 := Some b\<rparr>)]"

lemma carrier_slot:
  assumes "pred_option (block_ok p (if name = ''T'' then l else sl) name) x" and "(name, setter) \<in> set slot_setter"
    and w: "wire_ok w"
  shows "\<exists>es. rmap (ser_block_spec w) (opt_list x) = Inr es \<and>
    rfold (carrier_child des p l sl) es (c, ks, ctr) =
      Inr (case x of None \<Rightarrow> c | Some b \<Rightarrow> setter (norm_block b) c, ks, ctr)"
proof (cases x)
  case None
  then show ?thesis by (simp add: opt_list_def)
next
  case (Some b)
  have "clean_name name"
    using assms(2) by (auto simp: slot_setter_def clean_name_def)
  then obtain e where "ser_block_spec w b = Inr e" "child_path p e = Inr (p @ [PS name])"
      "spec_function_block e (p @ [PS name]) (if name = ''T'' then l else sl) = Inr (norm_block b)"
    using block_roundtrip assms(1) w Some by (metis option.pred_inject(2))
  then show ?thesis
    using assms(2) Some by (auto simp: slot_setter_def carrier_child_def opt_list_def)
qed

lemma carrier_front_plane:
  assumes "pred_option (front_plane_ok ctr p) x" and "ca_fp c = None" and "ca_acl c = None"
    and w: "wire_ok w"
  shows "\<exists>es. rmap (ser_block_spec w) (opt_list x) = Inr es \<and>
    rfold (carrier_child des p l sl) es (c, ks, ctr) =
      Inr (c\<lparr>ca_fp := x, ca_acl := map_option (\<lambda>_. replicate 8 ''INTERNAL'') x\<rparr>, ks, ctr)"
proof (cases x)
  case None
  then show ?thesis using assms by (cases c) (simp add: opt_list_def)
next
  case (Some b)
  let ?t = "plain_type FRONTPANEL None"
  have b: "b = \<lparr>bs_path = p @ [PS ''FP''], bs_location = None, bs_cls = FrontPlane_cls, bs_type = None\<rparr>" "ctr \<noteq> None"
    using assms(1) Some by (simp_all add: front_plane_ok_def)
  have "reverse_lookup entity_type_registry FrontPlane_cls = Inr ?t"
    by code_simp
  then have "ser_block_spec w b = Inr (pb_typed ''/FP'' ?t None [])"
    using pb_of_type_fits [OF w, of ?t p "''FP''"] by (simp add: ser_block_spec_def b)
  moreover have "child_path p (pb_typed ''/FP'' ?t None []) = Inr (p @ [PS ''FP''])"
    using parse_entity_id [of "''FP''"] by (simp add: child_path_def clean_name_def)
  ultimately show ?thesis
    using Some b(2) by (auto simp: opt_list_def carrier_child_def handle_front_plane_def b(1))
qed

lemma rmap_append: "rmap f (xs @ ys) = rbind (rmap f xs) (\<lambda>a. rbind (rmap f ys) (\<lambda>b. Inr (a @ b)))"
  by (induction xs) (auto simp: rbind_def split: sum.splits)

lemma rmap_map: "rmap f (map g xs) = rmap (\<lambda>x. f (g x)) xs"
  by (induction xs) simp_all

lemma carrier_roundtrip:
  assumes "carrier_ok ctr x" and w: "wire_ok w"
  shows "\<exists>e. serialize_specification w x = Inr e \<and> (\<exists>c ks. x = CarrierS c ks \<and> parse_id e = Inr (ca_path c) \<and>
    deserialize_specification ctr (ca_path c) None e = Inr (norm_spec x, ctr))"
proof -
  obtain c ks mac where x: "x = CarrierS c (map ClusterS ks)"
    and l: "case ca_location c of None \<Rightarrow> ctr = None | Some l \<Rightarrow> is_carrier l \<and> list_all u32 l"
    and mac: "ca_path c = [PS mac]" "clean_name mac"
    and ty: "\<forall>t. ca_type c = Some t \<longrightarrow> et_class t = CARRIER \<and> type_fits t"
    and ks: "\<forall>k \<in> set ks. cluster_ok (ca_path c) (ca_location c) k"
    and tb: "pred_option (block_ok (ca_path c) (ca_location c) ''T'') (ca_t c)"
    and st: "pred_option (block_ok (ca_path c) (map_option (take 1) (ca_location c)) ''ST0'') (ca_st0 c)"
      "pred_option (block_ok (ca_path c) (map_option (take 1) (ca_location c)) ''ST1'') (ca_st1 c)"
      "pred_option (block_ok (ca_path c) (map_option (take 1) (ca_location c)) ''ST2'') (ca_st2 c)"
    and fp: "pred_option (front_plane_ok ctr (ca_path c)) (ca_fp c)"
    using assms(1) unfolding carrier_ok_def clean_name_def by blast
  define ty' where "ty' = (case ca_type c of Some t \<Rightarrow> t | None \<Rightarrow> plain_type CARRIER None)"
  have ty': "et_class ty' = CARRIER" "type_fits ty'"
    using ty by (auto simp: ty'_def split: option.splits)
  let ?p = "ca_path c" and ?l = "ca_location c" and ?sl = "map_option (take 1) (ca_location c)"
  let ?fold = "rfold (carrier_child deserialize_specification ?p ?l ?sl)"
  define c0 where "c0 = new_carrier_spec ?p ?l (norm_type ty')"
  define c1 where "c1 = (case ca_t c of None \<Rightarrow> c0 | Some b \<Rightarrow> c0\<lparr>ca_t := Some (norm_block b)\<rparr>)"
  define c2 where "c2 = (case ca_st0 c of None \<Rightarrow> c1 | Some b \<Rightarrow> c1\<lparr>ca_st0 := Some (norm_block b)\<rparr>)"
  define c3 where "c3 = (case ca_st1 c of None \<Rightarrow> c2 | Some b \<Rightarrow> c2\<lparr>ca_st1 := Some (norm_block b)\<rparr>)"
  define c4 where "c4 = (case ca_st2 c of None \<Rightarrow> c3 | Some b \<Rightarrow> c3\<lparr>ca_st2 := Some (norm_block b)\<rparr>)"
  define ks' where "ks' = map (\<lambda>k. ClusterS (norm_cluster k)) ks"
  obtain ek where ek: "rmap (ser_cluster_spec w) ks = Inr ek" "?fold ek (c0, [], ctr) = Inr (c0, ks', ctr)"
    using carrier_clusters [OF w ks, of ?sl c0 "[]" ctr] by (auto simp: ks'_def)
  obtain e1 where e1: "rmap (ser_block_spec w) (opt_list (ca_t c)) = Inr e1" "?fold e1 (c0, ks', ctr) = Inr (c1, ks', ctr)"
    using carrier_slot [of ?p "''T''" ?l ?sl "ca_t c" "\<lambda>b c. c\<lparr>ca_t := Some b\<rparr>"] tb w
    unfolding c1_def slot_setter_def by fastforce
  obtain e2 where e2: "rmap (ser_block_spec w) (opt_list (ca_st0 c)) = Inr e2" "?fold e2 (c1, ks', ctr) = Inr (c2, ks', ctr)"
    using carrier_slot [of ?p "''ST0''" ?l ?sl "ca_st0 c" "\<lambda>b c. c\<lparr>ca_st0 := Some b\<rparr>"] st(1) w
    unfolding c2_def slot_setter_def by fastforce
  obtain e3 where e3: "rmap (ser_block_spec w) (opt_list (ca_st1 c)) = Inr e3" "?fold e3 (c2, ks', ctr) = Inr (c3, ks', ctr)"
    using carrier_slot [of ?p "''ST1''" ?l ?sl "ca_st1 c" "\<lambda>b c. c\<lparr>ca_st1 := Some b\<rparr>"] st(2) w
    unfolding c3_def slot_setter_def by fastforce
  obtain e4 where e4: "rmap (ser_block_spec w) (opt_list (ca_st2 c)) = Inr e4" "?fold e4 (c3, ks', ctr) = Inr (c4, ks', ctr)"
    using carrier_slot [of ?p "''ST2''" ?l ?sl "ca_st2 c" "\<lambda>b c. c\<lparr>ca_st2 := Some b\<rparr>"] st(3) w
    unfolding c4_def slot_setter_def by fastforce
  have c4: "ca_fp c4 = None" "ca_acl c4 = None"
    "c4\<lparr>ca_fp := ca_fp c, ca_acl := map_option (\<lambda>_. replicate 8 ''INTERNAL'') (ca_fp c)\<rparr> = norm_carrier c"
    unfolding c4_def c3_def c2_def c1_def c0_def new_carrier_spec_def norm_carrier_def ty'_def
    by (cases c; auto split: option.splits)+
  obtain e5 where e5: "rmap (ser_block_spec w) (opt_list (ca_fp c)) = Inr e5"
      "?fold e5 (c4, ks', ctr) = Inr (norm_carrier c, ks', ctr)"
    using carrier_front_plane [OF fp c4(1,2) w] unfolding c4(3) by blast
  obtain lo where lo: "ser_location w ?l = Inr lo" "\<And>e. pe_location e = lo \<Longrightarrow> locate_carrier ctr e None = (?l, ctr)"
      "(case ?l of None \<Rightarrow> Inr None | Some l \<Rightarrow> rbind (loc_stack l) (\<lambda>s. Inr (Some s))) = Inr ?sl"
    using l by (auto simp: is_carrier_def u32_def wire_u32 [OF w] length_Suc_conv ser_location_def locate_carrier_def new_carrier_def numeral_2_eq_2
        split: option.splits)
  let ?e = "pb_typed (CHR ''/'' # mac) ty' lo (ek @ e1 @ e2 @ e3 @ e4 @ e5)"
  have "serialize_specification w x = Inr ?e"
    using ek(1) e1(1) e2(1) e3(1) e4(1) e5(1) lo(1) mac(1) pb_of_type_fits [OF w ty'(2), of "[]" mac]
    by (simp add: x rmap_map carrier_blocks_def rmap_append ty'_def [symmetric])
  moreover have "deserialize_specification ctr ?p None ?e = Inr (norm_spec x, ctr)"
    using ek(2) e1(2) e2(2) e3(2) e4(2) e5(2) lo(2) [of ?e] lo(3) pop_pb_typed [of "CHR ''/'' # mac" ty' lo]
    by (simp add: pb_typed_def deserialize_specification.simps ty' rfold_append c0_def [symmetric] x ks'_def)
  moreover have "parse_id ?e = Inr ?p"
    using parse_entity_id [OF mac(2)] mac(1) by simp
  ultimately show ?thesis using x by blast
qed

lemma carriers_roundtrip:
  assumes w: "wire_ok w" and "\<forall>x \<in> set xs. carrier_ok ctr x"
  shows "\<exists>es. rmap (serialize_specification w) xs = Inr es \<and>
    rfold (\<lambda>child (ks, ctr). rbind (parse_id child) (\<lambda>q.
      rbind (deserialize_specification ctr q None child) (\<lambda>(k, ctr). Inr (ks @ [k], ctr)))) es (ks0, ctr) =
      Inr (ks0 @ map norm_spec xs, ctr)"
  using assms
proof (induction xs arbitrary: ks0)
  case (Cons x xs)
  then obtain e c ks where "serialize_specification w x = Inr e" "x = CarrierS c ks" "parse_id e = Inr (ca_path c)"
      "deserialize_specification ctr (ca_path c) None e = Inr (norm_spec x, ctr)"
    using carrier_roundtrip [of ctr x w] w by auto
  then show ?case
    using Cons.IH [of "ks0 @ [norm_spec x]"] Cons.prems by auto
qed simp

text \<open>
  C8. Round trip of a specification. A device whose carriers are well-formed, with numbers that fit the
  uint32 fields of the message, is serialized without error, and reading the message back, by the
  deserializer of a REDAC or of a LUCIDAC, rebuilds the same tree: the same carriers, clusters and
  blocks, in order, at the same paths and locations and of the same classes, with their types
  completed, but without the SH-blocks, which the serializer leaves out. The counter for unlocated
  carriers is not used.
\<close>

theorem specification_roundtrip:
  assumes "\<forall>x \<in> set cs. carrier_ok ctr x" and "p \<noteq> []" and "wire_ok w"
  shows "\<exists>e. serialize_specification w (DeviceS p cs) = Inr e \<and>
    deserialize_specification ctr p None e = Inr (DeviceS p (map norm_spec cs), ctr)"
proof -
  obtain es where es: "rmap (serialize_specification w) cs = Inr es"
    "rfold (\<lambda>child (ks, ctr). rbind (parse_id child) (\<lambda>q.
      rbind (deserialize_specification ctr q None child) (\<lambda>(k, ctr). Inr (ks @ [k], ctr)))) es ([], ctr) =
      Inr ([] @ map norm_spec cs, ctr)"
    using carriers_roundtrip [OF assms(3,1)] by blast
  obtain x where "path_id p = Inr x"
    using assms(2) path_id_snoc [of "butlast p" "last p"] by simp
  with es show ?thesis
    by (simp add: entity_id_def deserialize_specification.simps)
qed

definition demo_block :: "string \<Rightarrow> entity_cls \<Rightarrow> block_spec" where
  "demo_block name cls = \<lparr>bs_path = [PS ''04-E9'', PS ''0'', PS name], bs_location = Some [0, 1, 0], bs_cls = cls, bs_type = None\<rparr>"

definition demo_cluster_spec :: cluster_spec where
  "demo_cluster_spec =
     \<lparr>cs_path = [PS ''04-E9'', PS ''0''], cs_location = Some [0, 1, 0], cs_type = None,
      cs_m0 = Some (demo_block ''M0'' MIntBlock_cls), cs_m1 = Some ((demo_block ''M1'' MMulBlock_cls)\<lparr>bs_type :=
        Some \<lparr>et_class = MBLOCK, et_type = Some 2, et_version = Some (1, 2, 0), et_variant = Some 3\<rparr>\<rparr>),
      cs_u = demo_block ''U'' UBlock_cls, cs_c = demo_block ''C'' CBlock_cls, cs_i = demo_block ''I'' IBlock_cls,
      cs_sh = Some (demo_block ''SH'' SHBlock_cls)\<rparr>"

definition demo_carrier_spec :: carrier_spec where
  "demo_carrier_spec =
     \<lparr>ca_path = [PS ''04-E9''], ca_location = Some [0, 1], ca_type = None,
      ca_t = Some \<lparr>bs_path = [PS ''04-E9'', PS ''T''], bs_location = Some [0, 1], bs_cls = TBlock_cls, bs_type = None\<rparr>,
      ca_st0 = Some \<lparr>bs_path = [PS ''04-E9'', PS ''ST0''], bs_location = Some [0], bs_cls = BackplaneTBlock_cls, bs_type = None\<rparr>,
      ca_st1 = None, ca_st2 = None,
      ca_fp = Some \<lparr>bs_path = [PS ''04-E9'', PS ''FP''], bs_location = None, bs_cls = FrontPlane_cls, bs_type = None\<rparr>,
      ca_acl = None\<rparr>"

definition demo_spec :: spec_entity where
  "demo_spec = CarrierS demo_carrier_spec [ClusterS demo_cluster_spec]"

lemma block_ok_code:
  "block_ok p l name b \<longleftrightarrow> bs_path b = p @ [PS name] \<and> bs_location b = l \<and>
     type_fits (the (bs_type (norm_block b))) \<and>
     (bs_type b \<noteq> None \<or> (case reverse_lookup entity_type_registry (bs_cls b) of Inl _ \<Rightarrow> False | Inr _ \<Rightarrow> True)) \<and>
     lookup_type entity_type_registry (the (bs_type (norm_block b))) True = Inr (bs_cls b)"
  by (auto simp: block_ok_def split: sum.splits)

lemma demo_blocks_ok:
  "block_ok [PS ''04-E9'', PS ''0''] (Some [0, 1, 0]) ''M0'' (demo_block ''M0'' MIntBlock_cls)"
  "block_ok [PS ''04-E9'', PS ''0''] (Some [0, 1, 0]) ''M1'' (the (cs_m1 demo_cluster_spec))"
  "block_ok [PS ''04-E9'', PS ''0''] (Some [0, 1, 0]) ''U'' (demo_block ''U'' UBlock_cls)"
  "block_ok [PS ''04-E9'', PS ''0''] (Some [0, 1, 0]) ''C'' (demo_block ''C'' CBlock_cls)"
  "block_ok [PS ''04-E9'', PS ''0''] (Some [0, 1, 0]) ''I'' (demo_block ''I'' IBlock_cls)"
  "block_ok [PS ''04-E9''] (Some [0, 1]) ''T'' (the (ca_t demo_carrier_spec))"
  "block_ok [PS ''04-E9''] (Some [0]) ''ST0'' (the (ca_st0 demo_carrier_spec))"
  unfolding block_ok_code by code_simp+

lemma demo_spec_ok: "carrier_ok (Some 0) demo_spec"
proof -
  have "py_int ''0'' = Inr 0" "sublist ''0'' ''0123456789''"
    by code_simp+
  moreover have "cs_path demo_cluster_spec = [PS ''04-E9''] @ [PS ''0'']"
    by (simp add: demo_cluster_spec_def)
  ultimately have k: "cluster_ok [PS ''04-E9''] (Some [0, 1]) demo_cluster_spec"
    unfolding cluster_ok_def using demo_blocks_ok(1-5)
    by (intro conjI exI [of _ "''0''"] exI [of _ 0]) (simp_all add: demo_cluster_spec_def loc_div_def)
  show ?thesis
    unfolding carrier_ok_def demo_spec_def using demo_blocks_ok(6,7) k
    by (intro exI [of _ demo_carrier_spec] exI [of _ "[demo_cluster_spec]"])
      (simp add: demo_carrier_spec_def is_carrier_def u32_def front_plane_ok_def)
qed

theorem specification_roundtrip_witness:
  "\<exists>e. serialize_specification exact_wire (DeviceS [PS ''root''] [demo_spec]) = Inr e \<and>
    deserialize_specification (Some 0) [PS ''root''] None e = Inr (DeviceS [PS ''root''] [norm_spec demo_spec], Some 0)"
  using specification_roundtrip [of "[demo_spec]" "Some 0" "[PS ''root'']" exact_wire] demo_spec_ok exact_wire_ok by simp

section \<open>Modules\<close>

text \<open>
  A module lists the specification of every entity, the wiring of the computer and the
  configuration. \<open>specs\<close> is the specification side of \<open>computer.entities\<close>, \<open>r\<close> their configuration side
  and the wiring; \<open>valid\<close> are the verdicts of the validators. The pin of a received wiring message is
  \<open>None\<close> when the sender set none.
\<close>

datatype module_item =
    EntitySpecification string pb_entity
  | WiringSpecification string "string \<times> pin option" "string \<times> pin option"
  | ConfigItem item

definition spec_path :: "spec_entity \<Rightarrow> path" where
  "spec_path x = (case x of BlockS b \<Rightarrow> bs_path b | ClusterS c \<Rightarrow> cs_path c | CarrierS c _ \<Rightarrow> ca_path c | DeviceS p _ \<Rightarrow> p)"

definition serialize_entity_items :: "pb_wire \<Rightarrow> spec_entity list \<Rightarrow> module_item list res" where
  "serialize_entity_items w specs =
     rmap (\<lambda>x. rbind (serialize_specification w x) (\<lambda>e. Inr (EntitySpecification (path_str (spec_path x)) e))) specs"

definition serialize_specification_payloads :: "wiring_spec list \<Rightarrow> module_item list" where
  "serialize_specification_payloads ws =
     map (\<lambda>s. WiringSpecification [] (ws_source_path s, Some (ws_source_pin s)) (ws_target_path s, Some (ws_target_pin s))) ws"

definition serialize ::
    "nat \<Rightarrow> pb_wire \<Rightarrow> bool \<Rightarrow> (redac \<Rightarrow> bool) list \<Rightarrow> spec_entity list \<Rightarrow> redac \<Rightarrow> routing \<Rightarrow> module_item list res option \<times> routing" where
  "serialize fuel w skip_validation validators specs r rt =
     (if \<not> skip_validation \<and> \<not> list_all (\<lambda>v. v r) validators then (Some (Inl ValueError), rt)
      else case serialize_entity_items w specs of
          Inl e \<Rightarrow> (Some (Inl e), rt)
        | Inr items \<Rightarrow>
            (case serialize_configuration fuel w r rt of
               (m, rt) \<Rightarrow> (dbind m (\<lambda>its.
                 Some (Inr (items @ serialize_specification_payloads (rd_wiring_specs r) @ map ConfigItem its))), rt)))"

text \<open>The validators of a \<open>REDACSerializer\<close>, as its constructor registers them.\<close>

definition redac_validators :: "(redac \<Rightarrow> bool) list" where
  "redac_validators = [adc_probe_valid]"

fun is_spec_payload :: "module_item \<Rightarrow> bool" where
  "is_spec_payload (ConfigItem _) = False"
| "is_spec_payload _ = True"

definition received_pin :: "string \<times> pin option \<Rightarrow> pin res" where
  "received_pin p = (case snd p of None \<Rightarrow> Inl ValueError | Some x \<Rightarrow> Inr x)"

text \<open>An entity specification is built and dropped again: only its errors have an effect.\<close>

fun deserialize_payload ::
    "module_item \<Rightarrow> int option \<times> wiring_spec list \<Rightarrow> (int option \<times> wiring_spec list) res" where
  "deserialize_payload (EntitySpecification s e) (ctr, ws) =
     rbind (path_parse redac_schema (\<lambda>_. None) s) (\<lambda>p.
     rbind (deserialize_specification ctr p None e) (\<lambda>(_, ctr). Inr (ctr, ws)))"
| "deserialize_payload (WiringSpecification _ source target) (ctr, ws) =
     rbind (received_pin source) (\<lambda>spin. rbind (received_pin target) (\<lambda>tpin.
     rbind (make_wiring_spec (fst source) spin (fst target) tpin) (\<lambda>s. Inr (ctr, ws @ [s]))))"
| "deserialize_payload (ConfigItem _) st = Inr st"

fun config_items :: "module_item list \<Rightarrow> item list" where
  "config_items [] = []"
| "config_items (ConfigItem it # xs) = it # config_items xs"
| "config_items (_ # xs) = config_items xs"

definition deserialize ::
    "int option \<Rightarrow> module_item list \<Rightarrow> wiring_spec list \<times> store \<Rightarrow> (wiring_spec list \<times> store) res" where
  "deserialize ctr its st =
     (case st of (ws, d) \<Rightarrow>
      rbind (rfold deserialize_payload (filter is_spec_payload its) (ctr, ws)) (\<lambda>(_, ws).
      rbind (deserialize_configuration (config_items its) d) (\<lambda>d. Inr (ws, d))))"

definition wiring_ok :: "wiring_spec \<Rightarrow> bool" where
  "wiring_ok s \<longleftrightarrow> validate_named_pin (ws_source_pin s) = Inr () \<and> validate_named_pin (ws_target_pin s) = Inr ()"

lemma make_wiring_spec_ok: "make_wiring_spec a s b t = Inr x \<Longrightarrow> wiring_ok x"
  by (auto simp: make_wiring_spec_def wiring_ok_def rbind_eq_Inr_iff)

lemma wiring_received:
  assumes "\<forall>s \<in> set ws. wiring_ok s"
  shows "rfold deserialize_payload (serialize_specification_payloads ws) (ctr, ws0) = Inr (ctr, ws0 @ ws)"
  using assms
proof (induction ws arbitrary: ws0)
  case (Cons s ws)
  then show ?case
    by (simp add: serialize_specification_payloads_def received_pin_def make_wiring_spec_def wiring_ok_def)
qed (simp add: serialize_specification_payloads_def)

lemma entities_received:
  assumes w: "wire_ok w" and "\<forall>x \<in> set specs. carrier_ok ctr x"
  shows "\<exists>items. serialize_entity_items w specs = Inr items \<and> rfold deserialize_payload items (ctr, ws) = Inr (ctr, ws) \<and>
    (\<forall>it \<in> set items. is_spec_payload it)"
  using assms
proof (induction specs)
  case (Cons x specs)
  then obtain e c ks where e: "serialize_specification w x = Inr e" "x = CarrierS c ks"
      "deserialize_specification ctr (ca_path c) None e = Inr (norm_spec x, ctr)"
    using carrier_roundtrip [of ctr x w] w by auto
  obtain mac where "ca_path c = [PS mac]" "clean_name mac"
    using Cons.prems by (auto simp: carrier_ok_def clean_name_def e(2))
  then have "path_parse redac_schema (\<lambda>_. None) (path_str (ca_path c)) = Inr (ca_path c)"
    by (intro path_parse_path_str) (auto simp: canonical_path_def clean_name_def)
  then show ?case
    using e Cons.IH Cons.prems by (auto simp: serialize_entity_items_def spec_path_def)
qed (simp add: serialize_entity_items_def)

lemma config_items_append [simp]: "config_items (xs @ ys) = config_items xs @ config_items ys"
  by (induction xs rule: config_items.induct) simp_all

lemma config_items_spec: "\<forall>it \<in> set items. is_spec_payload it \<Longrightarrow> config_items items = []"
  by (induction items rule: config_items.induct) simp_all

lemma config_items_map [simp]: "config_items (map ConfigItem its) = its"
  by (induction its) simp_all

lemma payloads_spec: "\<forall>it \<in> set (serialize_specification_payloads ws). is_spec_payload it"
  by (auto simp: serialize_specification_payloads_def)


definition demo_wired :: redac where
  "demo_wired = demo_sender\<lparr>rd_wiring_specs := [\<lparr>ws_source_path = ''/04-E9'', ws_source_pin = NamedPin ''gen0'',
     ws_target_path = ''/04-E9'', ws_target_pin = IndexedPin 3\<rparr>]\<rparr>"


end
