(* ===== verification/Connections.thy ===== *)
theory Connections
  imports Specification "HOL-Library.AList"
begin

text \<open>
  The connections to devices: \<open>ConnectionManager\<close> of redac/connection.py and \<open>add_device\<close> of
  redac/controller.py, which builds the computer from what the devices report.

  A \<open>DeviceConnection\<close> is compared by identity; \<open>dc_id\<close> is that identity, and the manager's \<open>mg_fresh\<close>
  supplies the next one. \<open>mg_channels\<close> are the control channels that have been started and not
  stopped. The network and the native channels are a parameter: an \<open>endpoint\<close> says what discovery
  returns and how starting the control and the data channel ends, a \<open>stopping\<close> how stopping the data
  and the control channel of each connection ends.
\<close>

section \<open>ConnectionManager\<close>

record device_connection =
  dc_id :: nat
  dc_control :: bool
  dc_data :: bool

datatype topology = Direct | Proxy

record carrier_info =
  ci_path :: path
  ci_mac :: string
  ci_entity :: pb_entity

record manager =
  mg_connections :: "(path \<times> device_connection) list"
  mg_cache :: "module_item list"
  mg_topology :: "topology option"
  mg_channels :: "nat list"
  mg_fresh :: nat

definition new_manager :: manager where
  "new_manager = \<lparr>mg_connections = [], mg_cache = [], mg_topology = None, mg_channels = [], mg_fresh = 0\<rparr>"

record endpoint =
  ep_module :: "module_item list res"
  ep_control :: "unit res"
  ep_data :: "unit res"

definition get_connection :: "path \<Rightarrow> manager \<Rightarrow> device_connection res" where
  "get_connection p m = (case map_of (mg_connections m) p of None \<Rightarrow> Inl KeyError | Some c \<Rightarrow> Inr c)"

definition get_unique_connections :: "manager \<Rightarrow> device_connection set" where
  "get_unique_connections m = set (map snd (mg_connections m))"

definition carrier_info_of :: "pb_entity \<Rightarrow> carrier_info res" where
  "carrier_info_of e =
     (let mac = strip (\<lambda>c. c = CHR ''/'') (pe_id e) in
      rbind (path_parse base_schema (\<lambda>_. None) mac) (\<lambda>p. Inr \<lparr>ci_path = p, ci_mac = mac, ci_entity = e\<rparr>))"

definition carrier_entities :: "pb_entity \<Rightarrow> pb_entity list" where
  "carrier_entities e =
     (if pe_class e = entity_class_value CARRIER then [e]
      else filter (\<lambda>c. pe_class c = entity_class_value CARRIER) (pe_children e))"

definition detect_topology :: "pb_entity \<Rightarrow> carrier_info list res" where
  "detect_topology e =
     rbind (rmap carrier_info_of (carrier_entities e)) (\<lambda>cs. if cs = [] then Inl ValueError else Inr cs)"

text \<open>The reported entities are put into the cache one by one, each before its carriers are looked for.\<close>

fun module_entities :: "module_item list \<Rightarrow> pb_entity list" where
  "module_entities [] = []"
| "module_entities (EntitySpecification _ e # its) = e # module_entities its"
| "module_entities (_ # its) = module_entities its"

fun cache_entities :: "pb_entity list \<Rightarrow> carrier_info list \<Rightarrow> (manager, carrier_info list) pym" where
  "cache_entities [] cs = ret cs"
| "cache_entities (e # es) cs =
     sbind (modify (\<lambda>m. m\<lparr>mg_cache := mg_cache m @ [EntitySpecification [] e]\<rparr>)) (\<lambda>_.
     sbind (eval_st (\<lambda>_. detect_topology e)) (\<lambda>new. cache_entities es (cs @ new)))"

definition is_wiring :: "module_item \<Rightarrow> bool" where
  "is_wiring it = (case it of WiringSpecification _ _ _ \<Rightarrow> True | _ \<Rightarrow> False)"

definition create_connections :: "endpoint \<Rightarrow> carrier_info list \<Rightarrow> (manager, (path \<times> device_connection) list) pym" where
  "create_connections ep carriers =
     sbind (eval_st (\<lambda>_. ep_control ep)) (\<lambda>_.
     sbind get_st (\<lambda>m.
     let conn = \<lparr>dc_id = mg_fresh m, dc_control = True, dc_data = True\<rparr> in
     sbind (modify (\<lambda>m. m\<lparr>mg_fresh := mg_fresh m + 1, mg_channels := mg_channels m @ [mg_fresh m]\<rparr>)) (\<lambda>_.
     sbind (eval_st (\<lambda>_. ep_data ep)) (\<lambda>_.
     ret (fold (\<lambda>c d. AList.update (ci_path c) conn d) carriers [])))))"

definition register :: "carrier_info list \<Rightarrow> (path \<times> device_connection) list \<Rightarrow> (manager, unit) pym" where
  "register carriers new =
     (let incoming = (if length carriers > 1 then Proxy else Direct) in
      sbind get_st (\<lambda>m.
      sbind (case mg_topology m of
          None \<Rightarrow> modify (\<lambda>m. m\<lparr>mg_topology := Some incoming\<rparr>)
        | Some t \<Rightarrow>
            sbind (guard (t = incoming) RuntimeError) (\<lambda>_.
            guard (t = Proxy \<longrightarrow> set (map snd new) \<subseteq> set (map snd (mg_connections m))) RuntimeError)) (\<lambda>_.
      modify (\<lambda>m. m\<lparr>mg_connections := fold (\<lambda>(p, c) d. AList.update p c d) new (mg_connections m)\<rparr>))))"

definition add_device :: "endpoint \<Rightarrow> (manager, carrier_info list \<times> (path \<times> device_connection) list) pym" where
  "add_device ep =
     sbind (eval_st (\<lambda>_. ep_module ep)) (\<lambda>module.
     sbind (cache_entities (module_entities module) []) (\<lambda>carriers.
     sbind (modify (\<lambda>m. m\<lparr>mg_cache := mg_cache m @ filter is_wiring module\<rparr>)) (\<lambda>_.
     sbind (create_connections ep carriers) (\<lambda>new.
     sbind (register carriers new) (\<lambda>_. ret (carriers, new))))))"

text \<open>
  Stopping: the data channel of a connection first, then its control channel. \<open>us\<close> is the order in
  which the set of unique connections is visited. Every error is collected; the registry is cleared
  whatever happens.
\<close>

type_synonym stopping = "device_connection \<Rightarrow> unit res \<times> unit res"

definition stop_connection :: "stopping \<Rightarrow> device_connection \<Rightarrow> (manager, unit) pym" where
  "stop_connection st c =
     sbind (if dc_data c then eval_st (\<lambda>_. fst (st c)) else ret ()) (\<lambda>_.
     if dc_control c
     then sbind (eval_st (\<lambda>_. snd (st c))) (\<lambda>_. modify (\<lambda>m. m\<lparr>mg_channels := removeAll (dc_id c) (mg_channels m)\<rparr>))
     else ret ())"

fun stop_all :: "stopping \<Rightarrow> device_connection list \<Rightarrow> manager \<Rightarrow> py_exn list \<times> manager" where
  "stop_all st [] m = ([], m)"
| "stop_all st (c # cs) m =
     (case stop_connection st c m of (r, m) \<Rightarrow>
      case stop_all st cs m of (errors, m) \<Rightarrow>
      (case r of Inl e \<Rightarrow> (e # errors, m) | Inr _ \<Rightarrow> (errors, m)))"

definition close_all :: "stopping \<Rightarrow> device_connection list \<Rightarrow> (manager, unit) pym" where
  "close_all st us m =
     (case stop_all st us m of (errors, m) \<Rightarrow>
      (if errors = [] then Inr () else Inl RuntimeError, m\<lparr>mg_connections := [], mg_topology := None\<rparr>))"

section \<open>What the registry promises\<close>

text \<open>
  The abstract registry: nothing, a fleet of directly connected carriers, or the carriers behind one
  proxy. A fleet only grows by further single carriers; a proxy stays alone.
\<close>

datatype fleet =
    NoFleet
  | DirectFleet "path \<rightharpoonup> device_connection"
  | ProxyFleet device_connection "path set"

fun fleet_add :: "path list \<Rightarrow> device_connection \<Rightarrow> fleet \<Rightarrow> fleet option" where
  "fleet_add ps k NoFleet =
     Some (if length ps > 1 then ProxyFleet k (set ps) else DirectFleet (\<lambda>p. if p \<in> set ps then Some k else None))"
| "fleet_add ps k (DirectFleet f) =
     (if length ps > 1 then None else Some (DirectFleet (\<lambda>p. if p \<in> set ps then Some k else f p)))"
| "fleet_add ps k (ProxyFleet k' S) = None"

definition fleet_of :: "manager \<Rightarrow> fleet" where
  "fleet_of m =
     (case mg_topology m of
        None \<Rightarrow> NoFleet
      | Some Direct \<Rightarrow> DirectFleet (map_of (mg_connections m))
      | Some Proxy \<Rightarrow> ProxyFleet (snd (hd (mg_connections m))) (fst ` set (mg_connections m)))"

text \<open>
  The invariant: paths are unique, connections belong to the manager and their control channels have
  been started and not stopped; without a mode there is no
  connection; behind a proxy all carriers share one connection; in direct mode no two carriers do.
\<close>

definition manager_inv :: "manager \<Rightarrow> bool" where
  "manager_inv m \<longleftrightarrow>
     distinct (map fst (mg_connections m)) \<and>
     (\<forall>(p, c) \<in> set (mg_connections m). dc_id c \<in> set (mg_channels m) \<and> dc_id c < mg_fresh m \<and> dc_control c \<and> dc_data c) \<and>
     (\<forall>i \<in> set (mg_channels m). i < mg_fresh m) \<and> distinct (mg_channels m) \<and>
     (case mg_topology m of
        None \<Rightarrow> mg_connections m = []
      | Some Direct \<Rightarrow> distinct (map snd (mg_connections m))
      | Some Proxy \<Rightarrow> mg_connections m \<noteq> [] \<and> (\<exists>k. \<forall>(p, c) \<in> set (mg_connections m). c = k))"

inductive manager_reachable :: "manager \<Rightarrow> bool" where
  start: "manager_reachable new_manager"
| added: "manager_reachable m \<Longrightarrow> manager_reachable (snd (add_device ep m))"
| closed: "manager_reachable m \<Longrightarrow> distinct us \<Longrightarrow> set us = get_unique_connections m \<Longrightarrow>
    manager_reachable (snd (close_all st us m))"

lemma rmap_image: "rmap f xs = Inr ys \<Longrightarrow> x \<in> set xs \<Longrightarrow> \<exists>y \<in> set ys. f x = Inr y"
  by (induction xs arbitrary: ys) (auto simp: rbind_eq_Inr_iff)

text \<open>Dictionaries in which every key has the same value.\<close>

abbreviation all_to :: "'b \<Rightarrow> 'a list \<Rightarrow> ('a \<times> 'b) list" where
  "all_to k ps \<equiv> map (\<lambda>p. (p, k)) ps"

lemma update_all_to:
  "AList.update p k (all_to k ps) = all_to k (if p \<in> set ps then ps else ps @ [p])"
  by (induction ps) auto

lemma fold_update_carriers:
  assumes "distinct ps"
  shows "\<exists>qs. fold (\<lambda>c d. AList.update (ci_path c) k d) cs (all_to k ps) = all_to k qs \<and>
    distinct qs \<and> set qs = set ps \<union> ci_path ` set cs \<and> length qs \<le> length ps + length cs"
  using assms
proof (induction cs arbitrary: ps)
  case (Cons c cs)
  let ?ps = "if ci_path c \<in> set ps then ps else ps @ [ci_path c]"
  have "distinct ?ps" using Cons.prems by simp
  from Cons.IH [OF this] show ?case
    by (auto simp: update_all_to split: if_splits)
qed auto

lemma map_of_fold_update:
  "map_of (fold (\<lambda>(p, c) d. AList.update p c d) (all_to k ps) d) = (\<lambda>p. if p \<in> set ps then Some k else map_of d p)"
  by (induction ps arbitrary: d) (auto simp: update_conv fun_eq_iff)

lemma fold_update_distinct:
  "distinct (map fst d) \<Longrightarrow> distinct (map fst (fold (\<lambda>(p, c) d. AList.update p c d) (all_to k ps) d))"
  by (induction ps arbitrary: d) (auto simp: distinct_update)

lemma fold_update_entries:
  assumes "distinct (map fst d)"
  shows "set (fold (\<lambda>(p, c) d. AList.update p c d) (all_to k ps) d) \<subseteq> set (all_to k ps) \<union> set d"
proof
  fix x assume x: "x \<in> set (fold (\<lambda>(p, c) d. AList.update p c d) (all_to k ps) d)"
  obtain p c where pc: "x = (p, c)" by fastforce
  have "map_of (fold (\<lambda>(p, c) d. AList.update p c d) (all_to k ps) d) p = Some c"
    using x fold_update_distinct [OF assms, of k ps] pc by (simp add: map_of_is_SomeI)
  then show "x \<in> set (all_to k ps) \<union> set d"
    by (auto simp: map_of_fold_update pc split: if_splits dest: map_of_SomeD)
qed

lemma update_snd_distinct:
  "distinct (map snd d) \<Longrightarrow> k \<notin> snd ` set d \<Longrightarrow> distinct (map snd (AList.update p k d)) \<and> snd ` set (AList.update p k d) \<subseteq> insert k (snd ` set d)"
  by (induction d) (auto split: if_splits)

text \<open>The steps of \<open>add_device\<close>.\<close>

lemma cache_entities_frame:
  "snd (cache_entities es cs m) = m\<lparr>mg_cache := mg_cache (snd (cache_entities es cs m))\<rparr>"
proof (induction es arbitrary: cs m)
  case (Cons e es)
  show ?case
  proof (cases "detect_topology e")
    case (Inr new)
    then show ?thesis
      using Cons.IH [of "cs @ new" "m\<lparr>mg_cache := mg_cache m @ [EntitySpecification [] e]\<rparr>"] by (simp add: pym_defs)
  qed (simp add: pym_defs)
qed (simp add: ret_def)

definition opened :: "manager \<Rightarrow> manager" where
  "opened m = m\<lparr>mg_fresh := mg_fresh m + 1, mg_channels := mg_channels m @ [mg_fresh m]\<rparr>"

lemma create_connections_cases:
  obtains (no_control) e where "create_connections ep cs m = (Inl e, m)"
  | (no_data) e where "create_connections ep cs m =
      (Inl e, opened m)"
  | (created) k ps where "create_connections ep cs m =
      (Inr (all_to k ps), opened m)"
      and "k = \<lparr>dc_id = mg_fresh m, dc_control = True, dc_data = True\<rparr>" and "distinct ps"
      and "set ps = ci_path ` set cs" and "length ps \<le> length cs"
proof -
  let ?k = "\<lparr>dc_id = mg_fresh m, dc_control = True, dc_data = True\<rparr>"
  obtain ps where ps: "fold (\<lambda>c d. AList.update (ci_path c) ?k d) cs [] = all_to ?k ps" "distinct ps"
      "set ps = ci_path ` set cs" "length ps \<le> length cs"
    using fold_update_carriers [of "[]" ?k cs] by auto
  show thesis
  proof (cases "ep_control ep")
    case (Inl e)
    then show thesis using no_control by (simp add: create_connections_def pym_defs opened_def)
  next
    case u: (Inr u)
    show thesis
    proof (cases "ep_data ep")
      case (Inl e)
      then show thesis using no_data u by (simp add: create_connections_def pym_defs opened_def)
    next
      case (Inr v)
      then show thesis
        using created [OF _ _ ps(2-4)] u ps(1) by (simp add: create_connections_def pym_defs opened_def)
    qed
  qed
qed

lemma register_cases:
  assumes "register cs (all_to k ps) m = (r, m')" and "k \<notin> snd ` set (mg_connections m)" and "cs \<noteq> [] \<longrightarrow> ps \<noteq> []"
    and "mg_topology m = None \<longrightarrow> mg_connections m = []"
  shows "r = Inl RuntimeError \<and> m' = m \<and> fleet_add (map ci_path cs) k (fleet_of m) = None \<or>
    r = Inr () \<and> m' = m\<lparr>mg_topology := Some (if length cs > 1 then Proxy else Direct),
      mg_connections := fold (\<lambda>(p, c) d. AList.update p c d) (all_to k ps) (mg_connections m)\<rparr> \<and>
      (mg_topology m = None \<or> mg_topology m = Some Direct \<and> length cs \<le> 1)"
proof (cases "mg_topology m")
  case None
  then show ?thesis using assms(1) by (auto simp: register_def pym_defs Let_def)
next
  case (Some t)
  have sub: "\<not> set (map snd (all_to k ps)) \<subseteq> set (map snd (mg_connections m))" if "Suc 0 < length cs"
    using assms(2,3) that by (cases ps; cases cs) auto
  show ?thesis
    using assms(1) Some sub by (cases t) (auto simp: register_def pym_defs Let_def fleet_of_def split: if_splits)
qed

lemma manager_inv_frame:
  assumes "manager_inv m"
  shows "manager_inv (m\<lparr>mg_cache := x\<rparr>)" and "manager_inv (opened m)"
  using assms by (auto simp: manager_inv_def opened_def less_Suc_eq split: option.splits topology.splits)

lemma fresh_connection:
  "manager_inv m \<Longrightarrow> dc_id k = mg_fresh m \<Longrightarrow> k \<notin> snd ` set (mg_connections m)"
  by (fastforce simp: manager_inv_def)

lemma register_inv:
  assumes "manager_inv m" and "register cs (all_to k ps) m = (r, m')" and "k \<notin> snd ` set (mg_connections m)"
    and "dc_id k \<in> set (mg_channels m) \<and> dc_id k < mg_fresh m" "dc_control k" "dc_data k"
    and "set ps = ci_path ` set cs" and "length ps \<le> length cs"
  shows "manager_inv m' \<and>
    (r = Inl RuntimeError \<and> m' = m \<and> fleet_add (map ci_path cs) k (fleet_of m) = None \<or>
     r = Inr () \<and> fleet_add (map ci_path cs) k (fleet_of m) = Some (fleet_of m'))"
proof -
  let ?d = "fold (\<lambda>(p, c) d. AList.update p c d) (all_to k ps) (mg_connections m)"
  have ne: "cs \<noteq> [] \<longrightarrow> ps \<noteq> []"
    using assms(7) by (cases cs) auto
  have top: "mg_topology m = None \<longrightarrow> mg_connections m = []"
    using assms(1) by (auto simp: manager_inv_def)
  consider (rejected) "r = Inl RuntimeError" "m' = m" "fleet_add (map ci_path cs) k (fleet_of m) = None"
    | (accepted) "r = Inr ()" "m' = m\<lparr>mg_topology := Some (if length cs > 1 then Proxy else Direct), mg_connections := ?d\<rparr>"
        "mg_topology m = None \<or> mg_topology m = Some Direct \<and> length cs \<le> 1"
    using register_cases [OF assms(2,3) ne top] by (elim disjE conjE) simp_all
  then show ?thesis
  proof cases
    case rejected
    then show ?thesis using assms(1) by blast
  next
    case accepted
    have inv: "distinct (map fst (mg_connections m))" "\<forall>(p, c) \<in> set (mg_connections m). dc_id c \<in> set (mg_channels m) \<and> dc_id c < mg_fresh m \<and> dc_control c \<and> dc_data c"
        "\<forall>i \<in> set (mg_channels m). i < mg_fresh m" "distinct (mg_channels m)"
      using assms(1) by (simp_all add: manager_inv_def)
    have d: "distinct (map fst ?d)"
      using inv(1) by (rule fold_update_distinct)
    have entries: "\<forall>(p, c) \<in> set ?d. dc_id c \<in> set (mg_channels m) \<and> dc_id c < mg_fresh m \<and> dc_control c \<and> dc_data c"
      using fold_update_entries [OF inv(1), of k ps] inv(2) assms(4-6) by fastforce
    show ?thesis
    proof (cases "length cs > 1")
      case True
      then have t: "mg_topology m = None" "mg_connections m = []" "ps \<noteq> []"
        using accepted(3) top ne by auto
      have "set ?d \<subseteq> set (all_to k ps)"
        using fold_update_entries [of "[]" k ps] by (simp add: t)
      moreover have "map_of ?d = (\<lambda>p. if p \<in> set ps then Some k else None)"
        by (simp add: map_of_fold_update t fun_eq_iff)
      then have keys: "fst ` set ?d = set ps"
        by (auto simp: dom_map_of_conv_image_fst [symmetric] dom_def)
      ultimately have one: "\<forall>(p, c) \<in> set ?d. c = k" "?d \<noteq> []"
        using t(3) keys by fastforce+
      then have "snd (hd ?d) = k"
        by (metis (mono_tags, lifting) case_prod_beta hd_in_set)
      then have "fleet_of m' = ProxyFleet k (set (map ci_path cs))"
        using True keys assms(7) by (simp add: accepted(2) fleet_of_def)
      moreover have "manager_inv m'"
        using True inv d entries one by (auto simp: manager_inv_def accepted(2))
      ultimately show ?thesis
        using True t(1) by (simp add: accepted(1) fleet_of_def)
    next
      case False
      have direct: "distinct (map snd (mg_connections m))"
        using accepted(3) top assms(1) by (auto simp: manager_inv_def)
      have ps: "ps = [] \<or> (\<exists>p. ps = [p])"
        using le_trans [OF assms(8), of 1] False by (cases ps) auto
      then have "distinct (map snd ?d)"
        using update_snd_distinct [OF direct assms(3)] direct by auto
      then have "manager_inv m'"
        using False inv d entries by (simp add: manager_inv_def accepted(2))
      moreover have "fleet_of m' = DirectFleet (\<lambda>p. if p \<in> set ps then Some k else map_of (mg_connections m) p)"
        using False by (simp add: fleet_of_def accepted(2) map_of_fold_update)
      ultimately show ?thesis
        using False accepted(3) top assms(7) by (auto simp: fleet_of_def accepted(1) fun_eq_iff)
    qed
  qed
qed

lemma fleet_of_frame [simp]: "fleet_of (m\<lparr>mg_cache := x\<rparr>) = fleet_of m" "fleet_of (opened m) = fleet_of m"
  by (simp_all add: fleet_of_def opened_def split: option.splits topology.splits)

lemma add_device_steps:
  assumes "manager_inv m" and "add_device ep m = (r, m')"
  shows "manager_inv m' \<and>
    (case r of Inl e \<Rightarrow> fleet_of m' = fleet_of m
     | Inr (carriers, new) \<Rightarrow> \<exists>k. (\<forall>(p, c) \<in> set new. c = k) \<and>
         fleet_add (map ci_path carriers) k (fleet_of m) = Some (fleet_of m'))"
proof (cases "ep_module ep")
  case (Inl e)
  with assms show ?thesis by (auto simp: add_device_def pym_defs)
next
  case module: (Inr module)
  obtain rc m1 where c: "cache_entities (module_entities module) [] m = (rc, m1)" by fastforce
  have m1: "m1 = m\<lparr>mg_cache := mg_cache m1\<rparr>"
    using cache_entities_frame [of "module_entities module" "[]" m] by (simp add: c)
  have inv1: "manager_inv m1" "fleet_of m1 = fleet_of m"
    by (subst m1, simp add: manager_inv_frame(1) [OF assms(1)]) (subst m1, simp)
  show ?thesis
  proof (cases rc)
    case (Inl e)
    with assms(2) c inv1 module show ?thesis by (auto simp: add_device_def pym_defs)
  next
    case (Inr cs)
    define m2 where "m2 = m1\<lparr>mg_cache := mg_cache m1 @ filter is_wiring module\<rparr>"
    have inv2: "manager_inv m2" "fleet_of m2 = fleet_of m"
      using inv1 manager_inv_frame(1) by (simp_all add: m2_def)
    have run: "add_device ep m = sbind (create_connections ep cs) (\<lambda>new. sbind (register cs new) (\<lambda>_. ret (cs, new))) m2"
      using c Inr module by (simp add: add_device_def sbind_def eval_st_def modify_def m2_def)
    show ?thesis
    proof (cases rule: create_connections_cases [of ep cs m2])
      case no_control
      with assms(2) inv2 run show ?thesis by (auto simp: sbind_def)
    next
      case no_data
      with assms(2) inv2 run manager_inv_frame(2) [OF inv2(1)] show ?thesis
        by (auto simp: sbind_def)
    next
      case (created k ps)
      obtain rr m3 where reg: "register cs (all_to k ps) (opened m2) = (rr, m3)" by fastforce
      have "k \<notin> snd ` set (mg_connections (opened m2))"
        using fresh_connection [OF inv2(1), of k] created(2) by (simp add: opened_def)
      moreover have "dc_id k \<in> set (mg_channels (opened m2)) \<and> dc_id k < mg_fresh (opened m2)" "dc_control k" "dc_data k"
        by (simp_all add: created(2) opened_def)
      ultimately have "manager_inv m3 \<and>
          (rr = Inl RuntimeError \<and> m3 = opened m2 \<and> fleet_add (map ci_path cs) k (fleet_of (opened m2)) = None \<or>
           rr = Inr () \<and> fleet_add (map ci_path cs) k (fleet_of (opened m2)) = Some (fleet_of m3))"
        using register_inv [OF manager_inv_frame(2) [OF inv2(1)] reg] created(4,5) by blast
      then show ?thesis
        using assms(2) run created(1) reg inv2(2) by (auto simp: sbind_def ret_def intro!: exI [of _ k])
    qed
  qed
qed

lemma stop_connection_frame:
  "mg_connections (snd (stop_connection st c m)) = mg_connections m"
  "mg_topology (snd (stop_connection st c m)) = mg_topology m" "mg_fresh (snd (stop_connection st c m)) = mg_fresh m"
  "mg_channels (snd (stop_connection st c m)) = (case fst (stop_connection st c m) of Inl _ \<Rightarrow> mg_channels m
     | Inr _ \<Rightarrow> if dc_control c then removeAll (dc_id c) (mg_channels m) else mg_channels m)"
  by (auto simp: stop_connection_def pym_defs split: sum.splits)

definition stops :: "stopping \<Rightarrow> device_connection \<Rightarrow> bool" where
  "stops st c \<longleftrightarrow> (dc_data c \<longrightarrow> fst (st c) = Inr ()) \<and> (dc_control c \<longrightarrow> snd (st c) = Inr ())"

lemma stop_connection_result: "(\<exists>u. fst (stop_connection st c m) = Inr u) \<longleftrightarrow> stops st c"
  by (auto simp: stop_connection_def stops_def pym_defs split: sum.splits)

lemma stop_all_frame:
  "mg_fresh (snd (stop_all st us m)) = mg_fresh m \<and> (fst (stop_all st us m) = [] \<longleftrightarrow> (\<forall>c \<in> set us. stops st c)) \<and>
   mg_channels (snd (stop_all st us m)) =
     filter (\<lambda>i. \<forall>c \<in> set us. stops st c \<and> dc_control c \<longrightarrow> i \<noteq> dc_id c) (mg_channels m)"
proof (induction us arbitrary: m)
  case (Cons c us)
  obtain r m1 where s: "stop_connection st c m = (r, m1)" by fastforce
  obtain es m2 where s2: "stop_all st us m1 = (es, m2)" by fastforce
  note fr = stop_connection_frame [of st c m, unfolded s fst_conv snd_conv]
    stop_connection_result [of st c m, unfolded s fst_conv]
  show ?case
    using Cons.IH [of m1, unfolded s2 fst_conv snd_conv] fr(3-5)
    by (cases r) (auto simp: s s2 removeAll_filter_not_eq intro!: filter_cong)
qed simp

lemma close_all_inv:
  assumes "manager_inv m"
  shows "manager_inv (snd (close_all st us m))" and "fleet_of (snd (close_all st us m)) = NoFleet"
proof -
  obtain errors m1 where s: "stop_all st us m = (errors, m1)" by fastforce
  note fr = stop_all_frame [of st us m, unfolded s snd_conv fst_conv]
  have "snd (close_all st us m) = m1\<lparr>mg_connections := [], mg_topology := None\<rparr>"
    by (simp add: close_all_def s)
  moreover have "\<forall>i \<in> set (mg_channels m1). i < mg_fresh m1" "distinct (mg_channels m1)"
    using assms by (simp_all add: fr manager_inv_def)
  ultimately show "manager_inv (snd (close_all st us m))" "fleet_of (snd (close_all st us m)) = NoFleet"
    by (simp_all add: manager_inv_def fleet_of_def)
qed

lemma reachable_inv: "manager_reachable m \<Longrightarrow> manager_inv m"
proof (induction rule: manager_reachable.induct)
  case start
  then show ?case by (simp add: manager_inv_def new_manager_def)
next
  case (added m ep)
  then show ?case using add_device_steps [of m ep] by (metis prod.collapse)
next
  case (closed m us st)
  then show ?case using close_all_inv by blast
qed


text \<open>
  C21. Adding a device refines the abstract registry. From every reachable state \<open>add_device\<close> either
  raises, and then the registered fleet is unchanged, or returns the carriers of the device, all on
  one new connection, and the fleet is what the abstract operation makes of them: a proxy is only
  accepted into an empty registry, and a direct device never beside a proxy.
\<close>

theorem add_device_refines:
  assumes "manager_reachable m" and "add_device ep m = (r, m')"
  shows "(case r of Inl e \<Rightarrow> fleet_of m' = fleet_of m
     | Inr (carriers, new) \<Rightarrow> \<exists>k. (\<forall>(p, c) \<in> set new. c = k) \<and>
         fleet_add (map ci_path carriers) k (fleet_of m) = Some (fleet_of m'))"
  using add_device_steps [OF reachable_inv [OF assms(1)] assms(2)] by blast

text \<open>
  Closing. \<open>close_all\<close> always leaves an empty registry without a mode, whatever stopping the channels
  does. It returns exactly when every registered connection could be stopped and raises
  \<open>RuntimeError\<close> otherwise, and one failure does not keep it from stopping the others.
\<close>

theorem close_all_outcome:
  assumes "manager_reachable m" and "set us = get_unique_connections m"
  shows "\<exists>m'. close_all st us m = (if \<forall>c \<in> get_unique_connections m. stops st c then Inr () else Inl RuntimeError, m') \<and>
    mg_connections m' = [] \<and> mg_topology m' = None \<and>
    (\<forall>c \<in> get_unique_connections m. stops st c \<longrightarrow> dc_id c \<notin> set (mg_channels m'))"
proof -
  obtain errors m1 where s: "stop_all st us m = (errors, m1)" by fastforce
  have "\<forall>c \<in> get_unique_connections m. dc_control c"
    using reachable_inv [OF assms(1)] by (fastforce simp: manager_inv_def get_unique_connections_def)
  then show ?thesis
    using stop_all_frame [of st us m] assms(2) by (auto simp: s close_all_def)
qed

text \<open>
  A device that is refused because a proxy is registered leaves a channel behind: \<open>add_device\<close>
  raises after it has opened the channels and extended the cached descriptions, and \<open>close_all\<close> does
  not know the new channel.
\<close>

theorem rejected_device_leaks:
  assumes "manager_reachable m" and "mg_topology m = Some Proxy"
    and "ep_module ep = Inr [EntitySpecification s e]" and "detect_topology e = Inr cs"
    and "ep_control ep = Inr ()" and "ep_data ep = Inr ()"
    and "set us = get_unique_connections m"
  shows "\<exists>m'. add_device ep m = (Inl RuntimeError, m') \<and> fleet_of m' = fleet_of m \<and>
    mg_cache m' = mg_cache m @ [EntitySpecification [] e] \<and>
    mg_fresh m \<in> set (mg_channels (snd (close_all st us m')))"
proof -
  have inv: "manager_inv m" using assms(1) by (rule reachable_inv)
  define m1 where "m1 = m\<lparr>mg_cache := mg_cache m @ [EntitySpecification [] e]\<rparr>"
  have inv1: "manager_inv m1" using manager_inv_frame(1) [OF inv] by (simp add: m1_def)
  have cs: "cs \<noteq> []"
    using assms(4) by (auto simp: detect_topology_def rbind_eq_Inr_iff split: if_splits)
  have run: "add_device ep m = sbind (create_connections ep cs) (\<lambda>new. sbind (register cs new) (\<lambda>_. ret (cs, new))) m1"
    using assms(3,4) by (simp add: add_device_def sbind_def eval_st_def modify_def ret_def is_wiring_def m1_def)
  show ?thesis
  proof (cases rule: create_connections_cases [of ep cs m1])
    case (created k ps)
    have "ps \<noteq> []" using cs created(4) by auto
    moreover have "k \<notin> snd ` set (mg_connections (opened m1))"
      using fresh_connection [OF inv1, of k] created(2) by (simp add: opened_def)
    moreover obtain r m2 where reg: "register cs (all_to k ps) (opened m1) = (r, m2)" by fastforce
    ultimately have "r = Inl RuntimeError \<and> m2 = opened m1"
      using register_cases [OF reg] assms(2) by (auto simp: opened_def m1_def)
    then have run': "add_device ep m = (Inl RuntimeError, opened m1)"
      using created(1) reg by (simp add: run sbind_def)
    have "\<forall>c \<in> set us. mg_fresh m \<noteq> dc_id c"
      using inv assms(7) by (fastforce simp: manager_inv_def get_unique_connections_def)
    then have "mg_fresh m \<in> set (mg_channels (snd (close_all st us (opened m1))))"
      using stop_all_frame [of st us "opened m1"]
      by (auto simp: close_all_def opened_def m1_def split: prod.splits)
    then show ?thesis
      using run' by (simp add: m1_def) (simp add: fleet_of_def opened_def split: option.splits topology.splits)
  qed (use assms(5,6) in \<open>simp_all add: create_connections_def pym_defs\<close>)
qed

section \<open>Examples\<close>

definition demo_entity :: "string \<Rightarrow> pb_entity" where
  "demo_entity mac = PbEntity mac 1 0 0 (0, 0, 0) None []"

definition demo_endpoint :: "string list \<Rightarrow> endpoint" where
  "demo_endpoint macs =
     \<lparr>ep_module = Inr [EntitySpecification [] (PbEntity ''/'' 30 0 0 (0, 0, 0) None (map demo_entity macs))],
      ep_control = Inr (), ep_data = Inr ()\<rparr>"

definition demo_proxy :: manager where
  "demo_proxy = snd (add_device (demo_endpoint [''/00-00'', ''/00-01'']) new_manager)"

lemma demo_proxy_reachable: "manager_reachable demo_proxy"
  unfolding demo_proxy_def by (intro manager_reachable.intros)

lemma demo_proxy_connections:
  "mg_topology demo_proxy = Some Proxy"
  "mg_connections demo_proxy = [([PS ''00-00''], \<lparr>dc_id = 0, dc_control = True, dc_data = True\<rparr>),
     ([PS ''00-01''], \<lparr>dc_id = 0, dc_control = True, dc_data = True\<rparr>)]"
  by code_simp+

lemma demo_proxy_unique: "get_unique_connections demo_proxy = {\<lparr>dc_id = 0, dc_control = True, dc_data = True\<rparr>}"
  by (simp add: get_unique_connections_def demo_proxy_connections)


theorem add_device_refines_witness:
  "fst (add_device (demo_endpoint [''/00-00'', ''/00-01'']) new_manager) \<noteq> Inl RuntimeError \<and>
   (case add_device (demo_endpoint [''/00-00'', ''/00-01'']) new_manager of
      (Inl e, m') \<Rightarrow> fleet_of m' = fleet_of new_manager
    | (Inr (carriers, new), m') \<Rightarrow> \<exists>k. (\<forall>(p, c) \<in> set new. c = k) \<and>
        fleet_add (map ci_path carriers) k (fleet_of new_manager) = Some (fleet_of m'))"
proof -
  have "(case fst (add_device (demo_endpoint [''/00-00'', ''/00-01'']) new_manager) of Inl e \<Rightarrow> False | Inr _ \<Rightarrow> True)"
    by code_simp
  then show ?thesis
    using add_device_refines [OF manager_reachable.start, of "demo_endpoint [''/00-00'', ''/00-01'']"]
    by (auto split: prod.splits sum.splits)
qed

theorem close_all_outcome_witness:
  "\<exists>m'. close_all (\<lambda>_. (Inr (), Inr ())) [\<lparr>dc_id = 0, dc_control = True, dc_data = True\<rparr>] demo_proxy = (Inr (), m') \<and>
    mg_connections m' = []"
  using close_all_outcome [OF demo_proxy_reachable, of "[\<lparr>dc_id = 0, dc_control = True, dc_data = True\<rparr>]" "\<lambda>_. (Inr (), Inr ())"]
  by (auto simp: demo_proxy_unique stops_def)

theorem rejected_device_leaks_witness:
  "\<exists>m'. add_device (demo_endpoint [''/00-02'']) demo_proxy = (Inl RuntimeError, m') \<and>
    mg_fresh demo_proxy \<in> set (mg_channels (snd (close_all (\<lambda>_. (Inr (), Inr ())) [\<lparr>dc_id = 0, dc_control = True, dc_data = True\<rparr>] m')))"
proof -
  let ?e = "PbEntity ''/'' 30 0 0 (0, 0, 0) None [demo_entity ''/00-02'']"
  have d: "detect_topology ?e = Inr [\<lparr>ci_path = [PS ''00-02''], ci_mac = ''00-02'', ci_entity = demo_entity ''/00-02''\<rparr>]"
    by code_simp
  have ep: "ep_module (demo_endpoint [''/00-02'']) = Inr [EntitySpecification [] ?e]"
      "ep_control (demo_endpoint [''/00-02'']) = Inr ()" "ep_data (demo_endpoint [''/00-02'']) = Inr ()"
    by (simp_all add: demo_endpoint_def)
  have "set [\<lparr>dc_id = 0, dc_control = True, dc_data = True\<rparr>] = get_unique_connections demo_proxy"
    by (simp add: demo_proxy_unique)
  from rejected_device_leaks [OF demo_proxy_reachable demo_proxy_connections(1) ep(1) d ep(2,3) this]
  show ?thesis by blast
qed

section \<open>Controller\<close>

text \<open>
  The controller holds the manager and the computer built from the reports. The T-blocks and
  backplane blocks of a new carrier are fresh. \<open>ct_dict\<close> is \<open>_entities_by_path\<close>; blocks have no children
  there.
\<close>

record controller =
  ct_manager :: manager
  ct_carriers :: "spec_entity list"
  ct_dict :: "path \<rightharpoonup> spec_entity"
  ct_routing :: routing
  ct_clusters :: "path \<rightharpoonup> nat"
  ct_raw :: "string \<rightharpoonup> pb_entity"

definition new_controller :: controller where
  "new_controller = \<lparr>ct_manager = new_manager, ct_carriers = [], ct_dict = (\<lambda>_. None), ct_routing = new_routing,
     ct_clusters = (\<lambda>_. None), ct_raw = (\<lambda>_. None)\<rparr>"

fun spec_preorder :: "spec_entity \<Rightarrow> (path \<times> spec_entity) list" where
  "spec_preorder (BlockS b) = [(bs_path b, BlockS b)]"
| "spec_preorder (ClusterS c) = (cs_path c, ClusterS c) # map (\<lambda>b. (bs_path b, BlockS b)) (cluster_blocks c)"
| "spec_preorder (CarrierS c ks) =
     (ca_path c, CarrierS c ks) # concat (map spec_preorder ks) @ map (\<lambda>b. (bs_path b, BlockS b)) (carrier_blocks c)"
| "spec_preorder (DeviceS p cs) = (p, DeviceS p cs) # concat (map spec_preorder cs)"

definition router_add_carrier :: "spec_entity \<Rightarrow> (routing, unit) pym" where
  "router_add_carrier x =
     (case x of
        CarrierS c ks \<Rightarrow>
          sbind (case ca_t c of None \<Rightarrow> ret () | Some b \<Rightarrow> add_t_block (bs_location b) new_tblock) (\<lambda>_.
          sbind (case ca_st0 c of None \<Rightarrow> ret () | Some b \<Rightarrow> add_t_bpl_block 0 (bs_location b) new_backplane_tblock) (\<lambda>_.
          sbind (case ca_st1 c of None \<Rightarrow> ret () | Some b \<Rightarrow> add_t_bpl_block 1 (bs_location b) new_backplane_tblock) (\<lambda>_.
          case ca_st2 c of None \<Rightarrow> ret () | Some b \<Rightarrow> add_t_bpl_block 2 (bs_location b) new_backplane_tblock)))
      | _ \<Rightarrow> raise AttributeError)"

definition computer_add_carrier :: "spec_entity \<Rightarrow> (controller, unit) pym" where
  "computer_add_carrier x =
     sbind (modify (\<lambda>s. s\<lparr>ct_carriers := ct_carriers s @ [x]\<rparr>)) (\<lambda>_.
     sbind (modify (\<lambda>s. s\<lparr>ct_dict := fold (\<lambda>(p, e) d. d(p \<mapsto> e)) (spec_preorder x) (ct_dict s)\<rparr>)) (\<lambda>_.
     zoom ct_routing (\<lambda>r s. s\<lparr>ct_routing := r\<rparr>) (router_add_carrier x)))"

definition count_clusters :: "spec_entity \<Rightarrow> (controller, unit) pym" where
  "count_clusters x =
     (case x of
        CarrierS c ks \<Rightarrow> modify (\<lambda>s. s\<lparr>ct_clusters := (ct_clusters s)(ca_path c \<mapsto> length ks)\<rparr>)
      | _ \<Rightarrow> raise AttributeError)"

definition device_carriers :: "spec_entity \<Rightarrow> spec_entity list" where
  "device_carriers x = (case x of DeviceS _ cs \<Rightarrow> cs | _ \<Rightarrow> [x])"

definition add_reported :: "module_item \<Rightarrow> (controller, unit) pym" where
  "add_reported it =
     (case it of
        EntitySpecification _ e \<Rightarrow>
          sbind (eval_st (\<lambda>_. path_parse redac_schema (\<lambda>_. None) (strip (\<lambda>c. c = CHR ''/'') (pe_id e)))) (\<lambda>root.
          sbind (eval_st (\<lambda>_. deserialize_specification (Some 0) root None e)) (\<lambda>(x, _).
          sbind (for_each (device_carriers x) (\<lambda>c. sbind (computer_add_carrier c) (\<lambda>_. count_clusters c))) (\<lambda>_.
          modify (\<lambda>s. s\<lparr>ct_raw := (ct_raw s)(pe_id e \<mapsto> e)\<rparr>))))
      | _ \<Rightarrow> ret ())"

definition controller_add_device :: "endpoint \<Rightarrow> (controller, unit) pym" where
  "controller_add_device ep =
     sbind get_st (\<lambda>s0.
     sbind (zoom ct_manager (\<lambda>m s. s\<lparr>ct_manager := m\<rparr>) (add_device ep)) (\<lambda>_.
     sbind get_st (\<lambda>s.
     for_each (drop (length (mg_cache (ct_manager s0))) (mg_cache (ct_manager s))) add_reported)))"

text \<open>Leaving the controller, by \<open>stop\<close> or at the end of its context: the computer keeps its carriers.\<close>

definition controller_stop :: "stopping \<Rightarrow> device_connection list \<Rightarrow> (controller, unit) pym" where
  "controller_stop st us = zoom ct_manager (\<lambda>m s. s\<lparr>ct_manager := m\<rparr>) (close_all st us)"

text \<open>
  A sensible report: a carrier, or a device whose children are carriers, each named by its address.
\<close>

definition named_carrier :: "pb_entity \<Rightarrow> bool" where
  "named_carrier e \<longleftrightarrow> pe_class e = entity_class_value CARRIER \<and> (\<exists>s. pe_id e = CHR ''/'' # s \<and> clean_name s)"

definition report_ok :: "pb_entity \<Rightarrow> bool" where
  "report_ok e \<longleftrightarrow> named_carrier e \<or> pe_class e = entity_class_value DEVICE \<and> (\<forall>c \<in> set (pe_children e). named_carrier c)"

definition endpoint_ok :: "endpoint \<Rightarrow> bool" where
  "endpoint_ok ep \<longleftrightarrow> (\<forall>its. ep_module ep = Inr its \<longrightarrow> (\<forall>e \<in> set (module_entities its). report_ok e))"

text \<open>The path a carrier gets in the computer is the one its connection is registered under.\<close>

lemma named_carrier_paths:
  assumes "named_carrier e"
  obtains p where "parse_id e = Inr p" and "path_parse redac_schema (\<lambda>_. None) (strip (\<lambda>c. c = CHR ''/'') (pe_id e)) = Inr p"
    and "carrier_info_of e = Inr \<lparr>ci_path = p, ci_mac = strip (\<lambda>c. c = CHR ''/'') (pe_id e), ci_entity = e\<rparr>"
proof -
  obtain s where s: "pe_id e = CHR ''/'' # s" "clean_name s"
    using assms by (auto simp: named_carrier_def)
  have no: "s \<noteq> []" "hd s \<noteq> CHR ''/''" "last s \<noteq> CHR ''/''"
    using s(2) by (metis clean_name_def hd_in_set last_in_set)+
  then have st: "strip (\<lambda>c. c = CHR ''/'') s = s"
    using strip_ends [of s "\<lambda>c. c = CHR ''/''"] by simp
  have st': "strip (\<lambda>c. c = CHR ''/'') (pe_id e) = s"
    using st by (simp add: s(1) strip_def)
  have p: "parse_id e = Inr [PS s]"
    using parse_entity_id [OF s(2)] by (simp add: s(1))
  moreover have "path_parse redac_schema (\<lambda>_. None) s = Inr [PS s]"
    using p st st' by (simp add: path_parse_def)
  moreover have "split_on CHR ''/'' s = [s]"
    using s(2) split_on_join_with [of "[s]" "CHR ''/''"] by (auto simp: clean_name_def)
  then have "path_parse base_schema (\<lambda>_. None) s = Inr [PS s]"
    using st no(1) by (simp add: path_parse_def path_make_def base_schema_def parse_part_def)
  ultimately show thesis
    using that [of "[PS s]"] by (simp add: st' carrier_info_of_def)
qed

lemma if_InrE: "(if b then m else n) = Inr r \<Longrightarrow> (m = Inr r \<Longrightarrow> P) \<Longrightarrow> (n = Inr r \<Longrightarrow> P) \<Longrightarrow> P"
  by (simp split: if_splits)

lemma carrier_child_path:
  assumes "carrier_child des p l sl child (c, ks, ctr) = Inr (c', ks', ctr')"
  shows "ca_path c' = ca_path c \<and> ca_location c' = ca_location c"
proof -
  obtain q x where "child_path p child = Inr q" "path_id q = Inr x"
    using assms unfolding carrier_child_def prod.case by (simp only: rbind_eq_Inr_iff) blast
  note body = assms [unfolded carrier_child_def prod.case this rbind_simps]
  show ?thesis
  proof (cases x)
    case (PI n)
    with body show ?thesis by (simp split: if_splits)
  next
    case (PS s)
    from body [unfolded PS part.case] show ?thesis
      by (elim if_InrE) (auto simp: rbind_eq_Inr_iff handle_front_plane_def)
  qed
qed

lemma deserialized_carrier:
  assumes "deserialize_specification ctr p None e = Inr (x, ctr')" and "pe_class e = entity_class_value CARRIER"
  shows "\<exists>c ks. x = CarrierS c ks \<and> ca_path c = p"
proof -
  obtain name cl ty va ve lo children where e: "e = PbEntity name cl ty va ve lo children"
    by (cases e) auto
  have cl: "entity_class_of cl = Inr CARRIER"
    using assms(2) entity_class_roundtrip [of CARRIER] by (simp add: e)
  obtain l ctr1 where loc: "locate_carrier ctr e None = (l, ctr1)" by fastforce
  obtain t sl c ks ctr2 where
    f: "rfold (\<lambda>child. carrier_child deserialize_specification p l sl child) children (new_carrier_spec p l t, [], ctr1) = Inr (c, ks, ctr2)"
    and x: "x = CarrierS c ks"
    using assms(1) cl loc unfolding e
    by (auto simp: deserialize_specification.simps rbind_eq_Inr_iff Let_def simp del: entity_class_of.simps)
  have "ca_path (fst (c, ks, ctr2)) = p"
    using f by (rule rfold_invariant [where I = "\<lambda>st. ca_path (fst st) = p"])
      (auto simp: new_carrier_spec_def dest: carrier_child_path)
  with x show ?thesis by simp
qed

lemma deserialized_report:
  assumes "report_ok e" and "path_parse redac_schema (\<lambda>_. None) (strip (\<lambda>c. c = CHR ''/'') (pe_id e)) = Inr rp"
    and "deserialize_specification ctr rp None e = Inr (x, ctr')" and "detect_topology e = Inr cs"
  shows "\<forall>y \<in> set (device_carriers x). spec_path y \<in> ci_path ` set cs"
proof (cases "named_carrier e")
  case True
  then obtain c ks where x: "x = CarrierS c ks" "ca_path c = rp"
    using deserialized_carrier [OF assms(3)] by (auto simp: named_carrier_def)
  obtain p where "rp = p" "carrier_info_of e = Inr \<lparr>ci_path = p, ci_mac = strip (\<lambda>c. c = CHR ''/'') (pe_id e), ci_entity = e\<rparr>"
    using named_carrier_paths [OF True] assms(2) by (metis Inr_inject)
  then show ?thesis
    using assms(4) True x by (auto simp: detect_topology_def carrier_entities_def named_carrier_def device_carriers_def spec_path_def)
next
  case False
  then have dev: "pe_class e = entity_class_value DEVICE" "\<forall>c \<in> set (pe_children e). named_carrier c"
    using assms(1) by (auto simp: report_ok_def)
  obtain name cl ty va ve lo children where e: "e = PbEntity name cl ty va ve lo children"
    by (cases e) auto
  have cl: "entity_class_of cl = Inr DEVICE"
    using dev(1) entity_class_roundtrip [of DEVICE] by (simp add: e)
  obtain ks ctr2 where f: "rfold (\<lambda>child (ks, ctr). rbind (parse_id child) (\<lambda>q.
      rbind (deserialize_specification ctr q None child) (\<lambda>(k, ctr). Inr (ks @ [k], ctr)))) children ([], ctr) = Inr (ks, ctr2)"
    and x: "x = DeviceS rp ks"
    using assms(3) cl unfolding e
    by (auto simp: deserialize_specification.simps rbind_eq_Inr_iff Let_def simp del: entity_class_of.simps)
  have infos: "rmap carrier_info_of (pe_children e) = Inr cs"
    using assms(4) dev by (auto simp: detect_topology_def carrier_entities_def named_carrier_def rbind_eq_Inr_iff filter_id_conv split: if_splits)
  have member: "q \<in> ci_path ` set cs" if "child \<in> set (pe_children e)" "parse_id child = Inr q" for child q
  proof -
    have "\<exists>i \<in> set cs. carrier_info_of child = Inr i"
      using infos that(1) by (rule rmap_image)
    then show ?thesis
      using named_carrier_paths [of child] dev(2) that by (metis Inr_inject carrier_info.select_convs(1) image_eqI)
  qed
  have "\<forall>y \<in> set (fst (ks, ctr2)). spec_path y \<in> ci_path ` set cs"
    using f
  proof (rule rfold_invariant [where I = "\<lambda>st. \<forall>y \<in> set (fst st). spec_path y \<in> ci_path ` set cs"])
    fix child st st'
    assume child: "child \<in> set children" and I: "\<forall>y \<in> set (fst st). spec_path y \<in> ci_path ` set cs"
      and step: "(case st of (ks, ctr) \<Rightarrow> rbind (parse_id child) (\<lambda>q.
        rbind (deserialize_specification ctr q None child) (\<lambda>(k, ctr). Inr (ks @ [k], ctr)))) = Inr st'"
    then obtain q k ctr3 where q: "parse_id child = Inr q" "deserialize_specification (snd st) q None child = Inr (k, ctr3)"
        "st' = (fst st @ [k], ctr3)"
      by (auto simp: rbind_eq_Inr_iff split: prod.splits)
    have "named_carrier child"
      using dev(2) child by (simp add: e)
    then obtain c ks where "k = CarrierS c ks" "ca_path c = q"
      using deserialized_carrier [OF q(2)] by (auto simp: named_carrier_def)
    moreover have "q \<in> ci_path ` set cs"
      using member [OF _ q(1)] child by (simp add: e)
    ultimately show "\<forall>y \<in> set (fst st'). spec_path y \<in> ci_path ` set cs"
      using I q(3) by (auto simp: spec_path_def)
  qed simp
  then show ?thesis by (simp add: x device_carriers_def)
qed

fun fleet_paths :: "fleet \<Rightarrow> path set" where
  "fleet_paths NoFleet = {}"
| "fleet_paths (DirectFleet f) = dom f"
| "fleet_paths (ProxyFleet k S) = S"

lemma registered_paths: "manager_inv m \<Longrightarrow> fst ` set (mg_connections m) = fleet_paths (fleet_of m)"
  by (auto simp: manager_inv_def fleet_of_def dom_map_of_conv_image_fst split: option.splits topology.splits)

lemma fleet_add_paths: "fleet_add ps k f = Some f' \<Longrightarrow> fleet_paths f' = fleet_paths f \<union> set ps"
  by (cases f) (auto simp: dom_def split: if_splits)

lemma cache_entities_result:
  assumes "cache_entities es cs m = (Inr cs', m')"
  shows "mg_cache m' = mg_cache m @ map (EntitySpecification []) es \<and> set cs \<subseteq> set cs' \<and>
    (\<forall>e \<in> set es. \<exists>new. detect_topology e = Inr new \<and> set new \<subseteq> set cs')"
  using assms
proof (induction es arbitrary: cs m)
  case (Cons e es)
  then obtain new where new: "detect_topology e = Inr new"
      "cache_entities es (cs @ new) (m\<lparr>mg_cache := mg_cache m @ [EntitySpecification [] e]\<rparr>) = (Inr cs', m')"
    by (cases "detect_topology e") (auto simp: pym_defs)
  from Cons.IH [OF new(2)] new(1) show ?case by auto
qed (simp add: ret_def)

lemma register_cache: "mg_cache (snd (register cs new m)) = mg_cache m"
  by (auto simp: register_def pym_defs Let_def split: option.splits)

lemma create_connections_cache: "mg_cache (snd (create_connections ep cs m)) = mg_cache m"
  by (cases rule: create_connections_cases [of ep cs m]) (auto simp: opened_def)

lemma add_device_cache:
  assumes "add_device ep m = (Inr (cs, new), m')"
  shows "\<exists>module. ep_module ep = Inr module \<and>
    mg_cache m' = mg_cache m @ map (EntitySpecification []) (module_entities module) @ filter is_wiring module \<and>
    (\<forall>e \<in> set (module_entities module). \<exists>infos. detect_topology e = Inr infos \<and> set infos \<subseteq> set cs)"
proof -
  obtain module m1 m2 where module: "ep_module ep = Inr module"
    and c: "cache_entities (module_entities module) [] m = (Inr cs, m1)"
    and n: "create_connections ep cs (m1\<lparr>mg_cache := mg_cache m1 @ filter is_wiring module\<rparr>) = (Inr new, m2)"
    and r: "register cs new m2 = (Inr (), m')"
    using assms by (auto simp: add_device_def sbind_Inr_iff eval_st_def modify_def ret_def)
  have "mg_cache m' = mg_cache m1 @ filter is_wiring module"
    using register_cache [of cs new m2] create_connections_cache [of ep cs "m1\<lparr>mg_cache := mg_cache m1 @ filter is_wiring module\<rparr>"]
    by (simp add: n r)
  with cache_entities_result [OF c] module show ?thesis by auto
qed

text \<open>The carriers from position \<open>n\<close> on are registered.\<close>

definition all_connected :: "nat \<Rightarrow> controller \<Rightarrow> bool" where
  "all_connected n s \<longleftrightarrow> (\<forall>x \<in> set (drop n (ct_carriers s)). spec_path x \<in> fst ` set (mg_connections (ct_manager s)))"

definition connected_to :: "nat \<Rightarrow> manager \<Rightarrow> controller \<Rightarrow> bool" where
  "connected_to n m s \<longleftrightarrow> ct_manager s = m \<and> all_connected n s"

lemma keeps_True: "keeps (\<lambda>_. True) m"
  by (simp add: triple_def split: prod.splits sum.splits)

lemma add_carrier_connected:
  assumes "spec_path x \<in> fst ` set (mg_connections m)"
  shows "keeps (connected_to n m) (sbind (computer_add_carrier x) (\<lambda>_. count_clusters x))"
proof -
  have count: "keeps (connected_to n m) (count_clusters x)"
    by (cases x) (auto intro!: keeps_intro simp: count_clusters_def connected_to_def all_connected_def)
  have carriers: "keeps (connected_to n m) (modify (\<lambda>s. s\<lparr>ct_carriers := ct_carriers s @ [x]\<rparr>))"
    by (rule keeps_modify) (use assms in \<open>auto simp: connected_to_def all_connected_def drop_Cons split: nat.splits\<close>)
  have dict: "keeps (connected_to n m) (modify (\<lambda>s. s\<lparr>ct_dict := f s\<rparr>))" for f
    by (rule keeps_modify) (auto simp: connected_to_def all_connected_def)
  have router: "keeps (connected_to n m) (zoom ct_routing (\<lambda>r s. s\<lparr>ct_routing := r\<rparr>) (router_add_carrier x))"
    by (rule keeps_zoom [OF keeps_True]) (auto simp: connected_to_def all_connected_def)
  show ?thesis
    unfolding computer_add_carrier_def by (intro keeps_bind carriers dict router count)
qed

lemma add_reported_connected:
  assumes "report_ok e" and "detect_topology e = Inr infos" and "ci_path ` set infos \<subseteq> fst ` set (mg_connections m)"
  shows "keeps (connected_to n m) (add_reported (EntitySpecification [] e))"
  unfolding triple_def
proof (intro allI impI)
  fix s assume s: "connected_to n m s"
  show "case add_reported (EntitySpecification [] e) s of (Inl e, s') \<Rightarrow> connected_to n m s' | (Inr a, s') \<Rightarrow> connected_to n m s'"
  proof (cases "path_parse redac_schema (\<lambda>_. None) (strip (\<lambda>c. c = CHR ''/'') (pe_id e))")
    case (Inl a)
    then show ?thesis using s by (simp add: add_reported_def pym_defs)
  next
    case rp: (Inr rp)
    show ?thesis
    proof (cases "deserialize_specification (Some 0) rp None e")
      case (Inl a)
      then show ?thesis using s rp by (simp add: add_reported_def pym_defs)
    next
      case (Inr xc)
      obtain x ctr where xc: "xc = (x, ctr)" by fastforce
      have "\<forall>y \<in> set (device_carriers x). spec_path y \<in> fst ` set (mg_connections m)"
        using deserialized_report [OF assms(1) rp Inr [unfolded xc] assms(2)] assms(3) by blast
      then have k: "keeps (connected_to n m) (sbind (for_each (device_carriers x) (\<lambda>c. sbind (computer_add_carrier c) (\<lambda>_. count_clusters c))) (\<lambda>_.
          modify (\<lambda>s. s\<lparr>ct_raw := (ct_raw s)(pe_id e \<mapsto> e)\<rparr>)))"
        by (intro keeps_intro add_carrier_connected) (auto simp: connected_to_def all_connected_def)
      have "add_reported (EntitySpecification [] e) s = sbind (for_each (device_carriers x) (\<lambda>c. sbind (computer_add_carrier c) (\<lambda>_. count_clusters c))) (\<lambda>_.
          modify (\<lambda>s. s\<lparr>ct_raw := (ct_raw s)(pe_id e \<mapsto> e)\<rparr>)) s"
        using rp Inr xc by (simp add: add_reported_def sbind_def eval_st_def)
      then show ?thesis
        using k s by (simp add: triple_def)
    qed
  qed
qed

lemma add_wiring_connected: "is_wiring it \<Longrightarrow> keeps (connected_to n m) (add_reported it)"
  by (cases it) (auto simp: is_wiring_def add_reported_def intro!: keeps_intro)

text \<open>
  The states of a controller: devices are added and connections closed in any order. \<open>n\<close> is the number
  of carriers the computer had at the last closing; their connections are gone, but they stay in the
  computer.
\<close>

inductive controller_reachable :: "controller \<Rightarrow> nat \<Rightarrow> bool" where
  new: "controller_reachable new_controller 0"
| device: "controller_reachable s n \<Longrightarrow> endpoint_ok ep \<Longrightarrow> controller_reachable (snd (controller_add_device ep s)) n"
| closed: "controller_reachable s n \<Longrightarrow> distinct us \<Longrightarrow> set us = get_unique_connections (ct_manager s) \<Longrightarrow>
    controller_reachable (snd (controller_stop st us s)) (length (ct_carriers s))"

lemma controller_add_device_connected:
  assumes "manager_inv (ct_manager s)" and "all_connected n s" and "endpoint_ok ep"
  shows "manager_inv (ct_manager (snd (controller_add_device ep s))) \<and> all_connected n (snd (controller_add_device ep s))"
proof -
  obtain r m where a: "add_device ep (ct_manager s) = (r, m)" by fastforce
  let ?s = "s\<lparr>ct_manager := m\<rparr>"
  have inv: "manager_inv m" and paths: "case r of Inl e \<Rightarrow> fleet_of m = fleet_of (ct_manager s)
      | Inr (cs, new) \<Rightarrow> \<exists>k. (\<forall>(p, c) \<in> set new. c = k) \<and> fleet_add (map ci_path cs) k (fleet_of (ct_manager s)) = Some (fleet_of m)"
    using add_device_steps [OF assms(1) a] by blast+
  show ?thesis
  proof (cases r)
    case (Inl e)
    then have "fst ` set (mg_connections m) = fst ` set (mg_connections (ct_manager s))"
      using paths registered_paths [OF inv] registered_paths [OF assms(1)] by simp
    moreover have "snd (controller_add_device ep s) = ?s"
      using a Inl by (simp add: controller_add_device_def pym_defs)
    ultimately show ?thesis
      using inv assms(2) by (simp add: all_connected_def)
  next
    case (Inr cn)
    obtain cs new where cn: "cn = (cs, new)" by fastforce
    have fp: "fst ` set (mg_connections m) = fst ` set (mg_connections (ct_manager s)) \<union> ci_path ` set cs"
      using paths fleet_add_paths registered_paths [OF inv] registered_paths [OF assms(1)] by (auto simp: Inr cn)
    obtain module where module: "ep_module ep = Inr module"
      and cache: "mg_cache m = mg_cache (ct_manager s) @ map (EntitySpecification []) (module_entities module) @ filter is_wiring module"
      and det: "\<forall>e \<in> set (module_entities module). \<exists>infos. detect_topology e = Inr infos \<and> set infos \<subseteq> set cs"
      using add_device_cache [OF a [unfolded Inr cn]] by blast
    let ?items = "map (EntitySpecification []) (module_entities module) @ filter is_wiring module"
    have "keeps (connected_to n m) (for_each ?items add_reported)"
    proof (rule keeps_for_each)
      fix it assume "it \<in> set ?items"
      then consider e where "it = EntitySpecification [] e" "e \<in> set (module_entities module)" | "is_wiring it"
        by auto
      then show "keeps (connected_to n m) (add_reported it)"
      proof cases
        case 1
        then obtain infos where "detect_topology e = Inr infos" "set infos \<subseteq> set cs" using det by blast
        moreover have "report_ok e"
          using assms(3) module 1(2) by (simp add: endpoint_ok_def)
        ultimately show ?thesis
          using add_reported_connected [of e infos m n] fp 1(1) by blast
      qed (rule add_wiring_connected)
    qed
    moreover have "connected_to n m ?s"
      using assms(2) fp by (auto simp: connected_to_def all_connected_def)
    ultimately have "connected_to n m (snd (for_each ?items add_reported ?s))"
      by (rule keepsD)
    moreover have "controller_add_device ep s = for_each ?items add_reported ?s"
      using a Inr cache by (simp add: controller_add_device_def sbind_def get_st_def zoom_def)
    ultimately show ?thesis
      using inv by (simp add: connected_to_def)
  qed
qed

text \<open>
  C28. Every carrier of the computer can be reached. As long as the devices report carriers under their
  addresses, each carrier that \<open>add_device\<close> has put into the computer since the connections were last
  closed is registered under its path with a connection whose control channel has been started and
  not stopped, also when some of the calls have failed half-way.
\<close>

theorem carriers_connected:
  assumes "controller_reachable s n"
  shows "\<forall>x \<in> set (drop n (ct_carriers s)). \<exists>c. get_connection (spec_path x) (ct_manager s) = Inr c \<and>
    dc_id c \<in> set (mg_channels (ct_manager s))"
proof -
  have inv: "manager_inv (ct_manager s) \<and> all_connected n s"
    using assms
  proof (induction rule: controller_reachable.induct)
    case new
    then show ?case
      using reachable_inv [OF manager_reachable.start] by (simp add: new_controller_def all_connected_def)
  next
    case (device s n ep)
    then show ?case using controller_add_device_connected by blast
  next
    case (closed s n us st)
    then show ?case
      using close_all_inv(1) [of "ct_manager s" st us]
      by (cases "close_all st us (ct_manager s)") (simp add: controller_stop_def zoom_def all_connected_def)
  qed
  show ?thesis
  proof
    fix x assume "x \<in> set (drop n (ct_carriers s))"
    then have "spec_path x \<in> fst ` set (mg_connections (ct_manager s))"
      using inv by (simp add: all_connected_def)
    then obtain c where c: "map_of (mg_connections (ct_manager s)) (spec_path x) = Some c"
      by (metis map_of_eq_None_iff not_None_eq)
    then have "dc_id c \<in> set (mg_channels (ct_manager s))"
      using inv by (fastforce simp: manager_inv_def dest: map_of_SomeD)
    with c show "\<exists>c. get_connection (spec_path x) (ct_manager s) = Inr c \<and> dc_id c \<in> set (mg_channels (ct_manager s))"
      by (simp add: get_connection_def)
  qed
qed

theorem carriers_connected_witness:
  "length (ct_carriers (snd (controller_add_device (demo_endpoint [''/00-00'', ''/00-01'']) new_controller))) = 2 \<and>
   list_all (\<lambda>x. \<exists>c. get_connection (spec_path x) (ct_manager (snd (controller_add_device (demo_endpoint [''/00-00'', ''/00-01'']) new_controller))) = Inr c \<and>
       dc_id c \<in> set (mg_channels (ct_manager (snd (controller_add_device (demo_endpoint [''/00-00'', ''/00-01'']) new_controller)))))
     (ct_carriers (snd (controller_add_device (demo_endpoint [''/00-00'', ''/00-01'']) new_controller)))"
proof -
  have "endpoint_ok (demo_endpoint [''/00-00'', ''/00-01''])"
    by (simp add: endpoint_ok_def demo_endpoint_def report_ok_def named_carrier_def demo_entity_def clean_name_def)
  then have "controller_reachable (snd (controller_add_device (demo_endpoint [''/00-00'', ''/00-01'']) new_controller)) 0"
    by (intro controller_reachable.intros)
  moreover have "length (ct_carriers (snd (controller_add_device (demo_endpoint [''/00-00'', ''/00-01'']) new_controller))) = 2"
    by code_simp
  ultimately show ?thesis
    unfolding list_all_iff using carriers_connected [of "snd (controller_add_device (demo_endpoint [''/00-00'', ''/00-01'']) new_controller)" 0] by simp
qed

lemma unlocated_carrier:
  assumes "deserialize_specification (Some n) p None e = Inr (x, ctr')" and "pe_class e = entity_class_value CARRIER"
    and "pe_location e = None"
  shows "\<exists>c ks. x = CarrierS c ks \<and> ca_location c = Some [0, n]"
proof -
  obtain name cl ty va ve lo children where e: "e = PbEntity name cl ty va ve lo children"
    by (cases e) auto
  have cl: "entity_class_of cl = Inr CARRIER"
    using assms(2) entity_class_roundtrip [of CARRIER] by (simp add: e)
  have loc: "locate_carrier (Some n) e None = (Some [0, n], Some (n + 1))"
    using assms(3) by (simp add: locate_carrier_def new_carrier_def)
  obtain t c ks ctr2 where
    f: "rfold (\<lambda>child. carrier_child deserialize_specification p (Some [0, n]) (Some [0]) child) children
        (new_carrier_spec p (Some [0, n]) t, [], Some (n + 1)) = Inr (c, ks, ctr2)"
    and x: "x = CarrierS c ks"
    using assms(1) cl loc unfolding e
    by (auto simp: deserialize_specification.simps rbind_eq_Inr_iff Let_def simp del: entity_class_of.simps)
  have "ca_location (fst (c, ks, ctr2)) = Some [0, n]"
    using f by (rule rfold_invariant [where I = "\<lambda>st. ca_location (fst st) = Some [0, n]"])
      (auto simp: new_carrier_spec_def dest: carrier_child_path)
  with x show ?thesis by simp
qed

lemma computer_add_carrier_appends: "ct_carriers (snd (computer_add_carrier x s)) = ct_carriers s @ [x]"
  by (simp add: computer_add_carrier_def sbind_def modify_def zoom_def split: prod.splits)

lemma count_clusters_carriers: "ct_carriers (snd (count_clusters x s)) = ct_carriers s"
  by (auto simp: count_clusters_def pym_defs split: spec_entity.splits)

lemma add_reported_carrier:
  assumes "add_reported (EntitySpecification q e) s = (Inr (), s')" and "pe_class e = entity_class_value CARRIER"
  shows "\<exists>p x ctr. deserialize_specification (Some 0) p None e = Inr (x, ctr) \<and> ct_carriers s' = ct_carriers s @ [x]"
proof -
  obtain p x ctr s1 s2 where d: "deserialize_specification (Some 0) p None e = Inr (x, ctr)"
    and l: "for_each (device_carriers x) (\<lambda>c. sbind (computer_add_carrier c) (\<lambda>_. count_clusters c)) s = (Inr (), s1)"
    and s': "s' = s1\<lparr>ct_raw := (ct_raw s1)(pe_id e \<mapsto> e)\<rparr>"
    using assms(1) by (auto simp: add_reported_def sbind_Inr_iff eval_st_def modify_def)
  obtain c ks where "x = CarrierS c ks"
    using deserialized_carrier [OF d assms(2)] by blast
  then have "sbind (computer_add_carrier x) (\<lambda>_. count_clusters x) s = (Inr (), s1)"
    using l by (auto simp: device_carriers_def sbind_Inr_iff ret_def)
  then have "ct_carriers s1 = ct_carriers s @ [x]"
    using computer_add_carrier_appends [of x s] count_clusters_carriers [of x] by (auto simp: sbind_Inr_iff) (metis snd_conv)
  with d s' show ?thesis by auto
qed

text \<open>
  Carriers without a reported location collide. Each report is read by a new deserializer, whose
  counter starts at 0: two carriers that are added one after the other and report no location are
  both put at stack 0, carrier 0.
\<close>

theorem unlocated_carriers_collide:
  assumes "add_reported (EntitySpecification q e) s = (Inr (), s1)" and "add_reported (EntitySpecification q' e') s1 = (Inr (), s2)"
    and "pe_class e = entity_class_value CARRIER" and "pe_class e' = entity_class_value CARRIER"
    and "pe_location e = None" and "pe_location e' = None"
  shows "\<exists>c ks c' ks'. ct_carriers s2 = ct_carriers s @ [CarrierS c ks, CarrierS c' ks'] \<and>
    ca_location c = Some [0, 0] \<and> ca_location c' = Some [0, 0]"
proof -
  obtain p x ctr where x: "deserialize_specification (Some 0) p None e = Inr (x, ctr)" "ct_carriers s1 = ct_carriers s @ [x]"
    using add_reported_carrier [OF assms(1,3)] by blast
  obtain p' x' ctr' where x': "deserialize_specification (Some 0) p' None e' = Inr (x', ctr')" "ct_carriers s2 = ct_carriers s1 @ [x']"
    using add_reported_carrier [OF assms(2,4)] by blast
  show ?thesis
    using unlocated_carrier [OF x(1) assms(3,5)] unlocated_carrier [OF x'(1) assms(4,6)] x(2) x'(2) by auto
qed

theorem unlocated_carriers_collide_witness:
  "\<exists>s1 s2. add_reported (EntitySpecification [] (demo_entity ''/00-00'')) new_controller = (Inr (), s1) \<and>
    add_reported (EntitySpecification [] (demo_entity ''/00-01'')) s1 = (Inr (), s2) \<and>
    (\<exists>c ks c' ks'. ct_carriers s2 = [CarrierS c ks, CarrierS c' ks'] \<and> ca_location c = Some [0, 0] \<and> ca_location c' = Some [0, 0])"
proof -
  define s1 where "s1 = snd (add_reported (EntitySpecification [] (demo_entity ''/00-00'')) new_controller)"
  define s2 where "s2 = snd (add_reported (EntitySpecification [] (demo_entity ''/00-01'')) s1)"
  have "fst (add_reported (EntitySpecification [] (demo_entity ''/00-00'')) new_controller) = Inr ()"
    by code_simp
  then have a: "add_reported (EntitySpecification [] (demo_entity ''/00-00'')) new_controller = (Inr (), s1)"
    by (simp add: s1_def prod_eq_iff)
  have "fst (add_reported (EntitySpecification [] (demo_entity ''/00-01'')) s1) = Inr ()"
    unfolding s1_def by code_simp
  then have b: "add_reported (EntitySpecification [] (demo_entity ''/00-01'')) s1 = (Inr (), s2)"
    by (simp add: s2_def prod_eq_iff)
  show ?thesis
    using unlocated_carriers_collide [OF a b] a b by (fastforce simp: demo_entity_def new_controller_def)
qed

end
