(* ===== verification/Runs.thy ===== *)
theory Runs
  imports Entities
begin

text \<open>
  The state of a run distributed over several carriers (redac/run.py, redac/controller.py,
  redac/session.py): \<open>RunState\<close>, \<open>DistributedRunState\<close> with \<open>track\<close>, \<open>_update_run_state\<close> and \<open>wait_all\<close>,
  and the callback that feeds it with the messages of the devices.

  The dictionary of events is the list of tracked paths, each with the set of states reported for
  it. What happens during \<open>wait_all\<close> is a schedule: a list of batches of messages, one batch for each
  turn of the event loop between two looks of the waiting task. The end of the schedule is the
  timeout that every caller in session.py puts around \<open>wait_all\<close>.
\<close>

section \<open>RunState\<close>

datatype run_state = NEW | ERROR | DONE | QUEUED | TAKE_OFF | IC | OP | OP_END | TMP_HALT

definition is_done :: "run_state \<Rightarrow> bool" where
  "is_done s \<longleftrightarrow> s \<in> {DONE, ERROR}"

definition possibly_sampled_states :: "run_state list" where
  "possibly_sampled_states = [IC, OP, OP_END]"

text \<open>\<open>RunState.from_pb\<close>: the numbers are those of the protobuf enumeration; any other number is an error.\<close>

definition run_state_from_pb :: "int \<Rightarrow> run_state" where
  "run_state_from_pb n =
     (if n = 0 then NEW else if n = 1 then ERROR else if n = 2 then DONE else if n = 3 then QUEUED
      else if n = 4 then TAKE_OFF else if n = 5 then IC else if n = 6 then OP else if n = 7 then OP_END
      else if n = 8 then TMP_HALT else ERROR)"

section \<open>DistributedRunState\<close>

record run_tracker =
  dr_states :: "(path \<times> run_state set) list"
  dr_error :: bool
  dr_run_state :: run_state

definition state_order :: "run_state list" where
  "state_order = [NEW, QUEUED, TAKE_OFF, IC, OP, OP_END, DONE]"

definition involved_paths :: "run_tracker \<Rightarrow> path list" where
  "involved_paths t = map fst (dr_states t)"

definition all_reached :: "run_state \<Rightarrow> run_tracker \<Rightarrow> bool" where
  "all_reached s t \<longleftrightarrow> (\<forall>(p, S) \<in> set (dr_states t). s \<in> S)"

definition update_run_state :: "run_tracker \<Rightarrow> run_tracker" where
  "update_run_state t =
     (if dr_states t = [] then t
      else if \<exists>(p, S) \<in> set (dr_states t). ERROR \<in> S then t\<lparr>dr_run_state := ERROR\<rparr>
      else case find (\<lambda>s. all_reached s t) (rev state_order) of
             None \<Rightarrow> t
           | Some s \<Rightarrow> t\<lparr>dr_run_state := s\<rparr>)"

definition set_event :: "path \<Rightarrow> run_state \<Rightarrow> (path \<times> run_state set) list \<Rightarrow> (path \<times> run_state set) list" where
  "set_event p s xs = map (\<lambda>(q, S). (q, if q = p then insert s S else S)) xs"

definition track :: "path \<Rightarrow> run_state \<Rightarrow> (run_tracker, unit) pym" where
  "track p s =
     sbind get_st (\<lambda>t.
     sbind (guard (p \<in> set (involved_paths t)) KeyError) (\<lambda>_.
     sbind (modify (\<lambda>t. t\<lparr>dr_states := set_event p s (dr_states t)\<rparr>)) (\<lambda>_.
     sbind (if s = ERROR then modify (\<lambda>t. t\<lparr>dr_error := True\<rparr>) else ret ()) (\<lambda>_.
     modify update_run_state))))"

definition add_path :: "path \<Rightarrow> (run_tracker, unit) pym" where
  "add_path p =
     sbind get_st (\<lambda>t.
     sbind (guard (p \<notin> set (involved_paths t)) ValueError) (\<lambda>_.
     modify (\<lambda>t. t\<lparr>dr_states := dr_states t @ [(p, {})]\<rparr>)))"

definition add_paths :: "path list \<Rightarrow> (run_tracker, unit) pym" where
  "add_paths ps = for_each ps add_path"

definition new_tracker :: "path list \<Rightarrow> unit res \<times> run_tracker" where
  "new_tracker ps = add_paths ps \<lparr>dr_states = [], dr_error = False, dr_run_state = NEW\<rparr>"

definition run_status :: "run_state \<Rightarrow> run_tracker \<Rightarrow> run_state set list \<times> run_state set list" where
  "run_status s t =
     (filter (\<lambda>S. s \<in> S) (map snd (dr_states t)), filter (\<lambda>S. s \<notin> S) (map snd (dr_states t)))"

section \<open>Messages and waiting\<close>

record state_change =
  sc_run_id :: string
  sc_new :: int
  sc_entity :: string

text \<open>
  The callback of one connection. A message with an entity counts for the carrier of that entity
  when it is part of the run, a message without one for all carriers of the connection.
\<close>

definition on_state_change :: "string \<Rightarrow> path list \<Rightarrow> state_change \<Rightarrow> (run_tracker, unit) pym" where
  "on_state_change run_id path_list msg =
     (if sc_run_id msg \<noteq> run_id then ret ()
      else let new_state = run_state_from_pb (sc_new msg) in
        if sc_entity msg \<noteq> []
        then sbind (eval_st (\<lambda>_. path_parse redac_schema (\<lambda>_. None) (sc_entity msg))) (\<lambda>p.
             sbind get_st (\<lambda>t.
             if path_to_root p \<in> set (involved_paths t) then track (path_to_root p) new_state else ret ()))
        else for_each path_list (\<lambda>p. track p new_state))"

text \<open>
  One turn of the event loop. An exception inside a callback is reported by the loop and does not
  reach the waiting task; what the callback did before it stays.
\<close>

type_synonym turn = "(path list \<times> state_change) list"

definition deliver :: "string \<Rightarrow> turn \<Rightarrow> run_tracker \<Rightarrow> run_tracker" where
  "deliver run_id ms t = fold (\<lambda>(ps, m) t. snd (on_state_change run_id ps m t)) ms t"

fun wait_all :: "string \<Rightarrow> run_state \<Rightarrow> turn list \<Rightarrow> (run_tracker, unit) pym" where
  "wait_all run_id s [] t =
     (if dr_states t = [] then (Inr (), t) else if dr_error t then (Inl RunError, t)
      else if all_reached s t then (Inr (), t) else (Inl TimeoutError, t))"
| "wait_all run_id s (ms # sched) t =
     (if dr_states t = [] then (Inr (), t) else if dr_error t then (Inl RunError, t)
      else if all_reached s t then (Inr (), t)
      else wait_all run_id s sched (deliver run_id ms t))"

section \<open>The state of the run\<close>

text \<open>
  The reference: the events as a set. \<open>reported\<close> is an error as soon as one path has one, otherwise
  the last state of the order that every path has reported.
\<close>

definition reported :: "path list \<Rightarrow> (path \<times> run_state) set \<Rightarrow> run_state" where
  "reported ps E =
     (if \<exists>p \<in> set ps. (p, ERROR) \<in> E then ERROR
      else case find (\<lambda>s. \<forall>p \<in> set ps. (p, s) \<in> E) (rev state_order) of None \<Rightarrow> NEW | Some s \<Rightarrow> s)"

definition track_all :: "(path \<times> run_state) list \<Rightarrow> (run_tracker, unit) pym" where
  "track_all evs = for_each evs (\<lambda>(p, s). track p s)"

definition tracks :: "path list \<Rightarrow> (path \<times> run_state) set \<Rightarrow> run_tracker \<Rightarrow> bool" where
  "tracks ps E t \<longleftrightarrow>
     dr_states t = map (\<lambda>p. (p, {s. (p, s) \<in> E})) ps \<and>
     (dr_error t \<longleftrightarrow> (\<exists>p \<in> set ps. (p, ERROR) \<in> E)) \<and>
     dr_run_state t = reported ps E"

lemma involved_tracks: "tracks ps E t \<Longrightarrow> involved_paths t = ps"
  by (simp add: tracks_def involved_paths_def comp_def)

lemma find_mono_rank:
  assumes "find P xs = Some s" and "\<And>x. P x \<Longrightarrow> Q x"
  shows "\<exists>s'. find Q xs = Some s'"
  using assms by (induction xs) (auto split: if_splits)

lemma reported_error [simp]: "p \<in> set ps \<Longrightarrow> (p, ERROR) \<in> E \<Longrightarrow> reported ps E = ERROR"
  by (auto simp: reported_def)

lemma reached_image: "all_reached s (t\<lparr>dr_states := map (\<lambda>p. (p, {s. (p, s) \<in> E})) ps\<rparr>) \<longleftrightarrow> (\<forall>p \<in> set ps. (p, s) \<in> E)"
  by (auto simp: all_reached_def)

lemma update_reported:
  assumes "ps \<noteq> []" and "dr_states t = map (\<lambda>p. (p, {s. (p, s) \<in> E})) ps"
    and "E' \<subseteq> E" and "dr_run_state t = reported ps E'"
  shows "dr_run_state (update_run_state t) = reported ps E"
proof -
  let ?R = "\<lambda>E s. \<forall>p \<in> set ps. (p, s) \<in> E"
  have reach: "all_reached s t \<longleftrightarrow> ?R E s" for s
    using assms(2) by (auto simp: all_reached_def)
  have err: "(\<exists>(p, S) \<in> set (dr_states t). ERROR \<in> S) \<longleftrightarrow> (\<exists>p \<in> set ps. (p, ERROR) \<in> E)"
    using assms(2) by auto
  have none: "find (?R E') (rev state_order) = None" if "find (?R E) (rev state_order) = None"
    using that assms(3) by (auto simp: find_None_iff)
  have noerr: "\<not> (\<exists>p \<in> set ps. (p, ERROR) \<in> E')" if "\<not> (\<exists>p \<in> set ps. (p, ERROR) \<in> E)"
    using that assms(3) by blast
  show ?thesis
    using assms(1,2,4) none noerr
    by (auto simp: update_run_state_def reported_def err reach split: option.splits)
qed

lemma update_frames [simp]:
  "dr_states (update_run_state t) = dr_states t" "dr_error (update_run_state t) = dr_error t"
  by (auto simp: update_run_state_def split: option.splits)

lemma track_tracks:
  assumes "tracks ps E t" and "p \<in> set ps"
  shows "fst (track p s t) = Inr ()" and "tracks ps (insert (p, s) E) (snd (track p s t))"
proof -
  let ?E = "insert (p, s) E"
  let ?t1 = "t\<lparr>dr_states := set_event p s (dr_states t)\<rparr>"
  let ?t2 = "if s = ERROR then ?t1\<lparr>dr_error := True\<rparr> else ?t1"
  have run: "track p s t = (Inr (), update_run_state ?t2)"
    using involved_tracks [OF assms(1)] assms(2) by (simp add: track_def pym_defs)
  have st: "dr_states ?t2 = map (\<lambda>q. (q, {s'. (q, s') \<in> ?E})) ps"
    using assms(1) by (auto simp: tracks_def set_event_def)
  have "dr_run_state (update_run_state ?t2) = reported ps ?E"
  proof (rule update_reported [OF _ st])
    show "ps \<noteq> []"
      using assms(2) by auto
    show "E \<subseteq> ?E" by blast
    show "dr_run_state ?t2 = reported ps E"
      using assms(1) by (simp add: tracks_def)
  qed
  then show "tracks ps ?E (snd (track p s t))" "fst (track p s t) = Inr ()"
    using assms st by (auto simp: run tracks_def)
qed

lemma track_all_tracks:
  assumes "tracks ps E t" and "\<forall>(p, s) \<in> set evs. p \<in> set ps"
  shows "fst (track_all evs t) = Inr () \<and> tracks ps (E \<union> set evs) (snd (track_all evs t))"
  using assms
proof (induction evs arbitrary: E t)
  case Nil
  then show ?case by (simp add: track_all_def ret_def)
next
  case (Cons x evs)
  obtain p s where x: "x = (p, s)" by fastforce
  have t: "fst (track p s t) = Inr ()" "tracks ps (insert (p, s) E) (snd (track p s t))"
    using track_tracks [OF Cons.prems(1)] Cons.prems(2) by (auto simp: x)
  then have "track_all (x # evs) t = track_all evs (snd (track p s t))"
    by (cases "track p s t") (simp add: track_all_def x sbind_def)
  with Cons.IH [OF t(2)] Cons.prems(2) show ?case by (simp add: x)
qed

lemma add_paths_fresh:
  assumes "distinct (involved_paths t @ ps)"
  shows "add_paths ps t = (Inr (), t\<lparr>dr_states := dr_states t @ map (\<lambda>p. (p, {})) ps\<rparr>)"
  using assms
proof (induction ps arbitrary: t)
  case Nil
  then show ?case by (simp add: add_paths_def ret_def)
next
  case (Cons p ps)
  let ?t = "t\<lparr>dr_states := dr_states t @ [(p, {})]\<rparr>"
  have "add_path p t = (Inr (), ?t)"
    using Cons.prems by (simp add: add_path_def pym_defs)
  moreover have "distinct (involved_paths ?t @ ps)"
    using Cons.prems by (simp add: involved_paths_def)
  ultimately show ?case
    using Cons.IH [of ?t] by (simp add: add_paths_def sbind_def)
qed

lemma new_tracker_tracks:
  assumes "distinct ps" and "ps \<noteq> []"
  shows "fst (new_tracker ps) = Inr () \<and> tracks ps {} (snd (new_tracker ps))"
  using assms by (auto simp: new_tracker_def add_paths_fresh involved_paths_def tracks_def reported_def state_order_def)

lemma tracked_run:
  assumes "distinct ps" and "ps \<noteq> []" and "\<forall>(p, s) \<in> set evs. p \<in> set ps"
  shows "fst (track_all evs (snd (new_tracker ps))) = Inr () \<and> tracks ps (set evs) (snd (track_all evs (snd (new_tracker ps))))"
  using track_all_tracks [of ps "{}" _ evs] new_tracker_tracks [OF assms(1,2)] assms(3) by simp

text \<open>
  C7. The state of a distributed run is determined by the set of reports. After any sequence of
  reports about the carriers of a run the tracker has accepted all of them, and \<open>run.state\<close> is \<open>ERROR\<close>
  when some carrier has reported an error, otherwise the last state of the order NEW, QUEUED,
  TAKE_OFF, IC, OP, OP_END, DONE that all carriers have reported. Neither the order in which the
  reports of different carriers arrive nor repetitions matter.
\<close>

theorem run_state_reported:
  assumes "distinct ps" and "ps \<noteq> []" and "\<forall>(p, s) \<in> set evs. p \<in> set ps"
  shows "fst (track_all evs (snd (new_tracker ps))) = Inr () \<and>
    dr_run_state (snd (track_all evs (snd (new_tracker ps)))) = reported ps (set evs)"
  using tracked_run [OF assms] by (simp add: tracks_def)

definition demo_paths :: "path list" where
  "demo_paths = [[PS ''00-00''], [PS ''00-01'']]"

definition demo_reports :: "(path \<times> run_state) list" where
  "demo_reports = [([PS ''00-01''], TAKE_OFF), ([PS ''00-00''], TAKE_OFF), ([PS ''00-00''], DONE)]"

theorem run_state_reported_witness:
  "fst (track_all demo_reports (snd (new_tracker demo_paths))) = Inr () \<and>
    dr_run_state (snd (track_all demo_reports (snd (new_tracker demo_paths)))) = reported demo_paths (set demo_reports)"
  by (rule run_state_reported) (simp_all add: demo_paths_def demo_reports_def)

definition state_rank :: "run_state \<Rightarrow> nat" where
  "state_rank s = (case first_index (\<lambda>x. x = s) state_order of None \<Rightarrow> length state_order | Some i \<Rightarrow> i)"

lemma state_rank_simps [simp]:
  "state_rank NEW = 0" "state_rank QUEUED = 1" "state_rank TAKE_OFF = 2" "state_rank IC = 3" "state_rank OP = 4"
  "state_rank OP_END = 5" "state_rank DONE = 6" "state_rank ERROR = 7" "state_rank TMP_HALT = 7"
  by code_simp+

lemma rank_rev_order: "i < 7 \<Longrightarrow> state_rank (rev state_order ! i) = 6 - i"
  by (auto simp: state_order_def less_Suc_eq numeral_eq_Suc)

lemma rank_le_7: "state_rank s \<le> 7"
  by (cases s) simp_all

lemma rank_find_mono:
  assumes "find P (rev state_order) = Some s" and "\<And>x. P x \<Longrightarrow> Q x" and "find Q (rev state_order) = Some s'"
  shows "state_rank s \<le> state_rank s'"
proof -
  have len: "length state_order = 7"
    by (simp add: state_order_def)
  obtain i where i: "i < 7" "P (rev state_order ! i)" "s = rev state_order ! i"
    using assms(1) by (auto simp: find_Some_iff len)
  obtain j where j: "j < 7" "s' = rev state_order ! j" "\<forall>k<j. \<not> Q (rev state_order ! k)"
    using assms(3) by (auto simp: find_Some_iff len)
  have "j \<le> i"
    using j(3) i(2) assms(2) by (meson not_le)
  with i j show ?thesis
    by (simp only: rank_rev_order)
qed

lemma reported_rank:
  assumes "E \<subseteq> E'"
  shows "state_rank (reported ps E) \<le> state_rank (reported ps E')"
proof (cases "\<exists>p \<in> set ps. (p, ERROR) \<in> E'")
  case True
  then have "reported ps E' = ERROR"
    by (simp add: reported_def)
  then show ?thesis by (simp add: rank_le_7)
next
  case False
  let ?f = "\<lambda>E. find (\<lambda>s. \<forall>p \<in> set ps. (p, s) \<in> E) (rev state_order)"
  have no: "\<not> (\<exists>p \<in> set ps. (p, ERROR) \<in> E)"
    using False assms by blast
  show ?thesis
  proof (cases "?f E")
    case None
    with no show ?thesis by (simp add: reported_def)
  next
    case (Some s)
    then obtain s' where s': "?f E' = Some s'"
      using find_mono_rank [of _ "rev state_order" s "\<lambda>s. \<forall>p \<in> set ps. (p, s) \<in> E'"] assms by blast
    then show ?thesis
      using rank_find_mono [OF Some _ s'] s' assms Some no False by (auto simp: reported_def)
  qed
qed

text \<open>
  The state of a run never goes back: whatever is reported after \<open>evs\<close>, the run ends at the same
  or a later state of the order, with \<open>ERROR\<close> above \<open>DONE\<close>; in particular an error is final.
\<close>

theorem run_state_monotone:
  assumes "distinct ps" and "ps \<noteq> []" and "\<forall>(p, s) \<in> set (evs @ later). p \<in> set ps"
  shows "state_rank (dr_run_state (snd (track_all evs (snd (new_tracker ps)))))
       \<le> state_rank (dr_run_state (snd (track_all (evs @ later) (snd (new_tracker ps)))))"
  using tracked_run [OF assms(1,2), of evs] tracked_run [OF assms] assms(3)
  by (auto simp: tracks_def intro!: reported_rank)

theorem run_state_monotone_witness:
  "state_rank (dr_run_state (snd (track_all [] (snd (new_tracker demo_paths)))))
     \<le> state_rank (dr_run_state (snd (track_all ([] @ demo_reports) (snd (new_tracker demo_paths)))))"
  by (rule run_state_monotone) (simp_all add: demo_paths_def demo_reports_def)

section \<open>Waiting\<close>

text \<open>What one message reports about the carriers \<open>ps\<close> of the run.\<close>

definition reports_of :: "string \<Rightarrow> path list \<Rightarrow> path list \<times> state_change \<Rightarrow> (path \<times> run_state) list" where
  "reports_of run_id ps = (\<lambda>(path_list, msg).
     if sc_run_id msg \<noteq> run_id then []
     else if sc_entity msg \<noteq> []
     then (case path_parse redac_schema (\<lambda>_. None) (sc_entity msg) of
             Inl _ \<Rightarrow> []
           | Inr p \<Rightarrow> if path_to_root p \<in> set ps then [(path_to_root p, run_state_from_pb (sc_new msg))] else [])
     else map (\<lambda>p. (p, run_state_from_pb (sc_new msg))) path_list)"

lemma on_state_change_tracks:
  assumes "tracks ps E t" and "set path_list \<subseteq> set ps"
  shows "tracks ps (E \<union> set (reports_of run_id ps (path_list, msg))) (snd (on_state_change run_id path_list msg t))"
proof -
  let ?s = "run_state_from_pb (sc_new msg)"
  have "for_each path_list (\<lambda>p. track p ?s) = track_all (map (\<lambda>p. (p, ?s)) path_list)"
    unfolding track_all_def by (induction path_list) simp_all
  moreover have "tracks ps (E \<union> set (map (\<lambda>p. (p, ?s)) path_list)) (snd (track_all (map (\<lambda>p. (p, ?s)) path_list) t))"
    by (rule conjunct2 [OF track_all_tracks [OF assms(1)]]) (use assms(2) in auto)
  ultimately show ?thesis
    using assms track_tracks(2) [OF assms(1)] involved_tracks [OF assms(1)]
    by (auto simp: on_state_change_def reports_of_def pym_defs Let_def split: sum.splits)
qed

lemma deliver_tracks:
  assumes "tracks ps E t" and "\<forall>(path_list, msg) \<in> set ms. set path_list \<subseteq> set ps"
  shows "tracks ps (E \<union> (\<Union>m \<in> set ms. set (reports_of run_id ps m))) (deliver run_id ms t)"
  using assms
proof (induction ms arbitrary: E t)
  case Nil
  then show ?case by (simp add: deliver_def)
next
  case (Cons m ms)
  obtain pl msg where m: "m = (pl, msg)" by fastforce
  have "tracks ps (E \<union> set (reports_of run_id ps m)) (snd (on_state_change run_id pl msg t))"
    using on_state_change_tracks Cons.prems by (simp add: m)
  with Cons.IH [OF this] Cons.prems(2) show ?case
    by (simp add: deliver_def m Un_assoc)
qed

definition schedule_reports :: "string \<Rightarrow> path list \<Rightarrow> turn list \<Rightarrow> (path \<times> run_state) set" where
  "schedule_reports run_id ps sched = (\<Union>ms \<in> set sched. \<Union>m \<in> set ms. set (reports_of run_id ps m))"

text \<open>
  The reference for waiting. A set of reports decides the wait for \<open>s\<close> when it has an error or when all
  carriers have reported \<open>s\<close>; the outcome is a function of the reports. The waiting task looks before the
  first turn and after each one, and stops at the first turn whose reports decide.
\<close>

definition erred :: "path list \<Rightarrow> (path \<times> run_state) set \<Rightarrow> bool" where
  "erred ps E \<longleftrightarrow> (\<exists>p \<in> set ps. (p, ERROR) \<in> E)"

definition reached_by_all :: "path list \<Rightarrow> run_state \<Rightarrow> (path \<times> run_state) set \<Rightarrow> bool" where
  "reached_by_all ps s E \<longleftrightarrow> (\<forall>p \<in> set ps. (p, s) \<in> E)"

definition wait_result :: "path list \<Rightarrow> run_state \<Rightarrow> (path \<times> run_state) set \<Rightarrow> unit res" where
  "wait_result ps s E =
     (if erred ps E then Inl RunError else if reached_by_all ps s E then Inr () else Inl TimeoutError)"

definition stops_at :: "string \<Rightarrow> path list \<Rightarrow> run_state \<Rightarrow> (path \<times> run_state) set \<Rightarrow> turn list \<Rightarrow> nat \<Rightarrow> bool" where
  "stops_at run_id ps s E sched n \<longleftrightarrow>
     (let seen = \<lambda>k. E \<union> schedule_reports run_id ps (take k sched) in
      n \<le> length sched \<and> (\<forall>k<n. wait_result ps s (seen k) = Inl TimeoutError) \<and>
      (wait_result ps s (seen n) = Inl TimeoutError \<longrightarrow> n = length sched))"

lemma schedule_reports_Nil [simp]: "schedule_reports run_id ps [] = {}"
  by (simp add: schedule_reports_def)

lemma schedule_reports_Cons:
  "schedule_reports run_id ps (ms # sched) = (\<Union>m \<in> set ms. set (reports_of run_id ps m)) \<union> schedule_reports run_id ps sched"
  by (simp add: schedule_reports_def)

lemma schedule_reports_take: "schedule_reports run_id ps (take n sched) \<subseteq> schedule_reports run_id ps sched"
  unfolding schedule_reports_def by (meson UN_mono order_refl set_take_subset)

lemma stops_now:
  "wait_result ps s E \<noteq> Inl TimeoutError \<or> sched = [] \<Longrightarrow> stops_at run_id ps s E sched 0"
  by (auto simp: stops_at_def)

lemma stops_later:
  assumes "wait_result ps s E = Inl TimeoutError"
    and "stops_at run_id ps s (E \<union> (\<Union>m \<in> set ms. set (reports_of run_id ps m))) sched n"
  shows "stops_at run_id ps s E (ms # sched) (Suc n)"
  using assms by (auto simp: stops_at_def Let_def schedule_reports_Cons Un_assoc less_Suc_eq_0_disj)

lemma tracks_decides:
  assumes "tracks ps E t" and "ps \<noteq> []"
  shows "dr_states t \<noteq> []" and "dr_error t = erred ps E" and "all_reached s t = reached_by_all ps s E"
  using assms by (auto simp: tracks_def all_reached_def erred_def reached_by_all_def)

lemma wait_all_decided:
  assumes "tracks ps E t" and "ps \<noteq> []" and "wait_result ps s E \<noteq> Inl TimeoutError \<or> sched = []"
  shows "wait_all run_id s sched t = (wait_result ps s E, t)"
  using assms(3) tracks_decides [OF assms(1,2)] by (cases sched) (auto simp: wait_result_def)

lemma wait_all_tracks:
  assumes "tracks ps E t" and "ps \<noteq> []" and "\<forall>ms \<in> set sched. \<forall>(pl, msg) \<in> set ms. set pl \<subseteq> set ps"
    and "wait_all run_id s sched t = (r, t')"
  obtains n where "stops_at run_id ps s E sched n"
    and "tracks ps (E \<union> schedule_reports run_id ps (take n sched)) t'"
    and "r = wait_result ps s (E \<union> schedule_reports run_id ps (take n sched))"
proof -
  have "\<exists>n. stops_at run_id ps s E sched n \<and> tracks ps (E \<union> schedule_reports run_id ps (take n sched)) t' \<and>
      r = wait_result ps s (E \<union> schedule_reports run_id ps (take n sched))"
    using assms
  proof (induction sched arbitrary: E t)
    case Nil
    then show ?case
      using wait_all_decided [OF Nil.prems(1,2), of s "[]" run_id] stops_now [of ps s E "[]" run_id]
      by (intro exI [of _ 0]) simp
  next
    case (Cons ms sched)
    let ?A = "\<Union>m \<in> set ms. set (reports_of run_id ps m)"
    show ?case
    proof (cases "wait_result ps s E = Inl TimeoutError")
      case False
      then show ?thesis
        using wait_all_decided [OF Cons.prems(1,2), of s "ms # sched" run_id] stops_now [of ps s E "ms # sched" run_id] Cons.prems(1,4)
        by (intro exI [of _ 0]) simp
    next
      case True
      then have "wait_all run_id s (ms # sched) t = wait_all run_id s sched (deliver run_id ms t)"
        using tracks_decides [OF Cons.prems(1,2)] by (auto simp: wait_result_def split: if_splits)
      moreover have "tracks ps (E \<union> ?A) (deliver run_id ms t)"
        using deliver_tracks Cons.prems(1,3) by simp
      ultimately obtain n where "stops_at run_id ps s (E \<union> ?A) sched n"
          "tracks ps (E \<union> ?A \<union> schedule_reports run_id ps (take n sched)) t'"
          "r = wait_result ps s (E \<union> ?A \<union> schedule_reports run_id ps (take n sched))"
        using Cons.IH [of "E \<union> ?A" "deliver run_id ms t"] Cons.prems(2-4) by auto
      then show ?thesis
        using stops_later [OF True, of run_id ms sched n]
        by (intro exI [of _ "Suc n"]) (simp add: schedule_reports_Cons Un_assoc)
    qed
  qed
  then show thesis
    using that by blast
qed

lemma tracked_all:
  assumes "tracks ps E t" "\<not> (\<exists>p \<in> set ps. (p, ERROR) \<in> E)" "\<forall>p \<in> set ps. (p, s) \<in> E" "s \<in> set state_order"
  shows "dr_run_state t \<noteq> ERROR \<and> state_rank s \<le> state_rank (dr_run_state t)"
proof -
  have "find (\<lambda>s. \<forall>p \<in> set ps. (p, s) \<in> E) (rev state_order) \<noteq> None"
    using assms(3,4) by (simp add: find_None_iff) blast
  then obtain s' where s': "find (\<lambda>s. \<forall>p \<in> set ps. (p, s) \<in> E) (rev state_order) = Some s'"
    by blast
  have "s' \<in> set (rev state_order)"
    using s' by (auto simp: find_Some_iff in_set_conv_nth simp del: set_rev)
  then have "s' \<noteq> ERROR"
    by (auto simp: state_order_def)
  moreover have "state_rank s \<le> state_rank s'"
    using assms(4) by (intro rank_find_mono [OF _ _ s', of "\<lambda>x. x = s"]) (auto simp: state_order_def assms(3))
  moreover have "dr_run_state t = s'"
    using assms(1,2) s' by (auto simp: tracks_def reported_def)
  ultimately show ?thesis by simp
qed

text \<open>
  C27. Waiting stops at the first turn of the event loop that decides it. For every schedule of messages there
  is a number \<open>n\<close> of delivered turns such that no shorter prefix has an error or the state from all carriers,
  and the reports of these \<open>n\<close> turns have one of them or are all there will be. The outcome is theirs: \<open>RunError\<close>
  if one of the carriers has reported an error, a return if all carriers have reported the state and none an error, otherwise
  the wait is still pending when the schedule ends (\<open>TimeoutError\<close>). \<open>run.state\<close> is the state these reports
  describe; after a return it is the awaited state or a later one of the order.
\<close>

theorem wait_all_outcome:
  assumes "distinct ps" and "ps \<noteq> []" and "\<forall>ms \<in> set sched. \<forall>(pl, msg) \<in> set ms. set pl \<subseteq> set ps"
    and "s \<in> set state_order" and "wait_all run_id s sched (snd (new_tracker ps)) = (r, t')"
  shows "\<exists>n \<le> length sched.
      (\<forall>k<n. \<not> erred ps (schedule_reports run_id ps (take k sched)) \<and>
             \<not> reached_by_all ps s (schedule_reports run_id ps (take k sched))) \<and>
      (n < length sched \<longrightarrow> erred ps (schedule_reports run_id ps (take n sched)) \<or>
             reached_by_all ps s (schedule_reports run_id ps (take n sched))) \<and>
      r = (if erred ps (schedule_reports run_id ps (take n sched)) then Inl RunError
           else if reached_by_all ps s (schedule_reports run_id ps (take n sched)) then Inr () else Inl TimeoutError) \<and>
      dr_run_state t' = reported ps (schedule_reports run_id ps (take n sched)) \<and>
      (r = Inr () \<longrightarrow> dr_run_state t' \<noteq> ERROR \<and> state_rank s \<le> state_rank (dr_run_state t'))"
proof -
  have tr: "tracks ps {} (snd (new_tracker ps))"
    using new_tracker_tracks [OF assms(1,2)] by simp
  obtain n where n: "stops_at run_id ps s {} sched n"
    and t: "tracks ps (schedule_reports run_id ps (take n sched)) t'"
    and r: "r = wait_result ps s (schedule_reports run_id ps (take n sched))"
    using wait_all_tracks [OF tr assms(2,3,5)] by auto
  have un: "wait_result ps s E = Inl TimeoutError \<longleftrightarrow> \<not> erred ps E \<and> \<not> reached_by_all ps s E" for E
    by (simp add: wait_result_def)
  have rank: "r = Inr () \<longrightarrow> dr_run_state t' \<noteq> ERROR \<and> state_rank s \<le> state_rank (dr_run_state t')"
    using tracked_all [OF t _ _ assms(4)] by (auto simp: r wait_result_def erred_def reached_by_all_def split: if_splits)
  have state: "dr_run_state t' = reported ps (schedule_reports run_id ps (take n sched))"
    using t by (simp add: tracks_def)
  have stop: "n \<le> length sched" "n < length sched \<longrightarrow> wait_result ps s (schedule_reports run_id ps (take n sched)) \<noteq> Inl TimeoutError"
    "\<forall>k<n. wait_result ps s (schedule_reports run_id ps (take k sched)) = Inl TimeoutError"
    using n unfolding stops_at_def Let_def Un_empty_left by auto
  have first: "n < length sched \<longrightarrow> erred ps (schedule_reports run_id ps (take n sched)) \<or>
      reached_by_all ps s (schedule_reports run_id ps (take n sched))"
    using stop(2) by (simp only: un de_Morgan_conj not_not)
  show ?thesis
    by (intro exI [of _ n] conjI; (rule stop(1) stop(3) [unfolded un] first r [unfolded wait_result_def] state rank)?)
qed

definition demo_schedule :: "turn list" where
  "demo_schedule =
     [[([[PS ''00-00'']], \<lparr>sc_run_id = ''r'', sc_new = 4, sc_entity = []\<rparr>)],
      [(demo_paths, \<lparr>sc_run_id = ''r'', sc_new = 4, sc_entity = ''/00-01/0''\<rparr>)]]"

theorem wait_all_outcome_witness:
  "\<exists>n \<le> 2. \<exists>t'. wait_all ''r'' TAKE_OFF demo_schedule (snd (new_tracker demo_paths)) = (Inr (), t') \<and>
     reached_by_all demo_paths TAKE_OFF (schedule_reports ''r'' demo_paths (take n demo_schedule)) \<and>
     dr_run_state t' = reported demo_paths (schedule_reports ''r'' demo_paths (take n demo_schedule)) \<and>
     dr_run_state t' \<noteq> ERROR \<and> state_rank TAKE_OFF \<le> state_rank (dr_run_state t')"
proof -
  have "fst (wait_all ''r'' TAKE_OFF demo_schedule (snd (new_tracker demo_paths))) = Inr ()"
    by code_simp
  then obtain t' where t': "wait_all ''r'' TAKE_OFF demo_schedule (snd (new_tracker demo_paths)) = (Inr (), t')"
    by (metis prod.collapse)
  have "distinct demo_paths" "demo_paths \<noteq> []" "TAKE_OFF \<in> set state_order" "length demo_schedule = 2"
    "\<forall>ms \<in> set demo_schedule. \<forall>(pl, msg) \<in> set ms. set pl \<subseteq> set demo_paths"
    by (simp_all add: demo_paths_def demo_schedule_def state_order_def)
  with wait_all_outcome [OF this(1,2,5,3) t'] t' show ?thesis
    by (auto split: if_splits)
qed

end
