(* ===== verification/Samples.thy ===== *)
theory Samples
  imports Entities "HOL-Library.Word" "HOL-Library.Multiset"
begin

text \<open>
  Sample data of a run: the binary blob in which the data channel hands decoded samples to the
  session (\<open>DecodedSampleBlob::build\<close> of the native package), its parser
  \<open>Session._parse_sample_blob\<close>, the draining of the queues and the assembly of the chunks into
  \<open>run.data\<close> and \<open>run.final_values\<close> (redac/session.py).

  A byte is an \<open>8 word\<close>, an unsigned 32-bit field of the header the number it holds, and a sample the
  64 bits of a double; no arithmetic is done on samples. Entity paths are ASCII. Sample listeners
  are observed through the dictionaries they are given.
\<close>

section \<open>Little-endian numbers\<close>

type_synonym byte = "8 word"
type_synonym sample = "64 word"

fun le_bytes :: "nat \<Rightarrow> nat \<Rightarrow> byte list" where
  "le_bytes 0 v = []"
| "le_bytes (Suc n) v = word_of_nat v # le_bytes n (v div 256)"

fun le_val :: "byte list \<Rightarrow> nat" where
  "le_val [] = 0"
| "le_val (b # bs) = unat b + 256 * le_val bs"

lemma length_le_bytes [simp]: "length (le_bytes n v) = n"
  by (induction n arbitrary: v) simp_all

lemma le_val_le_bytes: "le_val (le_bytes n v) = v mod 256 ^ n"
proof (induction n arbitrary: v)
  case (Suc n)
  have "unat (word_of_nat v :: byte) = v mod 256"
    by (simp add: unat_of_nat)
  with Suc show ?case
    by (simp add: mod_mult2_eq)
qed simp

lemma le_val_bound: "le_val bs < 256 ^ length bs"
proof (induction bs)
  case (Cons b bs)
  have "unat b < 256"
    using unsigned_less [of b, where 'a = nat] by simp
  with Cons show ?case by simp
qed simp

text \<open>\<open>struct.unpack_from\<close> for \<open>n\<close> little-endian fields of \<open>w\<close> bytes, and the fields written one after the other.\<close>

definition slice :: "nat \<Rightarrow> nat \<Rightarrow> 'a list \<Rightarrow> 'a list" where
  "slice off n bs = take n (drop off bs)"

definition unpack :: "nat \<Rightarrow> nat \<Rightarrow> nat \<Rightarrow> byte list \<Rightarrow> nat list" where
  "unpack w n off bs = map (\<lambda>i. le_val (slice (off + w * i) w bs)) [0..<n]"

definition pack :: "nat \<Rightarrow> nat list \<Rightarrow> byte list" where
  "pack w vs = concat (map (le_bytes w) vs)"

lemma length_pack [simp]: "length (pack w vs) = w * length vs"
  by (induction vs) (simp_all add: pack_def)

lemma slice_pack: "i < length vs \<Longrightarrow> slice (w * i) w (pack w vs @ rest) = le_bytes w (vs ! i)"
proof (induction vs arbitrary: i)
  case (Cons v vs)
  then show ?case
    by (cases i) (auto simp: slice_def pack_def)
qed simp

lemma unpack_pack:
  assumes "\<forall>v \<in> set vs. v < 256 ^ w" and "length pre = off" and "n = length vs"
  shows "unpack w n off (pre @ pack w vs @ rest) = vs"
proof (rule nth_equalityI)
  fix i
  assume "i < length (unpack w n off (pre @ pack w vs @ rest))"
  then have i: "i < length vs"
    by (simp add: unpack_def assms(3))
  have "slice (off + w * i) w (pre @ pack w vs @ rest) = slice (w * i) w (pack w vs @ rest)"
    by (simp add: slice_def assms(2) [symmetric])
  then show "unpack w n off (pre @ pack w vs @ rest) ! i = vs ! i"
    using i assms(1) by (simp add: unpack_def assms(3) slice_pack le_val_le_bytes)
qed (simp add: unpack_def assms(3))

section \<open>The blob\<close>

record chunk_record =
  ck_chunk_number :: nat
  ck_entity_path :: string
  ck_sample_type :: nat
  ck_channel_count :: nat
  ck_samples :: "sample list list"
  ck_probe_indices :: "nat list option"

text \<open>\<open>align_up_to_double\<close> and \<open>DecodedSampleBlob::build\<close>; \<open>samples\<close> are interleaved, one channel after the other.\<close>

definition align8 :: "nat \<Rightarrow> nat" where
  "align8 v = (v + 7) div 8 * 8"

definition ascii_bytes :: "string \<Rightarrow> byte list" where
  "ascii_bytes s = map (\<lambda>c. word_of_nat (of_char c)) s"

definition blob_build :: "string \<Rightarrow> sample list \<Rightarrow> nat \<Rightarrow> nat \<Rightarrow> nat \<Rightarrow> nat list \<Rightarrow> byte list" where
  "blob_build path samples channels stype chunk probes =
     (let sample_count = (if channels > 0 then length samples div channels else 0);
          head = pack 4 [length path, sample_count, channels, stype, chunk, if probes = [] then 0 else 1];
          body = head @ ascii_bytes path @ pack 4 (if probes = [] then [] else take channels probes)
      in body @ replicate (align8 (length body) - length body) 0 @ pack 8 (map unat samples))"

text \<open>The parser.\<close>

definition decode_ascii :: "byte list \<Rightarrow> string res" where
  "decode_ascii bs = (if \<forall>b \<in> set bs. b < 128 then Inr (map (\<lambda>b. char_of (unat b)) bs) else Inl UnicodeDecodeError)"

definition unpack_from :: "nat \<Rightarrow> nat \<Rightarrow> byte list \<Rightarrow> nat list res" where
  "unpack_from n off bs = (if off + 4 * n \<le> length bs then Inr (unpack 4 n off bs) else Inl StructError)"

definition frombuffer :: "nat \<Rightarrow> nat \<Rightarrow> byte list \<Rightarrow> sample list res" where
  "frombuffer n off bs =
     (if off + 8 * n \<le> length bs then Inr (map word_of_nat (unpack 8 n off bs)) else Inl ValueError)"

definition reshape_F :: "nat \<Rightarrow> nat \<Rightarrow> sample list \<Rightarrow> sample list list" where
  "reshape_F channels n xs = map (\<lambda>i. map (\<lambda>j. xs ! (j * channels + i)) [0..<n]) [0..<channels]"

definition pad8 :: "nat \<Rightarrow> nat" where
  "pad8 off = (if off mod 8 \<noteq> 0 then off + (8 - off mod 8) else off)"

record drain_state =
  dn_chunks :: "chunk_record list"
  dn_delivered :: "(path \<times> sample list) list list"

definition adc_name :: "nat \<Rightarrow> string" where
  "adc_name i = ''ADC'' @ nat_str i"

definition parse_sample_blob :: "byte list \<Rightarrow> (drain_state, unit) pym" where
  "parse_sample_blob blob =
     (if length blob < 24 then ret ()
      else
        (case unpack 4 6 0 blob of
           [path_len, sample_count, channel_count, sample_type, chunk_number, has_probes] \<Rightarrow>
             if channel_count = 0 \<or> sample_count = 0 then ret ()
             else
               let path_end = 24 + path_len in
               sbind (eval_st (\<lambda>_. decode_ascii (slice 24 path_len blob))) (\<lambda>path_str.
               sbind (eval_st (\<lambda>_. if has_probes \<noteq> 0
                   then rbind (unpack_from channel_count path_end blob) (\<lambda>ps. Inr (Some ps, path_end + channel_count * 4))
                   else Inr (None, path_end))) (\<lambda>(probes, probe_end).
               let data_offset = pad8 probe_end in
               sbind (eval_st (\<lambda>_. frombuffer (sample_count * channel_count) data_offset blob)) (\<lambda>raw.
               let samples = reshape_F channel_count sample_count raw in
               sbind (modify (\<lambda>d. d\<lparr>dn_chunks := dn_chunks d @
                 [\<lparr>ck_chunk_number = chunk_number, ck_entity_path = path_str, ck_sample_type = sample_type,
                   ck_channel_count = channel_count, ck_samples = samples, ck_probe_indices = probes\<rparr>]\<rparr>)) (\<lambda>_.
               if sample_type = 0
               then sbind (eval_st (\<lambda>_. path_parse redac_schema (\<lambda>_. None) path_str)) (\<lambda>p.
                    modify (\<lambda>d. d\<lparr>dn_delivered := dn_delivered d @
                      [map (\<lambda>i. (path_join p (Inr (PS (adc_name i))), samples ! i)) [0..<channel_count]]\<rparr>))
               else ret ()))))
         | _ \<Rightarrow> raise StructError))"

text \<open>
  \<open>_continuous_drain\<close> with its final sweep, over the blobs that the queues return in the order of
  the polls: a blob that raises is logged and skipped.
\<close>

definition drain :: "byte list list \<Rightarrow> drain_state \<Rightarrow> drain_state" where
  "drain blobs d = fold (\<lambda>b d. snd (parse_sample_blob b d)) blobs d"

section \<open>Round trip of a blob\<close>

lemma ascii_roundtrip:
  assumes "\<forall>c \<in> set s. (of_char c :: nat) < 128"
  shows "decode_ascii (ascii_bytes s) = Inr s"
proof -
  have u: "unat (word_of_nat (of_char c) :: byte) = of_char c" if "c \<in> set s" for c
    using assms that by (simp add: unat_of_nat)
  then have "\<forall>b \<in> set (ascii_bytes s). b < 128"
    using assms by (auto simp: ascii_bytes_def word_less_nat_alt)
  moreover have "map (\<lambda>b. char_of (unat b)) (ascii_bytes s) = s"
    using u by (auto simp: ascii_bytes_def intro!: map_idI)
  ultimately show ?thesis by (simp add: decode_ascii_def)
qed

lemma pad8_align8: "pad8 v = align8 v"
proof -
  define q r where "q = v div 8" and "r = v mod 8"
  then have v: "v = r + 8 * q" and r: "r < 8"
    by simp_all
  have "(v + 7) div 8 = q + (r + 7) div 8"
    by (simp add: v add.commute [of _ 7] add.assoc [symmetric])
  moreover have "(r + 7) div 8 = (if r = 0 then 0 else 1)"
    using r by (auto intro: div_nat_eqI)
  ultimately show ?thesis
    using r by (simp add: pad8_def align8_def r_def [symmetric]) (simp add: v)
qed

lemma align8_ge: "v \<le> align8 v"
  by (auto simp: pad8_def simp flip: pad8_align8)

lemma sample_bits: "map word_of_nat (map unat xs) = (xs :: sample list)"
  by (simp add: comp_def map_idI)

text \<open>What a blob is about: the arguments that \<open>build\<close> was given fit their fields and each other.\<close>

definition blob_ok :: "string \<Rightarrow> sample list \<Rightarrow> nat \<Rightarrow> nat \<Rightarrow> nat \<Rightarrow> nat list \<Rightarrow> bool" where
  "blob_ok path samples channels stype chunk probes \<longleftrightarrow>
     (\<forall>c \<in> set path. (of_char c :: nat) < 128) \<and> channels > 0 \<and> samples \<noteq> [] \<and> length samples mod channels = 0 \<and>
     length path < 2 ^ 32 \<and> length samples < 2 ^ 32 \<and> channels < 2 ^ 32 \<and> stype < 2 ^ 32 \<and> chunk < 2 ^ 32 \<and>
     (probes = [] \<or> length probes = channels \<and> (\<forall>p \<in> set probes. p < 2 ^ 32))"

definition blob_chunk :: "string \<Rightarrow> sample list \<Rightarrow> nat \<Rightarrow> nat \<Rightarrow> nat \<Rightarrow> nat list \<Rightarrow> chunk_record" where
  "blob_chunk path samples channels stype chunk probes =
     \<lparr>ck_chunk_number = chunk, ck_entity_path = path, ck_sample_type = stype, ck_channel_count = channels,
      ck_samples = map (\<lambda>i. map (\<lambda>j. samples ! (j * channels + i)) [0..<length samples div channels]) [0..<channels],
      ck_probe_indices = (if probes = [] then None else Some probes)\<rparr>"

lemma blob_sections:
  assumes "blob_ok path samples channels stype chunk probes"
  defines "blob \<equiv> blob_build path samples channels stype chunk probes"
    and "pe \<equiv> 24 + length path + (if probes = [] then 0 else channels * 4)"
    and "n \<equiv> length samples div channels"
  shows "length blob = align8 pe + 8 * length samples"
    and "unpack 4 6 0 blob = [length path, n, channels, stype, chunk, if probes = [] then 0 else 1]"
    and "slice 24 (length path) blob = ascii_bytes path"
    and "probes \<noteq> [] \<Longrightarrow> unpack_from channels (24 + length path) blob = Inr probes"
    and "frombuffer (n * channels) (align8 pe) blob = Inr samples"
proof -
  let ?head = "[length path, n, channels, stype, chunk, if probes = [] then 0 else 1]"
  let ?ps = "if probes = [] then [] else take channels probes"
  let ?body = "pack 4 ?head @ ascii_bytes path @ pack 4 ?ps"
  let ?pad = "replicate (align8 pe - pe) (0 :: byte)"
  note ok = assms(1) [unfolded blob_ok_def]
  have ps: "?ps = probes" "length probes = (if probes = [] then 0 else channels)"
    using ok by auto
  have lenb: "length ?body = pe"
    using ps(2) by (auto simp: pe_def ascii_bytes_def)
  have blob: "blob = ?body @ ?pad @ pack 8 (map unat samples)"
    using ok lenb by (simp add: blob_def blob_build_def Let_def n_def)
  have n: "n * channels = length samples" "n \<le> length samples"
    using ok by (auto simp: n_def)
  show len: "length blob = align8 pe + 8 * length samples"
    using lenb align8_ge [of pe] by (simp add: blob)
  have "\<forall>v \<in> set ?head. v < 256 ^ 4"
    using ok n(2) by auto
  then show "unpack 4 6 0 blob = ?head"
    using unpack_pack [of ?head 4 "[]" 0 6] by (simp add: blob)
  show "slice 24 (length path) blob = ascii_bytes path"
    by (simp add: blob slice_def ascii_bytes_def)
  show "unpack_from channels (24 + length path) blob = Inr probes" if "probes \<noteq> []"
  proof -
    have "unpack 4 channels (24 + length path) ((pack 4 ?head @ ascii_bytes path) @ pack 4 probes @ (?pad @ pack 8 (map unat samples))) = probes"
      by (rule unpack_pack) (use ok ps that in \<open>auto simp: ascii_bytes_def\<close>)
    moreover have "24 + length path + 4 * channels \<le> length blob"
      using len align8_ge [of pe] that by (simp add: pe_def)
    ultimately show ?thesis
      using ps by (simp add: unpack_from_def blob)
  qed
  have "unpack 8 (n * channels) (align8 pe) ((?body @ ?pad) @ pack 8 (map unat samples) @ []) = map unat samples"
  proof (rule unpack_pack)
    show "\<forall>v \<in> set (map unat samples). v < 256 ^ 8"
      using unsigned_less [where 'b = 64 and 'a = nat] by (auto simp del: unsigned_less)
    show "length (?body @ ?pad) = align8 pe"
      using lenb align8_ge [of pe] by (simp del: append_assoc)
  qed (simp add: n(1))
  then show "frombuffer (n * channels) (align8 pe) blob = Inr samples"
    using len n(1) by (simp add: frombuffer_def blob sample_bits del: map_map)
qed

text \<open>
  C9. A blob is read as it was built. For every entity path, samples, probe indices and header
  fields within their widths, parsing the blob appends exactly one chunk that carries them, with the
  interleaved samples separated by channel; a chunk of the OP phase is forwarded to the listeners under
  one path per channel.
\<close>

theorem blob_roundtrip:
  assumes "blob_ok path samples channels stype chunk probes"
    and "stype = 0 \<Longrightarrow> path_parse redac_schema (\<lambda>_. None) path = Inr p"
  shows "parse_sample_blob (blob_build path samples channels stype chunk probes) d =
    (Inr (), d\<lparr>dn_chunks := dn_chunks d @ [blob_chunk path samples channels stype chunk probes],
      dn_delivered := dn_delivered d @ (if stype = 0 then
        [map (\<lambda>i. (p @ [PS (adc_name i)], ck_samples (blob_chunk path samples channels stype chunk probes) ! i)) [0..<channels]] else [])\<rparr>)"
proof -
  let ?blob = "blob_build path samples channels stype chunk probes"
  let ?n = "length samples div channels"
  note sec = blob_sections [OF assms(1)]
  have "\<not> length ?blob < 24"
    using sec(1) align8_ge [of "24 + length path + (if probes = [] then 0 else channels * 4)"] by simp
  moreover have "channels \<noteq> 0" "?n \<noteq> 0"
    using assms(1) by (auto simp: blob_ok_def div_eq_0_iff)
  moreover have "decode_ascii (ascii_bytes path) = Inr path"
    using assms(1) by (auto simp: blob_ok_def intro: ascii_roundtrip)
  moreover have "reshape_F channels ?n samples = ck_samples (blob_chunk path samples channels stype chunk probes)"
    by (simp add: reshape_F_def blob_chunk_def)
  ultimately show ?thesis
    using sec(2-5) assms(2)
    by (cases "probes = []"; cases "stype = 0")
      (simp_all add: parse_sample_blob_def sbind_def eval_st_def modify_def ret_def Let_def pad8_align8 blob_chunk_def)
qed

definition demo_blob_path :: string where
  "demo_blob_path = ''00-00''"

theorem blob_roundtrip_witness:
  "parse_sample_blob (blob_build demo_blob_path [1, 2, 3, 4, 5, 6] 2 0 7 [3, 4]) \<lparr>dn_chunks = [], dn_delivered = []\<rparr> =
    (Inr (), \<lparr>dn_chunks = [\<lparr>ck_chunk_number = 7, ck_entity_path = demo_blob_path, ck_sample_type = 0, ck_channel_count = 2,
        ck_samples = [[1, 3, 5], [2, 4, 6]], ck_probe_indices = Some [3, 4]\<rparr>],
      dn_delivered = [[([PS demo_blob_path, PS ''ADC0''], [1, 3, 5]), ([PS demo_blob_path, PS ''ADC1''], [2, 4, 6])]]\<rparr>)"
proof -
  have "blob_ok demo_blob_path [1, 2, 3, 4, 5, 6] 2 0 7 [3, 4]"
    by (simp add: blob_ok_def demo_blob_path_def)
  moreover have "path_parse redac_schema (\<lambda>_. None) demo_blob_path = Inr [PS demo_blob_path]"
    by code_simp
  moreover have "adc_name 0 = ''ADC0''" "adc_name 1 = ''ADC1''"
    by code_simp+
  moreover have "[0..<2] = [0, 1 :: nat]" "[0..<3] = [0, 1, 2 :: nat]"
    by code_simp+
  ultimately show ?thesis
    using blob_roundtrip [of demo_blob_path "[1, 2, 3, 4, 5, 6]" 2 0 7 "[3, 4]" "[PS demo_blob_path]"]
    by (simp add: blob_chunk_def)
qed

section \<open>Assembly\<close>

record run_data =
  rn_data :: "sample list option list"
  rn_final :: "path \<rightharpoonup> sample"

type_synonym probe_dict = "(nat \<times> sample list) list"

text \<open>\<open>probe_data[k].extend(vs)\<close> on a \<open>defaultdict(list)\<close>.\<close>

fun dict_extend :: "nat \<Rightarrow> sample list \<Rightarrow> probe_dict \<Rightarrow> probe_dict" where
  "dict_extend k vs [] = [(k, vs)]"
| "dict_extend k vs ((k', ws) # d) = (if k' = k then (k', ws @ vs) # d else (k', ws) # dict_extend k vs d)"

definition chunk_key :: "chunk_record \<Rightarrow> string \<times> nat" where
  "chunk_key c = (ck_entity_path c, ck_sample_type c)"

definition group_of :: "string \<times> nat \<Rightarrow> chunk_record list \<Rightarrow> chunk_record list" where
  "group_of k cks = filter (\<lambda>c. chunk_key c = k) cks"

text \<open>The groups in the order in which their first chunk arrived, each sorted by chunk number.\<close>

definition chunk_groups :: "chunk_record list \<Rightarrow> ((string \<times> nat) \<times> chunk_record list) list" where
  "chunk_groups cks =
     map (\<lambda>k. (k, sort_key ck_chunk_number (group_of k cks))) (rev (remdups (rev (map chunk_key cks))))"

definition op_channel :: "chunk_record list \<Rightarrow> nat list option \<Rightarrow> nat \<Rightarrow> probe_dict \<Rightarrow> probe_dict res" where
  "op_channel cks probes i d =
     (case probes of
        None \<Rightarrow> Inl PlainException
      | Some ps \<Rightarrow>
          rbind (py_get ps (int i)) (\<lambda>k.
          rfold (\<lambda>c d. rbind (py_get (ck_samples c) (int i)) (\<lambda>vs. Inr (dict_extend k vs d))) cks d))"

definition op_group :: "chunk_record list \<Rightarrow> probe_dict \<Rightarrow> probe_dict res" where
  "op_group cks d =
     (case cks of
        [] \<Rightarrow> Inr d
      | r # _ \<Rightarrow> rfold (op_channel cks (ck_probe_indices r)) [0..<ck_channel_count r] d)"

definition final_path :: "path \<Rightarrow> nat \<Rightarrow> nat \<Rightarrow> path" where
  "final_path p block out = p @ [PS (nat_str (block div 2)), PS (''M'' @ nat_str (block mod 2)), PS (nat_str out)]"

definition op_end_group :: "(path \<rightharpoonup> nat) \<Rightarrow> path \<Rightarrow> chunk_record list \<Rightarrow> run_data \<Rightarrow> run_data" where
  "op_end_group clusters p cks r =
     (if cks = [] then r
      else
        let flat = concat (ck_samples (last cks));
            blocks = (case clusters (path_to_root p) of None \<Rightarrow> 3 | Some n \<Rightarrow> n) * 2;
            places = concat (map (\<lambda>b. map (Pair b) [0..<8]) [0..<blocks])
        in fold (\<lambda>(b, out) r.
             if b * 8 + out < length flat
             then r\<lparr>rn_final := (rn_final r)(final_path p b out \<mapsto> flat ! (b * 8 + out))\<rparr> else r) places r)"

fun assemble_groups ::
    "(path \<rightharpoonup> nat) \<Rightarrow> ((string \<times> nat) \<times> chunk_record list) list \<Rightarrow> probe_dict \<Rightarrow> (run_data, probe_dict) pym" where
  "assemble_groups clusters [] d = ret d"
| "assemble_groups clusters (((path, stype), cks) # gs) d =
     sbind (eval_st (\<lambda>_. path_parse redac_schema (\<lambda>_. None) path)) (\<lambda>p.
     if stype = 0 then sbind (eval_st (\<lambda>_. op_group cks d)) (assemble_groups clusters gs)
     else if stype = 1 then sbind (modify (op_end_group clusters p cks)) (\<lambda>_. assemble_groups clusters gs d)
     else assemble_groups clusters gs d)"

definition data_list :: "probe_dict \<Rightarrow> sample list option list" where
  "data_list d = map (map_of d) [0..<Suc (Max (fst ` set d))]"

definition assemble_run_data :: "(path \<rightharpoonup> nat) \<Rightarrow> chunk_record list \<Rightarrow> (run_data, unit) pym" where
  "assemble_run_data clusters cks =
     (if cks = [] then ret ()
      else sbind (assemble_groups clusters (chunk_groups cks) []) (\<lambda>d.
           if d = [] then ret () else modify (\<lambda>r. r\<lparr>rn_data := data_list d\<rparr>)))"

lemma map_of_dict_extend:
  "map_of (dict_extend k vs d) = (map_of d)(k \<mapsto> (case map_of d k of None \<Rightarrow> [] | Some ws \<Rightarrow> ws) @ vs)"
  by (induction k vs d rule: dict_extend.induct) (auto simp: fun_eq_iff)

text \<open>
  What the data channel delivers for a run: the paths parse; every OP chunk has one probe index per
  channel, the same for all chunks of its carrier; no probe index is used twice; chunk numbers are
  unique for each carrier and phase.
\<close>

definition probe_of :: "chunk_record \<Rightarrow> nat \<Rightarrow> nat" where
  "probe_of c i = the (ck_probe_indices c) ! i"

definition chunks_ok :: "chunk_record list \<Rightarrow> bool" where
  "chunks_ok cks \<longleftrightarrow>
     (\<forall>c \<in> set cks. \<exists>p. path_parse redac_schema (\<lambda>_. None) (ck_entity_path c) = Inr p) \<and>
     distinct (map (\<lambda>c. (chunk_key c, ck_chunk_number c)) cks) \<and>
     (\<forall>c \<in> set cks. ck_sample_type c = 0 \<longrightarrow>
        length (ck_samples c) = ck_channel_count c \<and>
        (\<exists>ps. ck_probe_indices c = Some ps \<and> length ps = ck_channel_count c)) \<and>
     (\<forall>c \<in> set cks. \<forall>c' \<in> set cks. ck_sample_type c = 0 \<and> chunk_key c = chunk_key c' \<longrightarrow>
        ck_channel_count c = ck_channel_count c' \<and> ck_probe_indices c = ck_probe_indices c') \<and>
     (\<forall>c \<in> set cks. \<forall>c' \<in> set cks. \<forall>i < ck_channel_count c. \<forall>j < ck_channel_count c'.
        ck_sample_type c = 0 \<and> ck_sample_type c' = 0 \<and> probe_of c i = probe_of c' j \<longrightarrow>
        ck_entity_path c = ck_entity_path c' \<and> i = j)"

text \<open>The samples of one channel: those of its carrier's chunks in the order of their numbers.\<close>

definition channel_series :: "chunk_record list \<Rightarrow> chunk_record \<Rightarrow> nat \<Rightarrow> sample list" where
  "channel_series cks c i = concat (map (\<lambda>c'. ck_samples c' ! i) (sort_key ck_chunk_number (group_of (chunk_key c) cks)))"

lemma extend_chunks:
  assumes "\<forall>c \<in> set cks. i < length (ck_samples c)" and "cks \<noteq> []"
  shows "\<exists>d'. rfold (\<lambda>c d. rbind (py_get (ck_samples c) (int i)) (\<lambda>vs. Inr (dict_extend k vs d))) cks d = Inr d' \<and>
    map_of d' = (map_of d)(k \<mapsto> (case map_of d k of None \<Rightarrow> [] | Some ws \<Rightarrow> ws) @ concat (map (\<lambda>c. ck_samples c ! i) cks))"
  using assms
proof (induction cks arbitrary: d)
  case (Cons c cks)
  have get: "py_get (ck_samples c) (int i) = Inr (ck_samples c ! i)"
    using Cons.prems by simp
  show ?case
  proof (cases "cks = []")
    case True
    then show ?thesis
      by (auto simp: get map_of_dict_extend fun_eq_iff)
  next
    case False
    then show ?thesis
      using Cons.IH [of "dict_extend k (ck_samples c ! i) d"] Cons.prems(1)
      by (auto simp: get map_of_dict_extend fun_eq_iff)
  qed
qed simp

lemma op_channels:
  assumes "distinct ps" and "m \<le> length ps" and "cks \<noteq> []" and "\<forall>c \<in> set cks. length ps \<le> length (ck_samples c)"
    and "\<forall>k \<in> set ps. map_of d k = None"
  shows "\<exists>d'. rfold (op_channel cks (Some ps)) [0..<m] d = Inr d' \<and>
    (\<forall>i < m. map_of d' (ps ! i) = Some (concat (map (\<lambda>c. ck_samples c ! i) cks))) \<and>
    (\<forall>k. k \<notin> (!) ps ` {..<m} \<longrightarrow> map_of d' k = map_of d k)"
  using assms(2)
proof (induction m)
  case (Suc m)
  then obtain d1 where d1: "rfold (op_channel cks (Some ps)) [0..<m] d = Inr d1"
    "\<forall>i < m. map_of d1 (ps ! i) = Some (concat (map (\<lambda>c. ck_samples c ! i) cks))"
    "\<forall>k. k \<notin> (!) ps ` {..<m} \<longrightarrow> map_of d1 k = map_of d k"
    by auto
  have new: "ps ! m \<notin> (!) ps ` {..<m}"
    using Suc.prems assms(1) by (auto simp: nth_eq_iff_index_eq)
  then have fresh: "map_of d1 (ps ! m) = None"
    using d1(3) assms(5) Suc.prems by simp
  obtain d2 where d2: "op_channel cks (Some ps) m d1 = Inr d2"
    "map_of d2 = (map_of d1)(ps ! m \<mapsto> concat (map (\<lambda>c. ck_samples c ! m) cks))"
    using extend_chunks [of cks m "ps ! m" d1] assms(3,4) Suc.prems fresh by (fastforce simp: op_channel_def)
  have "rfold (op_channel cks (Some ps)) [0..<Suc m] d = Inr d2"
    by (simp add: rfold_append d1(1) d2(1))
  moreover have "map_of d2 (ps ! i) = Some (concat (map (\<lambda>c. ck_samples c ! i) cks))" if "i < Suc m" for i
  proof (cases "i = m")
    case False
    with that have "i < m" by simp
    with new have "ps ! i \<noteq> ps ! m"
      by (metis image_eqI lessThan_iff)
    with \<open>i < m\<close> show ?thesis
      using d1(2) d2(2) by simp
  qed (use d2(2) in simp)
  moreover have "map_of d2 k = map_of d k" if "k \<notin> (!) ps ` {..<Suc m}" for k
    using that d1(3) d2(2) by (auto simp: lessThan_Suc)
  ultimately show ?case by blast
qed simp

type_synonym chunk_group = "(string \<times> nat) \<times> chunk_record list"

definition group_probes :: "chunk_group \<Rightarrow> nat list" where
  "group_probes g = (if snd (fst g) = 0 then the (ck_probe_indices (hd (snd g))) else [])"

definition group_ok :: "chunk_group \<Rightarrow> bool" where
  "group_ok g \<longleftrightarrow>
     (\<exists>p. path_parse redac_schema (\<lambda>_. None) (fst (fst g)) = Inr p) \<and> snd g \<noteq> [] \<and>
     (snd (fst g) = 0 \<longrightarrow>
        (\<exists>ps. ck_probe_indices (hd (snd g)) = Some ps \<and> distinct ps \<and> length ps = ck_channel_count (hd (snd g)) \<and>
           (\<forall>c \<in> set (snd g). length ps \<le> length (ck_samples c))))"

lemma op_group_ok:
  assumes "group_ok ((path, 0), cks)" and "set (group_probes ((path, 0), cks)) \<inter> dom (map_of d) = {}"
  shows "\<exists>d'. op_group cks d = Inr d' \<and>
    (\<forall>i < length (group_probes ((path, 0), cks)). map_of d' (group_probes ((path, 0), cks) ! i) = Some (concat (map (\<lambda>c. ck_samples c ! i) cks))) \<and>
    (\<forall>k. k \<notin> set (group_probes ((path, 0), cks)) \<longrightarrow> map_of d' k = map_of d k)"
proof -
  obtain r rest where r: "cks = r # rest"
    using assms(1) by (cases cks) (auto simp: group_ok_def)
  obtain ps where ps: "ck_probe_indices r = Some ps" "distinct ps" "length ps = ck_channel_count r"
    "\<forall>c \<in> set cks. length ps \<le> length (ck_samples c)"
    using assms(1) by (auto simp: group_ok_def r)
  have gp: "group_probes ((path, 0), cks) = ps"
    by (simp add: group_probes_def r ps(1))
  have "(!) ps ` {..<length ps} = set ps"
    by (auto simp: in_set_conv_nth)
  then show ?thesis
    using op_channels [OF ps(2) order_refl _ ps(4), of d] assms(2) unfolding gp
    by (auto simp: op_group_def r ps(1) ps(3) [symmetric] dom_def disjoint_iff)
qed

lemma rn_data_op_end [simp]: "rn_data (op_end_group clusters p cks r) = rn_data r"
proof -
  have "rn_data (fold (\<lambda>(b, out) r. if b * 8 + out < n
      then r\<lparr>rn_final := (rn_final r)(final_path p b out \<mapsto> f (b * 8 + out))\<rparr> else r) xs r) = rn_data r" for n f xs
    by (induction xs arbitrary: r) auto
  then show ?thesis
    by (simp add: op_end_group_def Let_def)
qed

lemma assemble_groups_ok:
  assumes "\<forall>g \<in> set gs. group_ok g" and "sorted_wrt (\<lambda>g h. set (group_probes g) \<inter> set (group_probes h) = {}) gs"
    and "\<forall>g \<in> set gs. set (group_probes g) \<inter> dom (map_of d) = {}"
  shows "\<exists>d' r'. assemble_groups clusters gs d r = (Inr d', r') \<and> rn_data r' = rn_data r \<and>
    (\<forall>g \<in> set gs. \<forall>i < length (group_probes g). map_of d' (group_probes g ! i) = Some (concat (map (\<lambda>c. ck_samples c ! i) (snd g)))) \<and>
    (\<forall>k. (\<forall>g \<in> set gs. k \<notin> set (group_probes g)) \<longrightarrow> map_of d' k = map_of d k)"
  using assms
proof (induction gs arbitrary: d r)
  case Nil
  then show ?case by (simp add: ret_def)
next
  case (Cons g gs)
  obtain path st cks where g: "g = ((path, st), cks)" by (metis surj_pair)
  obtain p where p: "path_parse redac_schema (\<lambda>_. None) path = Inr p"
    using Cons.prems(1) by (auto simp: g group_ok_def)
  obtain d1 where d1: "(if st = 0 then op_group cks d else Inr d) = Inr d1"
    "\<forall>i < length (group_probes g). map_of d1 (group_probes g ! i) = Some (concat (map (\<lambda>c. ck_samples c ! i) cks))"
    "\<forall>k. k \<notin> set (group_probes g) \<longrightarrow> map_of d1 k = map_of d k"
  proof (cases "st = 0")
    case True
    have "group_ok ((path, 0), cks)" "set (group_probes ((path, 0), cks)) \<inter> dom (map_of d) = {}"
      using Cons.prems(1,3) by (simp_all add: g True)
    from op_group_ok [OF this] show ?thesis
      using that by (auto simp: g True)
  next
    case False
    then have "group_probes g = []"
      by (simp add: g group_probes_def)
    with False show ?thesis
      by (intro that [of d]) simp_all
  qed
  define r1 where "r1 = (if st = 1 then op_end_group clusters p cks r else r)"
  have step: "assemble_groups clusters (g # gs) d r = assemble_groups clusters gs d1 r1"
    using d1(1) by (auto simp: g p r1_def sbind_def eval_st_def modify_def)
  have disj: "set (group_probes h) \<inter> set (group_probes g) = {}" if "h \<in> set gs" for h
    using Cons.prems(2) that by auto
  have "set (group_probes h) \<inter> dom (map_of d1) = {}" if "h \<in> set gs" for h
    using disj [OF that] d1(3) Cons.prems(3) that by (auto simp: disjoint_iff dom_def)
  moreover have "\<forall>g \<in> set gs. group_ok g" "sorted_wrt (\<lambda>g h. set (group_probes g) \<inter> set (group_probes h) = {}) gs"
    using Cons.prems(1,2) by simp_all
  ultimately obtain d' r' where IH: "assemble_groups clusters gs d1 r1 = (Inr d', r')" "rn_data r' = rn_data r1"
    "\<forall>h \<in> set gs. \<forall>i < length (group_probes h). map_of d' (group_probes h ! i) = Some (concat (map (\<lambda>c. ck_samples c ! i) (snd h)))"
    "\<forall>k. (\<forall>h \<in> set gs. k \<notin> set (group_probes h)) \<longrightarrow> map_of d' k = map_of d1 k"
    using Cons.IH [of d1 r1] by blast
  have "map_of d' (group_probes g ! i) = Some (concat (map (\<lambda>c. ck_samples c ! i) cks))" if "i < length (group_probes g)" for i
    using IH(4) d1(2) disj that by (metis disjoint_iff nth_mem)
  moreover have "rn_data r' = rn_data r"
    using IH(2) by (simp add: r1_def)
  ultimately show ?case
    using IH(1,3,4) d1(3) unfolding step
    by (intro exI [of _ d'] exI [of _ r'] conjI) (simp_all add: g)
qed

lemma chunk_groups_keys:
  "set (chunk_groups cks) = (\<lambda>c. (chunk_key c, sort_key ck_chunk_number (group_of (chunk_key c) cks))) ` set cks"
  "distinct (map fst (chunk_groups cks))"
  by (auto simp: chunk_groups_def comp_def image_image)

lemma set_group_of [simp]: "set (group_of k cks) = {c \<in> set cks. chunk_key c = k}"
  by (auto simp: group_of_def)

lemma group_probes_chunk:
  assumes "chunks_ok cks" and "c \<in> set cks" and "g = (chunk_key c, sort_key ck_chunk_number (group_of (chunk_key c) cks))"
  shows "group_ok g" and "group_probes g = (if ck_sample_type c = 0 then the (ck_probe_indices c) else [])"
proof -
  let ?s = "sort_key ck_chunk_number (group_of (chunk_key c) cks)"
  have "c \<in> set ?s"
    using assms(2) by simp
  then have ne: "?s \<noteq> []"
    by (metis empty_iff list.set(1))
  have hd: "hd ?s \<in> set cks" "chunk_key (hd ?s) = chunk_key c"
    using hd_in_set [OF ne] by simp_all
  have ty: "ck_sample_type c = 0 \<Longrightarrow> ck_probe_indices (hd ?s) = ck_probe_indices c \<and> ck_channel_count (hd ?s) = ck_channel_count c"
    using assms(1,2) hd unfolding chunks_ok_def by metis
  then show "group_probes g = (if ck_sample_type c = 0 then the (ck_probe_indices c) else [])"
    by (simp add: assms(3) group_probes_def chunk_key_def)
  have path: "\<exists>p. path_parse redac_schema (\<lambda>_. None) (ck_entity_path c) = Inr p"
    using assms(1,2) by (simp add: chunks_ok_def)
  have "\<exists>ps. ck_probe_indices (hd ?s) = Some ps \<and> distinct ps \<and> length ps = ck_channel_count (hd ?s) \<and>
      (\<forall>c' \<in> set ?s. length ps \<le> length (ck_samples c'))" if op: "ck_sample_type c = 0"
  proof -
    obtain ps where ps: "ck_probe_indices c = Some ps" "length ps = ck_channel_count c"
      using assms(1,2) op unfolding chunks_ok_def by blast
    have "distinct ps"
      using assms(1,2) op ps unfolding distinct_conv_nth chunks_ok_def probe_of_def by (metis option.sel)
    moreover have "length (ck_samples c') = length ps" if "c' \<in> set ?s" for c'
    proof -
      have "c' \<in> set cks" "chunk_key c' = chunk_key c" "ck_sample_type c' = 0"
        using that op by (auto simp: chunk_key_def)
      then show ?thesis
        using assms(1,2) ps(2) unfolding chunks_ok_def by metis
    qed
    ultimately show ?thesis
      using ty [OF op] ps by auto
  qed
  with path ne show "group_ok g"
    by (simp add: assms(3) group_ok_def) (simp add: chunk_key_def)
qed

lemma probes_length:
  assumes "chunks_ok cks" and "c \<in> set cks" and "ck_sample_type c = 0"
  shows "length (the (ck_probe_indices c)) = ck_channel_count c"
  using assms unfolding chunks_ok_def by (metis option.sel)

lemma group_probes_disjoint:
  assumes "chunks_ok cks"
  shows "sorted_wrt (\<lambda>g h. set (group_probes g) \<inter> set (group_probes h) = {}) (chunk_groups cks)"
  unfolding sorted_wrt_iff_nth_less
proof (intro allI impI)
  fix i j
  assume ij: "i < j" "j < length (chunk_groups cks)"
  let ?g = "chunk_groups cks ! i" and ?h = "chunk_groups cks ! j"
  have mem: "?g \<in> set (chunk_groups cks)" "?h \<in> set (chunk_groups cks)"
    using ij by simp_all
  have ne: "fst ?g \<noteq> fst ?h"
    using ij chunk_groups_keys(2) [of cks] by (auto simp: distinct_conv_nth)
  obtain c where c: "c \<in> set cks" "?g = (chunk_key c, sort_key ck_chunk_number (group_of (chunk_key c) cks))"
    using mem(1) by (auto simp: chunk_groups_keys(1))
  obtain c' where c': "c' \<in> set cks" "?h = (chunk_key c', sort_key ck_chunk_number (group_of (chunk_key c') cks))"
    using mem(2) by (auto simp: chunk_groups_keys(1))
  show "set (group_probes ?g) \<inter> set (group_probes ?h) = {}"
  proof (rule ccontr)
    assume "set (group_probes ?g) \<inter> set (group_probes ?h) \<noteq> {}"
    then obtain a b where ab: "a < length (group_probes ?g)" "b < length (group_probes ?h)" "group_probes ?g ! a = group_probes ?h ! b"
      by (metis disjoint_iff in_set_conv_nth)
    note gp = group_probes_chunk(2) [OF assms c] group_probes_chunk(2) [OF assms c']
    have op: "ck_sample_type c = 0" "ck_sample_type c' = 0"
      using ab gp by (auto split: if_splits)
    have "probe_of c a = probe_of c' b"
      using ab(3) gp op by (simp add: probe_of_def)
    moreover have "a < ck_channel_count c" "b < ck_channel_count c'"
      using ab(1,2) gp op probes_length [OF assms c(1)] probes_length [OF assms c'(1)] by simp_all
    ultimately have "ck_entity_path c = ck_entity_path c'"
      using assms c(1) c'(1) op unfolding chunks_ok_def by metis
    with op ne show False
      by (simp add: c(2) c'(2) chunk_key_def)
  qed
qed

definition op_place :: "chunk_record list \<Rightarrow> chunk_record \<Rightarrow> nat \<Rightarrow> bool" where
  "op_place cks c i \<longleftrightarrow> c \<in> set cks \<and> ck_sample_type c = 0 \<and> i < ck_channel_count c"

lemma assembled:
  assumes "chunks_ok cks"
  shows "\<exists>d r1. assemble_groups clusters (chunk_groups cks) [] r = (Inr d, r1) \<and> rn_data r1 = rn_data r \<and>
    (\<forall>c i. op_place cks c i \<longrightarrow> map_of d (probe_of c i) = Some (channel_series cks c i)) \<and>
    (\<forall>k. (\<nexists>c i. op_place cks c i \<and> k = probe_of c i) \<longrightarrow> map_of d k = None)"
proof -
  let ?g = "\<lambda>c. (chunk_key c, sort_key ck_chunk_number (group_of (chunk_key c) cks))"
  have gs: "set (chunk_groups cks) = ?g ` set cks"
    by (simp add: chunk_groups_keys(1))
  have probes: "group_probes (?g c) = (if ck_sample_type c = 0 then the (ck_probe_indices c) else [])"
    if "c \<in> set cks" for c
    using group_probes_chunk(2) [OF assms that refl] .
  note len = probes_length [OF assms]
  have "\<forall>g \<in> set (chunk_groups cks). group_ok g"
    using group_probes_chunk(1) [OF assms _ refl] by (auto simp: gs)
  from assemble_groups_ok [OF this group_probes_disjoint [OF assms], of "[]" clusters r]
  obtain d r1 where d: "assemble_groups clusters (chunk_groups cks) [] r = (Inr d, r1)" "rn_data r1 = rn_data r"
    "\<forall>g \<in> set (chunk_groups cks). \<forall>i < length (group_probes g). map_of d (group_probes g ! i) = Some (concat (map (\<lambda>c. ck_samples c ! i) (snd g)))"
    "\<forall>k. (\<forall>g \<in> set (chunk_groups cks). k \<notin> set (group_probes g)) \<longrightarrow> map_of d k = None"
    by auto
  have "map_of d (probe_of c i) = Some (channel_series cks c i)" if "op_place cks c i" for c i
  proof -
    have c: "c \<in> set cks" "ck_sample_type c = 0" "i < ck_channel_count c"
      using that by (simp_all add: op_place_def)
    then have "?g c \<in> set (chunk_groups cks)" "i < length (group_probes (?g c))" "group_probes (?g c) ! i = probe_of c i"
      using gs probes [OF c(1)] len [OF c(1,2)] by (simp_all add: probe_of_def)
    then show ?thesis
      using d(3) by (fastforce simp: channel_series_def)
  qed
  moreover have "map_of d k = None" if "\<nexists>c i. op_place cks c i \<and> k = probe_of c i" for k
  proof -
    have "k \<notin> set (group_probes (?g c))" if c: "c \<in> set cks" for c
    proof
      assume k: "k \<in> set (group_probes (?g c))"
      then have op: "ck_sample_type c = 0"
        using probes [OF c] by (auto split: if_splits)
      then obtain i where "i < ck_channel_count c" "k = probe_of c i"
        using k probes [OF c] len [OF c op] by (auto simp: in_set_conv_nth probe_of_def)
      then show False
        using \<open>\<nexists>c i. op_place cks c i \<and> k = probe_of c i\<close> c op by (auto simp: op_place_def)
    qed
    then show ?thesis
      using d(4) by (auto simp: gs)
  qed
  ultimately show ?thesis
    using d(1,2) by blast
qed

lemma data_list_cong:
  assumes "map_of d = map_of d'"
  shows "data_list d = data_list d'" and "d = [] \<longleftrightarrow> d' = []"
proof -
  have "fst ` set d = fst ` set d'"
    using assms by (metis dom_map_of_conv_image_fst)
  then show "data_list d = data_list d'" and "d = [] \<longleftrightarrow> d' = []"
    using assms by (auto simp: data_list_def)
qed

text \<open>
  C26. Assembly puts every sample where it belongs. For chunks as the data channel delivers them,
  \<open>run.data\<close> is indexed by probe: at the probe index of a channel it holds the samples of that channel
  in the order of the chunk numbers, whatever the order of arrival; at every other index it holds
  \<open>None\<close>.
\<close>

theorem assemble_content:
  assumes "chunks_ok cks" and "op_place cks c0 i0"
  shows "\<exists>r'. assemble_run_data clusters cks r = (Inr (), r') \<and>
    (\<forall>c i. op_place cks c i \<longrightarrow>
       probe_of c i < length (rn_data r') \<and> rn_data r' ! probe_of c i = Some (channel_series cks c i)) \<and>
    (\<forall>k < length (rn_data r'). (\<nexists>c i. op_place cks c i \<and> k = probe_of c i) \<longrightarrow> rn_data r' ! k = None)"
proof -
  obtain d r1 where d: "assemble_groups clusters (chunk_groups cks) [] r = (Inr d, r1)"
    "\<forall>c i. op_place cks c i \<longrightarrow> map_of d (probe_of c i) = Some (channel_series cks c i)"
    "\<forall>k. (\<nexists>c i. op_place cks c i \<and> k = probe_of c i) \<longrightarrow> map_of d k = None"
    using assembled [OF assms(1)] by blast
  have ne: "cks \<noteq> []"
    using assms(2) by (auto simp: op_place_def)
  have ned: "d \<noteq> []"
    using d(2) assms(2) by fastforce
  have bound: "probe_of c i \<le> Max (fst ` set d)" if "op_place cks c i" for c i
    using d(2) that by (intro Max_ge) (force dest: map_of_SomeD)+
  have "assemble_run_data clusters cks r = (Inr (), r1\<lparr>rn_data := data_list d\<rparr>)"
    using ne ned d(1) by (simp add: assemble_run_data_def sbind_def modify_def)
  moreover have "probe_of c i < length (data_list d) \<and> data_list d ! probe_of c i = Some (channel_series cks c i)" if "op_place cks c i" for c i
    using bound [OF that] d(2) that by (simp add: data_list_def less_Suc_eq_le del: upt_Suc)
  moreover have "data_list d ! k = None" if "k < length (data_list d)" "\<nexists>c i. op_place cks c i \<and> k = probe_of c i" for k
    using that d(3) by (simp add: data_list_def del: upt_Suc)
  ultimately show ?thesis by fastforce
qed

lemma channel_series_mset:
  assumes "chunks_ok cks" and "mset cks = mset cks'"
  shows "channel_series cks c i = channel_series cks' c i"
proof -
  let ?g = "group_of (chunk_key c) cks"
  have "mset ?g = mset (group_of (chunk_key c) cks')"
    using assms(2) by (simp add: group_of_def mset_filter)
  moreover have "inj_on ck_chunk_number (set ?g)"
    using assms(1) by (auto simp: chunks_ok_def distinct_map inj_on_def)
  ultimately have "sort_key ck_chunk_number ?g = sort_key ck_chunk_number (group_of (chunk_key c) cks')"
    by (intro sort_key_inj_key_eq) simp_all
  then show ?thesis
    by (simp add: channel_series_def)
qed

text \<open>
  For well-formed chunks the assembled data does not depend on the order in which they arrived.
\<close>

theorem assemble_order_independent:
  assumes "chunks_ok cks" and "chunks_ok cks'" and "mset cks = mset cks'"
  shows "rn_data (snd (assemble_run_data clusters cks r)) = rn_data (snd (assemble_run_data clusters cks' r))"
proof -
  obtain d r1 where d: "assemble_groups clusters (chunk_groups cks) [] r = (Inr d, r1)" "rn_data r1 = rn_data r"
    "\<forall>c i. op_place cks c i \<longrightarrow> map_of d (probe_of c i) = Some (channel_series cks c i)"
    "\<forall>k. (\<nexists>c i. op_place cks c i \<and> k = probe_of c i) \<longrightarrow> map_of d k = None"
    using assembled [OF assms(1)] by blast
  obtain d' r2 where d': "assemble_groups clusters (chunk_groups cks') [] r = (Inr d', r2)" "rn_data r2 = rn_data r"
    "\<forall>c i. op_place cks' c i \<longrightarrow> map_of d' (probe_of c i) = Some (channel_series cks' c i)"
    "\<forall>k. (\<nexists>c i. op_place cks' c i \<and> k = probe_of c i) \<longrightarrow> map_of d' k = None"
    using assembled [OF assms(2)] by blast
  have place: "op_place cks' c i = op_place cks c i" for c i
    using assms(3) by (auto simp: op_place_def dest: mset_eq_setD)
  have "map_of d k = map_of d' k" for k
  proof (cases "\<exists>c i. op_place cks c i \<and> k = probe_of c i")
    case True
    then show ?thesis
      using d(3) d'(3) place channel_series_mset [OF assms(1,3)] by auto
  qed (use d(4) d'(4) place in auto)
  then have "data_list d = data_list d'" "d = [] \<longleftrightarrow> d' = []"
    by (simp_all add: data_list_cong [of d d'] fun_eq_iff)
  moreover have "cks = [] \<longleftrightarrow> cks' = []"
    using assms(3) by auto
  ultimately show ?thesis
    using d(1,2) d'(1,2) by (auto simp: assemble_run_data_def sbind_def modify_def ret_def)
qed

definition demo_chunk :: "nat \<Rightarrow> sample list list \<Rightarrow> chunk_record" where
  "demo_chunk n xs = \<lparr>ck_chunk_number = n, ck_entity_path = demo_blob_path, ck_sample_type = 0, ck_channel_count = 2,
     ck_samples = xs, ck_probe_indices = Some [3, 0]\<rparr>"

abbreviation demo_c1 :: chunk_record where
  "demo_c1 \<equiv> demo_chunk 1 [[10, 11], [20, 21]]"

abbreviation demo_c2 :: chunk_record where
  "demo_c2 \<equiv> demo_chunk 2 [[12], [22]]"

lemma demo_path_parses: "path_parse redac_schema (\<lambda>_. None) demo_blob_path = Inr [PS demo_blob_path]"
  by code_simp

lemma demo_chunks_ok: "chunks_ok [demo_c2, demo_c1]" "chunks_ok [demo_c1, demo_c2]"
  by (auto simp: chunks_ok_def demo_chunk_def demo_path_parses probe_of_def less_Suc_eq numeral_eq_Suc)

theorem assemble_content_witness:
  "\<exists>r'. assemble_run_data (\<lambda>_. None) [demo_c2, demo_c1] \<lparr>rn_data = [], rn_final = (\<lambda>_. None)\<rparr> = (Inr (), r') \<and>
    (\<forall>c i. op_place [demo_c2, demo_c1] c i \<longrightarrow>
       probe_of c i < length (rn_data r') \<and> rn_data r' ! probe_of c i = Some (channel_series [demo_c2, demo_c1] c i)) \<and>
    (\<forall>k < length (rn_data r'). (\<nexists>c i. op_place [demo_c2, demo_c1] c i \<and> k = probe_of c i) \<longrightarrow> rn_data r' ! k = None)"
  by (rule assemble_content [OF demo_chunks_ok(1), of demo_c1 1]) (simp add: op_place_def demo_chunk_def)

theorem assemble_order_independent_witness:
  "rn_data (snd (assemble_run_data (\<lambda>_. None) [demo_c2, demo_c1] \<lparr>rn_data = [], rn_final = (\<lambda>_. None)\<rparr>)) =
   rn_data (snd (assemble_run_data (\<lambda>_. None) [demo_c1, demo_c2] \<lparr>rn_data = [], rn_final = (\<lambda>_. None)\<rparr>))"
  by (rule assemble_order_independent [OF demo_chunks_ok]) simp

end
