(* ===== verification/Firmware.thy ===== *)
theory Firmware
  imports Samples "HOL-Library.While_Combinator"
begin

unbundle bit_operations_syntax

text \<open>
  Firmware images: the converter of Intel HEX files (util/updater.py).

  The converter is a \<open>while\<close> loop over an index into the file, with early returns and an exception
  handler around it; it is modelled by \<open>while_option\<close>, so that not ending is the value \<open>None\<close>. One turn
  of the loop is \<open>hex_step\<close>; \<open>hx_out\<close> holds the value of a \<open>return\<close>. The buffer of 256 bytes survives from
  record to record, as in the code. The reader of files and SHA-256 are parameters.

  The reference is the meaning of a list of records as writes to a flash memory, \<open>flash_image\<close>.
\<close>

section \<open>Decoding\<close>

definition FW_BASE_ADDR :: nat where
  "FW_BASE_ADDR = 0x60000000"

definition HEX_WHITESPACE :: "byte set" where
  "HEX_WHITESPACE = {0x20, 0x09, 0x0A, 0x0B, 0x0C, 0x0D}"

definition decode_nibble :: "byte \<Rightarrow> nat res" where
  "decode_nibble b =
     (let v = unat b in
      if 0x30 \<le> v \<and> v \<le> 0x39 then Inr (v - 0x30)
      else if 0x41 \<le> v \<and> v \<le> 0x46 then Inr (v - 0x41 + 10)
      else if 0x61 \<le> v \<and> v \<le> 0x66 then Inr (v - 0x61 + 10)
      else Inl ValueError)"

definition decode_8 :: "byte list \<Rightarrow> nat \<Rightarrow> (nat \<times> nat) res" where
  "decode_8 h i =
     rbind (rbind (py_get h (int i)) decode_nibble) (\<lambda>hi.
     rbind (rbind (py_get h (int (i + 1))) decode_nibble) (\<lambda>lo.
     Inr (push_bit 4 hi + lo, i + 2)))"

definition decode_16 :: "byte list \<Rightarrow> nat \<Rightarrow> (nat \<times> nat) res" where
  "decode_16 h i =
     rbind (decode_8 h i) (\<lambda>(hi, i).
     rbind (decode_8 h i) (\<lambda>(lo, i).
     Inr (push_bit 8 hi + lo, i)))"

text \<open>\<open>for buf_idx in range(bytes_count): buffer[buf_idx], idx = decode_8(idx)\<close>.\<close>

fun fill_buffer :: "byte list \<Rightarrow> nat \<Rightarrow> nat \<Rightarrow> nat \<Rightarrow> byte list \<Rightarrow> (byte list \<times> nat) res" where
  "fill_buffer h 0 buf_idx i buffer = Inr (buffer, i)"
| "fill_buffer h (Suc n) buf_idx i buffer =
     rbind (decode_8 h i) (\<lambda>(b, i).
     rbind (py_set buffer (int buf_idx) (word_of_nat b)) (\<lambda>buffer.
     fill_buffer h n (Suc buf_idx) i buffer))"

record hex_state =
  hx_idx :: nat
  hx_buffer :: "byte list"
  hx_current :: nat
  hx_result :: "byte list"
  hx_out :: "byte list option"

definition hex_init :: hex_state where
  "hex_init = \<lparr>hx_idx = 0, hx_buffer = replicate 256 0, hx_current = 0, hx_result = [], hx_out = None\<rparr>"

text \<open>\<open>result[full_addr:end] = buffer[:bytes_count]\<close>, after the result was extended with zeros.\<close>

definition write_image :: "nat \<Rightarrow> byte list \<Rightarrow> byte list \<Rightarrow> byte list" where
  "write_image full_addr bs result =
     (let e = full_addr + length bs;
          r = (if e > length result then result @ replicate (e - length result) 0 else result)
      in take full_addr r @ bs @ drop e r)"

text \<open>What a record that was read completely does: the checksum, then the kind of the record.\<close>

definition hex_apply :: "nat \<Rightarrow> nat \<Rightarrow> nat \<Rightarrow> nat \<Rightarrow> hex_state \<Rightarrow> hex_state" where
  "hex_apply bytes_count addr kind checksum s =
     (let buffer = hx_buffer s;
          record_sum = bytes_count + drop_bit 8 addr + (addr AND 0xFF) + kind
            + sum_list (map unat (take bytes_count buffer)) + checksum
      in if record_sum AND 0xFF \<noteq> 0 then s\<lparr>hx_out := Some []\<rparr>
         else if kind = 0x01 then s\<lparr>hx_out := Some (hx_result s)\<rparr>
         else if kind = 0x04 then s\<lparr>hx_current := push_bit 16 (push_bit 8 (unat (buffer ! 0)) OR unat (buffer ! 1))\<rparr>
         else if kind = 0x00 then
           if hx_current s < FW_BASE_ADDR then s\<lparr>hx_out := Some []\<rparr>
           else s\<lparr>hx_result := write_image (hx_current s + addr - FW_BASE_ADDR) (take bytes_count buffer) (hx_result s)\<rparr>
         else if kind = 0x05 then s
         else s\<lparr>hx_out := Some []\<rparr>)"

definition hex_record_step :: "byte list \<Rightarrow> hex_state \<Rightarrow> hex_state res" where
  "hex_record_step h s =
     rbind (decode_8 h (hx_idx s)) (\<lambda>(bytes_count, idx).
     rbind (decode_16 h idx) (\<lambda>(addr, idx).
     rbind (decode_8 h idx) (\<lambda>(kind, idx).
     rbind (fill_buffer h bytes_count 0 idx (hx_buffer s)) (\<lambda>(buffer, idx).
     rbind (decode_8 h idx) (\<lambda>(checksum, idx).
     Inr (hex_apply bytes_count addr kind checksum (s\<lparr>hx_idx := idx, hx_buffer := buffer\<rparr>)))))))"

definition hex_step :: "byte list \<Rightarrow> hex_state \<Rightarrow> hex_state" where
  "hex_step h s =
     (let colon = h ! hx_idx s; s = s\<lparr>hx_idx := hx_idx s + 1\<rparr> in
      if colon \<in> HEX_WHITESPACE then s
      else if colon \<noteq> 0x3A then s\<lparr>hx_out := Some []\<rparr>
      else case hex_record_step h s of
          Inl _ \<Rightarrow> s\<lparr>hx_out := Some []\<rparr>
        | Inr s \<Rightarrow> s)"

definition hex_loop :: "byte list \<Rightarrow> hex_state \<Rightarrow> hex_state option" where
  "hex_loop h = while_option (\<lambda>s. hx_out s = None \<and> hx_idx s < length h) (hex_step h)"

definition hex2bin :: "byte list \<Rightarrow> byte list option" where
  "hex2bin h = map_option (\<lambda>s. case hx_out s of Some r \<Rightarrow> r | None \<Rightarrow> []) (hex_loop h hex_init)"

text \<open>\<open>read_to_bin\<close>: \<open>files\<close> gives the contents of the files that exist.\<close>

definition read_to_bin :: "(string \<Rightarrow> byte list option) \<Rightarrow> (byte list \<Rightarrow> byte list) \<Rightarrow> string \<Rightarrow> (byte list \<times> byte list) res option" where
  "read_to_bin files sha256 filename =
     (case files filename of
        None \<Rightarrow> Some (Inl PlainException)
      | Some h \<Rightarrow> map_option (\<lambda>b. if b = [] then Inl PlainException else Inr (b, sha256 b)) (hex2bin h))"

section \<open>Termination\<close>

lemma decode_8_progress: "decode_8 h i = Inr (v, j) \<Longrightarrow> j = i + 2 \<and> j \<le> length h"
  by (auto simp: decode_8_def rbind_eq_Inr_iff py_get_eq_Inr_iff py_idx_def split: if_splits)

lemma decode_16_progress: "decode_16 h i = Inr (v, j) \<Longrightarrow> j = i + 4 \<and> j \<le> length h"
  by (auto simp: decode_16_def rbind_eq_Inr_iff dest!: decode_8_progress)

lemma fill_buffer_progress: "fill_buffer h n k i b = Inr (b', j) \<Longrightarrow> j = i + 2 * n"
proof (induction n arbitrary: k i b)
  case (Suc n)
  then obtain v i' b'' where "decode_8 h i = Inr (v, i')" "fill_buffer h n (Suc k) i' b'' = Inr (b', j)"
    by (auto simp: rbind_eq_Inr_iff)
  with Suc.IH [of "Suc k" i' b''] show ?case by (auto dest!: decode_8_progress)
qed simp

lemma hex_apply_idx [simp]: "hx_idx (hex_apply n a k c s) = hx_idx s"
  by (simp add: hex_apply_def Let_def)

lemma hex_record_progress: "hex_record_step h s = Inr s' \<Longrightarrow> hx_idx s' \<ge> hx_idx s + 10 \<and> hx_idx s' \<le> length h"
  by (auto simp: hex_record_step_def rbind_eq_Inr_iff
      dest!: decode_8_progress decode_16_progress fill_buffer_progress)

lemma hex_step_progress: "hx_idx (hex_step h s) > hx_idx s"
  by (auto simp: hex_step_def Let_def dest!: hex_record_progress split: sum.splits)

lemma hex_loop_ends: "\<exists>s'. hex_loop h s = Some s'"
  unfolding hex_loop_def
proof (rule measure_while_option_Some [of "\<lambda>_. True" _ _ "\<lambda>s. length h - hx_idx s"])
  fix s :: hex_state
  assume "hx_out s = None \<and> hx_idx s < length h"
  then show "True \<and> length h - hx_idx (hex_step h s) < length h - hx_idx s"
    using hex_step_progress [of s h] by (simp add: diff_less_mono2)
qed simp

text \<open>
  C19. The converter ends on every file: each turn of its loop moves the index forward, by one byte of
  white space or by a record of at least eleven characters.
\<close>

theorem hex2bin_ends: "\<exists>b. hex2bin h = Some b"
  using hex_loop_ends by (auto simp: hex2bin_def)

section \<open>Intel HEX files\<close>

text \<open>The records of a firmware file, and how they are written: in either case of the hex digits.\<close>

datatype hex_record = HexData nat "byte list" | HexExtLin nat | HexStart "byte list" | HexEof

fun hex_kind :: "hex_record \<Rightarrow> nat" where
  "hex_kind (HexData a bs) = 0"
| "hex_kind HexEof = 1"
| "hex_kind (HexExtLin hi) = 4"
| "hex_kind (HexStart bs) = 5"

fun hex_addr :: "hex_record \<Rightarrow> nat" where
  "hex_addr (HexData a bs) = a"
| "hex_addr _ = 0"

fun hex_payload :: "hex_record \<Rightarrow> byte list" where
  "hex_payload (HexData a bs) = bs"
| "hex_payload HexEof = []"
| "hex_payload (HexExtLin hi) = [word_of_nat (hi div 256), word_of_nat hi]"
| "hex_payload (HexStart bs) = bs"

definition hex_digit :: "bool \<Rightarrow> nat \<Rightarrow> byte" where
  "hex_digit upper n = word_of_nat (if n < 10 then 0x30 + n else if upper then 0x41 + (n - 10) else 0x61 + (n - 10))"

definition hex_byte :: "bool \<Rightarrow> byte \<Rightarrow> byte list" where
  "hex_byte upper b = [hex_digit upper (unat b div 16), hex_digit upper (unat b mod 16)]"

definition hex_fields :: "hex_record \<Rightarrow> byte list" where
  "hex_fields r =
     [word_of_nat (length (hex_payload r)), word_of_nat (hex_addr r div 256), word_of_nat (hex_addr r),
      word_of_nat (hex_kind r)] @ hex_payload r"

definition hex_line_with :: "byte \<Rightarrow> bool \<Rightarrow> hex_record \<Rightarrow> byte list" where
  "hex_line_with c upper r = 0x3A # concat (map (hex_byte upper) (hex_fields r @ [c]))"

definition hex_line :: "bool \<Rightarrow> hex_record \<Rightarrow> byte list" where
  "hex_line upper r = hex_line_with (- sum_list (hex_fields r)) upper r"

lemma decode_hex_digit: "n < 16 \<Longrightarrow> decode_nibble (hex_digit upper n) = Inr n"
  by (auto simp: hex_digit_def decode_nibble_def unat_of_nat Let_def)

lemma drop_Cons_nth: "drop i h = x # xs \<Longrightarrow> i < length h \<and> h ! i = x \<and> drop (Suc i) h = xs"
  by (metis Cons_nth_drop_Suc drop_eq_Nil leI list.distinct(1) list.sel(1,3))

lemma decode_8_hex_byte:
  assumes "drop i h = hex_byte upper b @ rest"
  shows "decode_8 h i = Inr (unat b, i + 2) \<and> drop (i + 2) h = rest"
proof -
  have b: "unat b < 256" using unsigned_less [of b, where 'a = nat] by simp
  have d: "drop i h = hex_digit upper (unat b div 16) # hex_digit upper (unat b mod 16) # rest"
    using assms by (simp add: hex_byte_def)
  note d1 = drop_Cons_nth [OF d]
  note d2 = drop_Cons_nth [OF conjunct2 [OF conjunct2 [OF d1]]]
  have "py_get h (int (i + 1)) = Inr (h ! Suc i)" "py_get h (int i) = Inr (h ! i)"
    using d1 d2 py_get_int [of "Suc i" h] by simp_all
  then show ?thesis
    using d1 d2 b by (simp add: decode_8_def decode_hex_digit push_bit_eq_mult)
qed

lemma decode_16_hex_bytes:
  assumes "drop i h = hex_byte upper b @ hex_byte upper c @ rest"
  shows "decode_16 h i = Inr (unat b * 256 + unat c, i + 4) \<and> drop (i + 4) h = rest"
  using decode_8_hex_byte [OF assms] decode_8_hex_byte [of "i + 2" h upper c rest]
  by (simp add: decode_16_def push_bit_eq_mult eval_nat_numeral)

lemma fill_buffer_hex_bytes:
  assumes "drop i h = concat (map (hex_byte upper) bs) @ rest" and "k + length bs \<le> length buf"
  shows "fill_buffer h (length bs) k i buf = Inr (take k buf @ bs @ drop (k + length bs) buf, i + 2 * length bs) \<and>
    drop (i + 2 * length bs) h = rest"
  using assms
proof (induction bs arbitrary: i k buf)
  case (Cons b bs)
  note d = decode_8_hex_byte [of i h upper b "concat (map (hex_byte upper) bs) @ rest"]
  have k: "k < length buf" using Cons.prems(2) by simp
  have "fill_buffer h (length bs) (Suc k) (i + 2) (buf[k := b]) =
      Inr (take (Suc k) (buf[k := b]) @ bs @ drop (Suc k + length bs) (buf[k := b]), i + 2 + 2 * length bs) \<and>
    drop (i + 2 + 2 * length bs) h = rest"
    using d Cons.prems by (intro Cons.IH) simp_all
  moreover have "take (Suc k) (buf[k := b]) = take k buf @ [b]"
    using k by (simp add: take_Suc_conv_app_nth)
  ultimately show ?case
    using d Cons.prems k by (simp add: algebra_simps)
qed simp

text \<open>Memory after a list of records: the segment address, the end of the image and the bytes.\<close>

fun flash_record :: "hex_record \<Rightarrow> nat \<times> nat \<times> (nat \<Rightarrow> byte) \<Rightarrow> nat \<times> nat \<times> (nat \<Rightarrow> byte)" where
  "flash_record (HexData a bs) (cur, hi_end, mem) =
     (let base = cur + a - FW_BASE_ADDR in
      (cur, max hi_end (base + length bs), \<lambda>i. if base \<le> i \<and> i < base + length bs then bs ! (i - base) else mem i))"
| "flash_record (HexExtLin hi) (cur, hi_end, mem) = (hi * 65536, hi_end, mem)"
| "flash_record (HexStart bs) m = m"
| "flash_record HexEof m = m"

definition flash_image :: "hex_record list \<Rightarrow> byte list" where
  "flash_image rs = (case fold flash_record rs (0, 0, \<lambda>_. 0) of (cur, hi_end, mem) \<Rightarrow> map mem [0..<hi_end])"

fun records_ok :: "nat \<Rightarrow> hex_record list \<Rightarrow> bool" where
  "records_ok cur [] \<longleftrightarrow> True"
| "records_ok cur (HexData a bs # rs) \<longleftrightarrow> FW_BASE_ADDR \<le> cur \<and> a < 65536 \<and> length bs < 256 \<and> records_ok cur rs"
| "records_ok cur (HexExtLin hi # rs) \<longleftrightarrow> hi < 65536 \<and> records_ok (hi * 65536) rs"
| "records_ok cur (HexStart bs # rs) \<longleftrightarrow> length bs < 256 \<and> records_ok cur rs"
| "records_ok cur (HexEof # rs) \<longleftrightarrow> False"

lemma write_image_map:
  "write_image a bs (map mem [0..<hi_end]) =
     map (\<lambda>i. if a \<le> i \<and> i < a + length bs then bs ! (i - a) else if i < hi_end then mem i else 0) [0..<max hi_end (a + length bs)]"
  by (rule nth_equalityI) (auto simp: write_image_def Let_def nth_append max_def)

lemma and_255: "(x :: nat) AND 255 = x mod 256"
proof -
  have "x AND mask 8 = x mod 2 ^ 8"
    by (simp only: take_bit_eq_mask [symmetric] take_bit_eq_mod)
  then show ?thesis by (simp add: mask_eq_exp_minus_1)
qed

lemma of_nat_sum_bytes: "(word_of_nat (sum_list (map unat bs)) :: byte) = sum_list bs"
  by (induction bs) simp_all

lemma unat_lt_256: "unat (b :: byte) < 256"
  using unsigned_less [of b, where 'a = nat] by simp

lemma hex_checksum:
  fixes bs :: "byte list" and c :: byte
  shows "(n + drop_bit 8 a + (a AND 0xFF) + k + sum_list (map unat bs) + unat c) AND 0xFF = 0 \<longleftrightarrow>
    c = - sum_list ([word_of_nat n, word_of_nat (a div 256), word_of_nat a, word_of_nat k] @ bs)"
    (is "?s AND 0xFF = 0 \<longleftrightarrow> c = - ?w")
proof -
  have "(word_of_nat (a AND 0xFF) :: byte) = word_of_nat a"
    unfolding and_255 by (simp add: word_of_nat_eq_iff take_bit_eq_mod)
  then have "(word_of_nat ?s :: byte) = c + ?w"
    by (simp add: of_nat_sum_bytes drop_bit_eq_div)
  then have "256 dvd ?s \<longleftrightarrow> c + ?w = 0"
    by (subst (asm) eq_commute) (simp add: word_of_nat_eq_0_iff del: of_nat_add)
  then show ?thesis
    by (simp only: and_255 mod_eq_0_iff_dvd eq_neg_iff_add_eq_0)
qed

text \<open>The fields of a record as they are read back.\<close>

definition record_fits :: "hex_record \<Rightarrow> bool" where
  "record_fits r \<longleftrightarrow> length (hex_payload r) < 256 \<and> hex_addr r < 65536"

lemma hex_record_line:
  assumes "drop (hx_idx s) h = concat (map (hex_byte upper) (hex_fields r @ [c])) @ rest"
    and "record_fits r" and "length (hx_buffer s) = 256"
  shows "hex_record_step h s = Inr (hex_apply (length (hex_payload r)) (hex_addr r) (hex_kind r) (unat c)
      (s\<lparr>hx_idx := hx_idx s + 10 + 2 * length (hex_payload r),
         hx_buffer := hex_payload r @ drop (length (hex_payload r)) (hx_buffer s)\<rparr>)) \<and>
    drop (hx_idx s + 10 + 2 * length (hex_payload r)) h = rest"
proof -
  let ?n = "length (hex_payload r)" and ?a = "hex_addr r" and ?k = "hex_kind r" and ?i = "hx_idx s"
  let ?data = "concat (map (hex_byte upper) (hex_payload r))"
  have k: "?k < 256" by (cases r) simp_all
  have n: "?n < 256" and a: "?a < 65536" using assms(2) by (simp_all add: record_fits_def)
  have ua: "unat (word_of_nat (?a div 256) :: byte) * 256 + unat (word_of_nat ?a :: byte) = ?a"
    using a by (simp add: unat_of_nat)
  have 1: "decode_8 h ?i = Inr (?n, ?i + 2) \<and> drop (?i + 2) h =
      hex_byte upper (word_of_nat (?a div 256)) @ hex_byte upper (word_of_nat ?a) @ hex_byte upper (word_of_nat ?k) @ ?data @ hex_byte upper c @ rest"
    using decode_8_hex_byte [of ?i h upper "word_of_nat ?n"] assms(1) n by (simp add: hex_fields_def unat_of_nat)
  have 2: "decode_16 h (?i + 2) = Inr (?a, ?i + 2 + 4) \<and> drop (?i + 2 + 4) h = hex_byte upper (word_of_nat ?k) @ ?data @ hex_byte upper c @ rest"
    using decode_16_hex_bytes [OF conjunct2 [OF 1]] unfolding ua .
  have 3: "decode_8 h (?i + 2 + 4) = Inr (?k, ?i + 2 + 4 + 2) \<and> drop (?i + 2 + 4 + 2) h = ?data @ hex_byte upper c @ rest"
    using decode_8_hex_byte [OF conjunct2 [OF 2]] k by (simp add: unat_of_nat)
  have 4: "fill_buffer h ?n 0 (?i + 2 + 4 + 2) (hx_buffer s) =
      Inr (hex_payload r @ drop ?n (hx_buffer s), ?i + 2 + 4 + 2 + 2 * ?n) \<and>
      drop (?i + 2 + 4 + 2 + 2 * ?n) h = hex_byte upper c @ rest"
    using fill_buffer_hex_bytes [OF conjunct2 [OF 3], of 0 "hx_buffer s"] n assms(3) by simp
  have 5: "decode_8 h (?i + 2 + 4 + 2 + 2 * ?n) = Inr (unat c, ?i + 2 + 4 + 2 + 2 * ?n + 2) \<and>
      drop (?i + 2 + 4 + 2 + 2 * ?n + 2) h = rest"
    using decode_8_hex_byte [OF conjunct2 [OF 4]] .
  have e: "?i + 2 + 4 + 2 + 2 * ?n + 2 = ?i + 10 + 2 * ?n" by simp
  show ?thesis
    unfolding hex_record_step_def e [symmetric]
    by (simp only: 1 2 3 4 5 rbind_simps prod.case simp_thms)
qed

section \<open>Meaning of a file\<close>

lemma or_bytes:
  fixes x y :: nat
  assumes "y < 256"
  shows "push_bit 8 x OR y = x * 256 + y"
proof -
  have "take_bit 8 y = y" using assms by (simp add: take_bit_nat_eq_self)
  then have "\<not> bit (push_bit 8 x) n \<or> \<not> bit y n" for n
    by (metis bit_push_bit_iff bit_take_bit_iff not_less)
  from disjunctive_add [OF this] show ?thesis by (simp add: push_bit_eq_mult)
qed

lemma hex_apply_record:
  assumes "hx_buffer s = hex_payload r @ buf"
  shows "hex_apply (length (hex_payload r)) (hex_addr r) (hex_kind r) (unat (- sum_list (hex_fields r))) s =
    (case r of
       HexData a bs \<Rightarrow>
         if hx_current s < FW_BASE_ADDR then s\<lparr>hx_out := Some []\<rparr>
         else s\<lparr>hx_result := write_image (hx_current s + a - FW_BASE_ADDR) bs (hx_result s)\<rparr>
     | HexExtLin hi \<Rightarrow> s\<lparr>hx_current := (hi mod 65536) * 65536\<rparr>
     | HexStart bs \<Rightarrow> s
     | HexEof \<Rightarrow> s\<lparr>hx_out := Some (hx_result s)\<rparr>)"
proof -
  have sum: "(length (hex_payload r) + drop_bit 8 (hex_addr r) + (hex_addr r AND 0xFF) + hex_kind r
      + sum_list (map unat (take (length (hex_payload r)) (hx_buffer s))) + unat (- sum_list (hex_fields r))) AND 0xFF = 0"
    unfolding hex_checksum by (simp add: assms hex_fields_def)
  have lin: "push_bit 16 (push_bit 8 (unat (word_of_nat (hi div 256) :: byte)) OR unat (word_of_nat hi :: byte)) = hi mod 65536 * 65536" for hi
  proof -
    have "hi div 256 mod 256 * 256 + hi mod 256 = hi mod 65536"
      using mod_mult2_eq [of hi 256 256] by simp
    then show ?thesis
      by (subst or_bytes) (simp_all add: unat_of_nat push_bit_eq_mult)
  qed
  show ?thesis
    unfolding hex_apply_def Let_def sum using assms lin
    by (cases r) (simp_all add: hex_record.case)
qed

lemma hex_loop_step: "hx_out s = None \<Longrightarrow> hx_idx s < length h \<Longrightarrow> hex_loop h s = hex_loop h (hex_step h s)"
  unfolding hex_loop_def by (subst while_option_unfold) simp

lemma hex_loop_stop: "hx_out s \<noteq> None \<or> length h \<le> hx_idx s \<Longrightarrow> hex_loop h s = Some s"
  unfolding hex_loop_def by (subst while_option_unfold) auto

lemma hex_loop_space:
  assumes "drop (hx_idx s) h = ws @ rest" and "set ws \<subseteq> HEX_WHITESPACE" and "hx_out s = None"
  shows "hex_loop h s = hex_loop h (s\<lparr>hx_idx := hx_idx s + length ws\<rparr>) \<and> drop (hx_idx s + length ws) h = rest"
  using assms
proof (induction ws arbitrary: s)
  case (Cons w ws)
  then have d: "hx_idx s < length h" "h ! hx_idx s = w" "drop (Suc (hx_idx s)) h = ws @ rest"
    using drop_Cons_nth [of "hx_idx s" h w "ws @ rest"] by simp_all
  have "hex_step h s = s\<lparr>hx_idx := Suc (hx_idx s)\<rparr>"
    using d Cons.prems(2) by (simp add: hex_step_def)
  then show ?case
    using Cons.IH [of "s\<lparr>hx_idx := Suc (hx_idx s)\<rparr>"] Cons.prems(2,3) d hex_loop_step [of s h] by simp
qed simp

lemma hex_loop_line:
  assumes "drop (hx_idx s) h = hex_line_with c upper r @ rest" and "record_fits r"
    and "length (hx_buffer s) = 256" and "hx_out s = None"
  shows "\<exists>s1. hex_loop h s = hex_loop h (hex_apply (length (hex_payload r)) (hex_addr r) (hex_kind r) (unat c) s1) \<and>
    drop (hx_idx s1) h = rest \<and> s1 = s\<lparr>hx_idx := hx_idx s1, hx_buffer := hex_payload r @ drop (length (hex_payload r)) (hx_buffer s)\<rparr>"
proof -
  have d: "hx_idx s < length h" "h ! hx_idx s = 0x3A"
      "drop (Suc (hx_idx s)) h = concat (map (hex_byte upper) (hex_fields r @ [c])) @ rest"
    using drop_Cons_nth [of "hx_idx s" h] assms(1) by (simp_all add: hex_line_with_def)
  let ?s = "s\<lparr>hx_idx := Suc (hx_idx s)\<rparr>"
  note line = hex_record_line [of ?s h upper r c rest]
  have "(0x3A :: byte) \<notin> HEX_WHITESPACE" by (simp add: HEX_WHITESPACE_def)
  then have "hex_step h s = (case hex_record_step h ?s of Inl _ \<Rightarrow> ?s\<lparr>hx_out := Some []\<rparr> | Inr s \<Rightarrow> s)"
    using d by (simp add: hex_step_def Let_def)
  then show ?thesis
    using line d assms(2-4) hex_loop_step [of s h]
    by (intro exI [of _ "s\<lparr>hx_idx := Suc (hx_idx s) + 10 + 2 * length (hex_payload r),
      hx_buffer := hex_payload r @ drop (length (hex_payload r)) (hx_buffer s)\<rparr>"]) simp
qed

text \<open>The state of the converter after some records represents the memory they describe.\<close>

fun represents :: "hex_state \<Rightarrow> nat \<times> nat \<times> (nat \<Rightarrow> byte) \<Rightarrow> bool" where
  "represents s (cur, hi_end, mem) \<longleftrightarrow>
     hx_current s = cur \<and> hx_result s = map mem [0..<hi_end] \<and> (\<forall>i \<ge> hi_end. mem i = 0) \<and>
     hx_out s = None \<and> length (hx_buffer s) = 256"

lemma flash_step:
  assumes "represents s m" and "records_ok (fst m) (r # rs)" and "drop (hx_idx s) h = hex_line upper r @ rest"
  shows "\<exists>s'. hex_loop h s = hex_loop h s' \<and> drop (hx_idx s') h = rest \<and> represents s' (flash_record r m) \<and>
    records_ok (fst (flash_record r m)) rs"
proof -
  obtain cur hi_end mem where m: "m = (cur, hi_end, mem)" by (cases m)
  have fits: "record_fits r" using assms(2) by (cases r) (auto simp: record_fits_def)
  obtain s1 where s1: "hex_loop h s = hex_loop h (hex_apply (length (hex_payload r)) (hex_addr r) (hex_kind r) (unat (- sum_list (hex_fields r))) s1)"
      "drop (hx_idx s1) h = rest" "s1 = s\<lparr>hx_idx := hx_idx s1, hx_buffer := hex_payload r @ drop (length (hex_payload r)) (hx_buffer s)\<rparr>"
    using hex_loop_line [OF assms(3) [unfolded hex_line_def] fits] assms(1) m by auto
  have same: "hx_current s1 = cur" "hx_result s1 = map mem [0..<hi_end]" "hx_out s1 = None" "length (hx_buffer s1) = 256"
    using assms(1) fits by (subst s1(3), simp add: m record_fits_def)+
  have buf: "hx_buffer s1 = hex_payload r @ drop (length (hex_payload r)) (hx_buffer s)"
    by (subst s1(3)) simp
  let ?s' = "hex_apply (length (hex_payload r)) (hex_addr r) (hex_kind r) (unat (- sum_list (hex_fields r))) s1"
  have "represents ?s' (flash_record r m)"
    unfolding hex_apply_record [OF buf] using same assms(1,2) m
    by (cases r) (auto simp: write_image_map Let_def intro!: arg_cong2 [where f = map])
  moreover have "records_ok (fst (flash_record r m)) rs"
    using assms(2) m by (cases r) (auto simp: Let_def)
  ultimately show ?thesis using s1 by (intro exI [of _ ?s']) simp
qed

text \<open>Records, each with the white space before it and the case of its digits.\<close>

type_synonym hex_source = "(byte list \<times> bool \<times> hex_record) list"

definition hex_text :: "hex_source \<Rightarrow> byte list" where
  "hex_text xs = concat (map (\<lambda>(ws, upper, r). ws @ hex_line upper r) xs)"

definition source_records :: "hex_source \<Rightarrow> hex_record list" where
  "source_records xs = map (\<lambda>(ws, upper, r). r) xs"

definition spaces_ok :: "hex_source \<Rightarrow> bool" where
  "spaces_ok xs \<longleftrightarrow> (\<forall>(ws, upper, r) \<in> set xs. set ws \<subseteq> HEX_WHITESPACE)"

lemma flash_steps:
  assumes "represents s m" and "records_ok (fst m) (source_records xs)" and "spaces_ok xs"
    and "drop (hx_idx s) h = hex_text xs @ rest"
  shows "\<exists>s'. hex_loop h s = hex_loop h s' \<and> drop (hx_idx s') h = rest \<and> represents s' (fold flash_record (source_records xs) m)"
  using assms
proof (induction xs arbitrary: s m)
  case Nil
  then show ?case by (intro exI [of _ s]) (simp add: hex_text_def source_records_def)
next
  case (Cons x xs)
  obtain ws upper r where x: "x = (ws, upper, r)" by (cases x)
  let ?s = "s\<lparr>hx_idx := hx_idx s + length ws\<rparr>"
  have out: "hx_out s = None" using Cons.prems(1) by (cases m) simp
  have sp: "hex_loop h s = hex_loop h ?s" "drop (hx_idx ?s) h = hex_line upper r @ hex_text xs @ rest"
    using hex_loop_space [of s h ws "hex_line upper r @ hex_text xs @ rest"] Cons.prems(3,4) out
    by (auto simp: x hex_text_def spaces_ok_def)
  have "represents ?s m" using Cons.prems(1) by (cases m) simp
  from flash_step [OF this _ sp(2), of "source_records xs"] Cons.prems(2)
  obtain s' where s': "hex_loop h ?s = hex_loop h s'" "drop (hx_idx s') h = hex_text xs @ rest"
      "represents s' (flash_record r m)" "records_ok (fst (flash_record r m)) (source_records xs)"
    by (auto simp: x source_records_def)
  have "spaces_ok xs" using Cons.prems(3) by (simp add: spaces_ok_def)
  from Cons.IH [OF s'(3,4) this s'(2)] sp(1) s'(1) show ?case
    by (auto simp: x source_records_def)
qed

text \<open>After the records of \<open>xs\<close> and some white space the converter stands at \<open>rest\<close>.\<close>

lemma flash_prefix:
  assumes "records_ok 0 (source_records xs)" and "spaces_ok xs" and "set ws \<subseteq> HEX_WHITESPACE"
    and "h = hex_text xs @ ws @ rest"
  obtains s where "hex_loop h hex_init = hex_loop h s" "drop (hx_idx s) h = rest"
    "represents s (fold flash_record (source_records xs) (0, 0, \<lambda>_. 0))"
proof -
  let ?m0 = "(0, 0, \<lambda>_. 0) :: nat \<times> nat \<times> (nat \<Rightarrow> byte)"
  have "represents hex_init ?m0" by (simp add: hex_init_def)
  from flash_steps [OF this _ assms(2), of h "ws @ rest"] assms(1,4)
  obtain s where s: "hex_loop h hex_init = hex_loop h s" "drop (hx_idx s) h = ws @ rest"
      "represents s (fold flash_record (source_records xs) ?m0)"
    by (auto simp: hex_init_def)
  let ?m = "fold flash_record (source_records xs) ?m0" and ?s = "s\<lparr>hx_idx := hx_idx s + length ws\<rparr>"
  have "hx_out s = None" using s(3) by (cases ?m) simp
  note sp = hex_loop_space [OF s(2) assms(3) this]
  have "represents ?s ?m" using s(3) by (cases ?m) simp
  with s(1) sp show thesis by (intro that [of ?s]) simp_all
qed

lemma flash_line:
  assumes "represents s m" and "drop (hx_idx s) h = hex_line_with c upper r @ rest" and "record_fits r"
  obtains s1 where "hex_loop h s = hex_loop h (hex_apply (length (hex_payload r)) (hex_addr r) (hex_kind r) (unat c) s1)"
    "hx_buffer s1 = hex_payload r @ drop (length (hex_payload r)) (hx_buffer s)"
    "hx_result s1 = hx_result s" "hx_current s1 = hx_current s"
proof -
  have "length (hx_buffer s) = 256" "hx_out s = None"
    using assms(1) by (cases m; simp)+
  from hex_loop_line [OF assms(2,3) this]
  obtain s1 where s1: "hex_loop h s = hex_loop h (hex_apply (length (hex_payload r)) (hex_addr r) (hex_kind r) (unat c) s1)"
      "s1 = s\<lparr>hx_idx := hx_idx s1, hx_buffer := hex_payload r @ drop (length (hex_payload r)) (hx_buffer s)\<rparr>"
    by blast
  have "hx_buffer s1 = hex_payload r @ drop (length (hex_payload r)) (hx_buffer s)"
    "hx_result s1 = hx_result s" "hx_current s1 = hx_current s"
    by (subst s1(2), simp)+
  with s1(1) that show thesis by blast
qed

lemma hex2bin_flash:
  assumes "records_ok 0 (source_records xs)" and "spaces_ok xs" and "set ws \<subseteq> HEX_WHITESPACE"
  shows "hex2bin (hex_text xs @ ws @ hex_line upper HexEof @ rest) = Some (flash_image (source_records xs))"
proof -
  obtain h where h: "h = hex_text xs @ ws @ hex_line upper HexEof @ rest" by simp
  let ?m = "fold flash_record (source_records xs) (0, 0, \<lambda>_. 0)"
  obtain s where s: "hex_loop h hex_init = hex_loop h s" "drop (hx_idx s) h = hex_line upper HexEof @ rest" "represents s ?m"
    using flash_prefix [OF assms h] .
  have "record_fits HexEof" by (simp add: record_fits_def)
  from flash_line [OF s(3) s(2) [unfolded hex_line_def] this]
  obtain s1 where s1: "hex_loop h s = hex_loop h (hex_apply (length (hex_payload HexEof)) (hex_addr HexEof) (hex_kind HexEof) (unat (- sum_list (hex_fields HexEof))) s1)"
      "hx_buffer s1 = hex_payload HexEof @ drop (length (hex_payload HexEof)) (hx_buffer s)" "hx_result s1 = hx_result s" by blast
  then have "hex_loop h hex_init = Some (s1\<lparr>hx_out := Some (hx_result s)\<rparr>)"
    unfolding hex_apply_record [OF s1(2)] using s(1) by (simp add: hex_loop_stop)
  then have "hex2bin h = Some (hx_result s)" by (simp add: hex2bin_def)
  then show ?thesis
    unfolding h [symmetric] flash_image_def using s(3) by (cases ?m) simp
qed

text \<open>
  C5. The converter computes the flash image. A file of well-formed records, in upper or lower case
  and with any white space before each record, that ends with an end-of-file record is converted to
  the memory that the records describe: up to the highest address written, each byte holds what was
  written to it last, relative to the base of the flash, and zero where nothing was written.
\<close>

theorem hex2bin_image:
  assumes "records_ok 0 (source_records xs)" and "spaces_ok xs" and "set ws \<subseteq> HEX_WHITESPACE"
  shows "hex2bin (hex_text xs @ ws @ hex_line upper HexEof @ rest) = Some (flash_image (source_records xs))"
  using assms by (rule hex2bin_flash)

lemma refused_record:
  assumes "records_ok 0 (source_records xs)" and "spaces_ok xs" and "set ws \<subseteq> HEX_WHITESPACE" and "record_fits r"
    and "c \<noteq> - sum_list (hex_fields r) \<or>
      (\<exists>a bs. r = HexData a bs) \<and> fst (fold flash_record (source_records xs) (0, 0, \<lambda>_. 0)) < FW_BASE_ADDR"
  shows "hex2bin (hex_text xs @ ws @ hex_line_with c upper r @ rest) = Some []"
proof -
  obtain h where h: "h = hex_text xs @ ws @ hex_line_with c upper r @ rest" by simp
  let ?m = "fold flash_record (source_records xs) (0, 0, \<lambda>_. 0)"
  obtain s where s: "hex_loop h hex_init = hex_loop h s" "drop (hx_idx s) h = hex_line_with c upper r @ rest" "represents s ?m"
    using flash_prefix [OF assms(1-3) h] .
  obtain s1 where s1: "hex_loop h s = hex_loop h (hex_apply (length (hex_payload r)) (hex_addr r) (hex_kind r) (unat c) s1)"
      "hx_buffer s1 = hex_payload r @ drop (length (hex_payload r)) (hx_buffer s)" "hx_current s1 = hx_current s"
    using flash_line [OF s(3,2) assms(4)] by blast
  have "hx_current s1 = fst ?m" using s(3) s1(3) by (cases ?m) simp
  then have "hex_apply (length (hex_payload r)) (hex_addr r) (hex_kind r) (unat c) s1 = s1\<lparr>hx_out := Some []\<rparr>"
    unfolding hex_apply_def Let_def hex_checksum using assms(5) by (auto simp: s1(2) hex_fields_def)
  with s(1) s1(1) show ?thesis
    by (simp add: hex2bin_def h [symmetric] hex_loop_stop)
qed

lemma missing_eof:
  assumes "records_ok 0 (source_records xs)" and "spaces_ok xs" and "set ws \<subseteq> HEX_WHITESPACE"
  shows "hex2bin (hex_text xs @ ws) = Some []"
proof -
  obtain h where h: "h = hex_text xs @ ws @ []" by simp
  obtain s where s: "hex_loop h hex_init = hex_loop h s" "drop (hx_idx s) h = []"
      "represents s (fold flash_record (source_records xs) (0, 0, \<lambda>_. 0))"
    using flash_prefix [OF assms h] .
  have "hx_out s = None" using s(3) by (cases "fold flash_record (source_records xs) (0, 0, \<lambda>_. 0)") simp
  with s(1,2) have "hex2bin h = Some []" by (simp add: hex2bin_def hex_loop_stop)
  then show ?thesis by (simp add: h)
qed

text \<open>
  C30. Damaged files are refused. After any well-formed records, a record whose checksum is not the one
  of its fields, a data record below the base of the flash, or the end of the file without an
  end-of-file record makes the converter return no image, whatever follows.
\<close>

theorem hex2bin_rejects:
  assumes "records_ok 0 (source_records xs)" and "spaces_ok xs" and "set ws \<subseteq> HEX_WHITESPACE"
  shows "(record_fits r \<and> c \<noteq> - sum_list (hex_fields r) \<longrightarrow>
      hex2bin (hex_text xs @ ws @ hex_line_with c upper r @ rest) = Some []) \<and>
    (record_fits (HexData a bs) \<and> fst (fold flash_record (source_records xs) (0, 0, \<lambda>_. 0)) < FW_BASE_ADDR \<longrightarrow>
      hex2bin (hex_text xs @ ws @ hex_line upper (HexData a bs) @ rest) = Some []) \<and>
    hex2bin (hex_text xs @ ws) = Some []"
  using refused_record [OF assms] missing_eof [OF assms] unfolding hex_line_def by blast

section \<open>Round trip\<close>

text \<open>A binary as a file: lines of 16 bytes, each with its segment.\<close>

function hex_records :: "nat \<Rightarrow> byte list \<Rightarrow> hex_record list" where
  "hex_records a bs =
     (if bs = [] then []
      else HexExtLin ((FW_BASE_ADDR + a) div 65536) # HexData ((FW_BASE_ADDR + a) mod 65536) (take 16 bs)
        # hex_records (a + 16) (drop 16 bs))"
  by pat_completeness auto

termination
  by (relation "measure (\<lambda>(a, bs). length bs)") auto

declare hex_records.simps [simp del]

definition hex_file :: "byte list \<Rightarrow> byte list" where
  "hex_file bs = hex_text (map (\<lambda>r. ([0x0A], True, r)) (hex_records 0 bs)) @ [0x0A] @ hex_line True HexEof"

lemma hex_records_flash:
  assumes "a + length bs < 0xA0000000"
  shows "records_ok cur (hex_records a bs) \<and>
    (\<exists>cur'. fold flash_record (hex_records a bs) (cur, a, mem) =
      (cur', a + length bs, \<lambda>i. if a \<le> i \<and> i < a + length bs then bs ! (i - a) else mem i))"
  using assms
proof (induction a bs arbitrary: cur mem rule: hex_records.induct)
  case (1 a bs)
  show ?case
  proof (cases "bs = []")
    case True
    then show ?thesis by (auto simp: hex_records.simps fun_eq_iff)
  next
    case False
    let ?A = "FW_BASE_ADDR + a"
    have seg: "FW_BASE_ADDR \<le> ?A div 65536 * 65536" "?A div 65536 < 65536" "?A div 65536 * 65536 + ?A mod 65536 - FW_BASE_ADDR = a"
      using "1.prems" by (simp_all add: FW_BASE_ADDR_def)
    let ?mem = "\<lambda>i. if a \<le> i \<and> i < a + length (take 16 bs) then take 16 bs ! (i - a) else mem i"
    show ?thesis
    proof (cases "length bs \<le> 16")
      case True
      then show ?thesis
        using seg False by (simp add: hex_records.simps [of a bs] hex_records.simps [of "a + 16" "[]"] Let_def)
    next
      case long: False
      let ?c = "?A div 65536 * 65536"
      from "1.IH" [OF False, of ?c ?mem] "1.prems" long obtain cur' where
        IH: "records_ok ?c (hex_records (a + 16) (drop 16 bs))"
          "fold flash_record (hex_records (a + 16) (drop 16 bs)) (?c, a + 16, ?mem) =
            (cur', a + 16 + length (drop 16 bs), \<lambda>i. if a + 16 \<le> i \<and> i < a + 16 + length (drop 16 bs) then drop 16 bs ! (i - (a + 16)) else ?mem i)"
        by auto
      have "(\<lambda>i. if a + 16 \<le> i \<and> i < a + 16 + length (drop 16 bs) then drop 16 bs ! (i - (a + 16)) else ?mem i) =
          (\<lambda>i. if a \<le> i \<and> i < a + length bs then bs ! (i - a) else mem i)"
        using long by (auto simp: fun_eq_iff)
      then show ?thesis
        using seg IH False long by (simp add: hex_records.simps [of a bs] Let_def)
    qed
  qed
qed

text \<open>
  Round trip of an image. A firmware image written as an Intel HEX file, a line for every 16 bytes,
  is converted back to the same bytes.
\<close>

theorem hex_roundtrip:
  assumes "length bs < 0xA0000000"
  shows "hex2bin (hex_file bs) = Some bs"
proof -
  let ?xs = "map (\<lambda>r. ([0x0A], True, r)) (hex_records 0 bs)"
  have recs: "source_records ?xs = hex_records 0 bs" by (simp add: source_records_def comp_def)
  have "spaces_ok ?xs" "set [0x0A] \<subseteq> HEX_WHITESPACE" by (auto simp: spaces_ok_def HEX_WHITESPACE_def)
  then have "hex2bin (hex_file bs) = Some (flash_image (hex_records 0 bs))"
    using hex2bin_flash [of ?xs "[0x0A]" True "[]"] hex_records_flash [of 0 bs 0] assms
    by (simp add: hex_file_def recs)
  moreover have "flash_image (hex_records 0 bs) = bs"
    using hex_records_flash [of 0 bs 0 "\<lambda>_. 0"] assms
    by (auto simp: flash_image_def intro!: nth_equalityI)
  ultimately show ?thesis by simp
qed

section \<open>Witnesses\<close>

definition demo_source :: hex_source where
  "demo_source = [([], True, HexExtLin 0x6000), ([0x0D, 0x0A], False, HexData 2 [0xAB, 0xCD]), ([], True, HexStart [])]"

lemma demo_source_ok: "records_ok 0 (source_records demo_source)" "spaces_ok demo_source"
  by (simp_all add: demo_source_def source_records_def spaces_ok_def HEX_WHITESPACE_def FW_BASE_ADDR_def)

theorem hex2bin_image_witness:
  "hex2bin (hex_text demo_source @ [0x20] @ hex_line False HexEof @ [0xFF]) = Some [0, 0, 0xAB, 0xCD]"
proof -
  have "flash_image (source_records demo_source) = [0, 0, 0xAB, 0xCD]"
    by (simp add: flash_image_def demo_source_def source_records_def FW_BASE_ADDR_def upt_conv_Cons)
  then show ?thesis
    using hex2bin_image [OF demo_source_ok, of "[0x20]"] by (simp add: HEX_WHITESPACE_def)
qed

theorem hex2bin_rejects_witness:
  "hex2bin (hex_text demo_source @ [] @ hex_line_with 0 True HexEof @ []) = Some [] \<and>
   hex2bin (hex_text [] @ [] @ hex_line True (HexData 0 [1]) @ []) = Some []"
proof -
  have "record_fits HexEof" "(0 :: byte) \<noteq> - sum_list (hex_fields HexEof)" "record_fits (HexData 0 [1])"
    by (simp_all add: record_fits_def hex_fields_def)
  moreover have "records_ok 0 (source_records [])" "spaces_ok []" "fst (fold flash_record (source_records []) (0, 0, \<lambda>_. 0)) < FW_BASE_ADDR"
    by (simp_all add: source_records_def spaces_ok_def FW_BASE_ADDR_def)
  ultimately show ?thesis
    using hex2bin_rejects [OF demo_source_ok, of "[]" HexEof 0 True "[]"] hex2bin_rejects [of "[]" "[]" _ _ True "[]" 0 "[1]"]
    by simp
qed

theorem hex_roundtrip_witness: "hex2bin (hex_file [1, 2, 3]) = Some [1, 2, 3]"
  by (rule hex_roundtrip) simp

end
