(* ===== verification/Processes.thy ===== *)
theory Processes
  imports Prelude
begin

text \<open>
  Coroutines that talk to devices. \<open>('c, 'r, 'a) io\<close> is a computation that has ended with a value or
  waits for the reply to a call; what happens next is a function of the reply. Nothing is assumed
  about the device: \<open>exchanges m l a\<close> says that \<open>m\<close> can end with \<open>a\<close> after exchanging the calls and replies of
  \<open>l\<close>, and the theorems about coroutines quantify over all traces.

  A method with an object state is a \<open>proc\<close>: like \<open>pym\<close> it returns the new state also when it raises.
  The exception of a cancelled task reaches a coroutine like any other, as the outcome of the call it
  waits for.
\<close>

section \<open>Coroutines\<close>

datatype ('c, 'r, 'a) io = Done 'a | Await 'c "'r \<Rightarrow> ('c, 'r, 'a) io"

primrec io_bind :: "('c, 'r, 'a) io \<Rightarrow> ('a \<Rightarrow> ('c, 'r, 'b) io) \<Rightarrow> ('c, 'r, 'b) io" where
  "io_bind (Done a) g = g a"
| "io_bind (Await c f) g = Await c (\<lambda>r. io_bind (f r) g)"

primrec exchanges :: "('c, 'r, 'a) io \<Rightarrow> ('c \<times> 'r) list \<Rightarrow> 'a \<Rightarrow> bool" where
  "exchanges (Done a) l b \<longleftrightarrow> l = [] \<and> a = b"
| "exchanges (Await c f) l b \<longleftrightarrow> (case l of [] \<Rightarrow> False | (c', r) # l' \<Rightarrow> c' = c \<and> exchanges (f r) l' b)"

lemma trace_Await: "exchanges (Await c f) l b \<longleftrightarrow> (\<exists>r l'. l = (c, r) # l' \<and> exchanges (f r) l' b)"
  by (auto split: list.splits)

lemma trace_bind: "exchanges (io_bind m g) l b \<longleftrightarrow> (\<exists>l1 a l2. l = l1 @ l2 \<and> exchanges m l1 a \<and> exchanges (g a) l2 b)"
proof (induction m arbitrary: l)
  case (Await c f)
  show ?case
  proof
    assume "exchanges (io_bind (Await c f) g) l b"
    then obtain r l' where "l = (c, r) # l'" "exchanges (io_bind (f r) g) l' b"
      by (auto simp del: exchanges.simps(2) simp: trace_Await)
    moreover from this(2) obtain l1 a l2 where "l' = l1 @ l2" "exchanges (f r) l1 a" "exchanges (g a) l2 b"
      using Await.IH by blast
    ultimately show "\<exists>l1 a l2. l = l1 @ l2 \<and> exchanges (Await c f) l1 a \<and> exchanges (g a) l2 b"
      by (intro exI [of _ "(c, r) # l1"] exI [of _ a] exI [of _ l2]) simp
  next
    assume "\<exists>l1 a l2. l = l1 @ l2 \<and> exchanges (Await c f) l1 a \<and> exchanges (g a) l2 b"
    then obtain r l1 a l2 where "l = (c, r) # l1 @ l2" "exchanges (f r) l1 a" "exchanges (g a) l2 b"
      by (auto simp del: exchanges.simps(2) simp: trace_Await)
    then show "exchanges (io_bind (Await c f) g) l b"
      using Await.IH by auto
  qed
qed auto

text \<open>Every coroutine ends, whatever the replies are: there is a trace with the replies that \<open>dev\<close> gives.\<close>

lemma trace_total: "\<exists>l a. exchanges m l a \<and> (\<forall>(c, r) \<in> set l. r = dev c)"
proof (induction m)
  case (Done a)
  then show ?case by (intro exI [of _ "[]"] exI [of _ a]) simp
next
  case (Await c f)
  then obtain l a where "exchanges (f (dev c)) l a" "\<forall>(c, r) \<in> set l. r = dev c" by blast
  then show ?case by (intro exI [of _ "(c, dev c) # l"] exI [of _ a]) simp
qed

text \<open>A coroutine played against a list of replies; used to evaluate examples.\<close>

primrec play :: "('c, 'r, 'a) io \<Rightarrow> 'r list \<Rightarrow> (('c \<times> 'r) list \<times> 'a) option" where
  "play (Done a) rs = (case rs of [] \<Rightarrow> Some ([], a) | _ \<Rightarrow> None)"
| "play (Await c f) rs =
     (case rs of [] \<Rightarrow> None | r # rs' \<Rightarrow> map_option (\<lambda>(l, a). ((c, r) # l, a)) (play (f r) rs'))"

lemma play_exchanges: "play m rs = Some (l, a) \<Longrightarrow> exchanges m l a"
  by (induction m arbitrary: rs l) (auto split: list.splits)

section \<open>Methods\<close>

type_synonym ('c, 'r, 's, 'a) proc = "'s \<Rightarrow> ('c, 'r, 'a res \<times> 's) io"

definition pret :: "'a \<Rightarrow> ('c, 'r, 's, 'a) proc" where
  "pret a s = Done (Inr a, s)"

definition praise :: "py_exn \<Rightarrow> ('c, 'r, 's, 'a) proc" where
  "praise e s = Done (Inl e, s)"

definition pbind :: "('c, 'r, 's, 'a) proc \<Rightarrow> ('a \<Rightarrow> ('c, 'r, 's, 'b) proc) \<Rightarrow> ('c, 'r, 's, 'b) proc" where
  "pbind m f s = io_bind (m s) (\<lambda>(x, s). case x of Inl e \<Rightarrow> Done (Inl e, s) | Inr a \<Rightarrow> f a s)"

definition pcall :: "'c \<Rightarrow> ('c, 'r, 's, 'r) proc" where
  "pcall c s = Await c (\<lambda>r. Done (Inr r, s))"

text \<open>Steps without a call.\<close>

definition plift :: "('s, 'a) pym \<Rightarrow> ('c, 'r, 's, 'a) proc" where
  "plift m s = Done (m s)"

text \<open>\<open>try: m except: h\<close> with access to the exception, and \<open>try: m finally: h\<close>.\<close>

definition pcatch :: "('c, 'r, 's, 'a) proc \<Rightarrow> (py_exn \<Rightarrow> ('c, 'r, 's, 'a) proc) \<Rightarrow> ('c, 'r, 's, 'a) proc" where
  "pcatch m h s = io_bind (m s) (\<lambda>(x, s). case x of Inl e \<Rightarrow> h e s | Inr a \<Rightarrow> Done (Inr a, s))"

definition pfinally :: "('c, 'r, 's, 'a) proc \<Rightarrow> ('c, 'r, 's, unit) proc \<Rightarrow> ('c, 'r, 's, 'a) proc" where
  "pfinally m h s = io_bind (m s) (\<lambda>(x, s). io_bind (h s) (\<lambda>(y, s).
     case y of Inl e \<Rightarrow> Done (Inl e, s) | Inr _ \<Rightarrow> Done (x, s)))"

fun pfor :: "'x list \<Rightarrow> ('x \<Rightarrow> ('c, 'r, 's, unit) proc) \<Rightarrow> ('c, 'r, 's, unit) proc" where
  "pfor [] f = pret ()"
| "pfor (x # xs) f = pbind (f x) (\<lambda>_. pfor xs f)"

section \<open>Traces of methods\<close>

named_theorems trace_iffs \<open>one equivalence per constructor of methods\<close>

lemma trace_pret [trace_iffs]: "exchanges (pret a s) l x \<longleftrightarrow> l = [] \<and> x = (Inr a, s)"
  by (auto simp: pret_def)

lemma trace_praise [trace_iffs]: "exchanges (praise e s) l x \<longleftrightarrow> l = [] \<and> x = (Inl e, s)"
  by (auto simp: praise_def)

lemma trace_plift [trace_iffs]: "exchanges (plift m s) l x \<longleftrightarrow> l = [] \<and> x = m s"
  by (auto simp: plift_def)

lemma trace_pcall [trace_iffs]: "exchanges (pcall c s) l x \<longleftrightarrow> (\<exists>r. l = [(c, r)] \<and> x = (Inr r, s))"
  by (auto simp: pcall_def split: list.splits)

lemma trace_step:
  "exchanges (io_bind m (\<lambda>(x, s). k x s)) l b \<longleftrightarrow> (\<exists>l1 l2 x s. l = l1 @ l2 \<and> exchanges m l1 (x, s) \<and> exchanges (k x s) l2 b)"
  unfolding trace_bind by (metis case_prod_conv surj_pair)

lemma trace_pbind [trace_iffs]:
  "exchanges (pbind m f s) l (x, s') \<longleftrightarrow>
     (\<exists>e. x = Inl e \<and> exchanges (m s) l (Inl e, s')) \<or>
     (\<exists>l1 l2 a s1. l = l1 @ l2 \<and> exchanges (m s) l1 (Inr a, s1) \<and> exchanges (f a s1) l2 (x, s'))" (is "?l \<longleftrightarrow> ?r")
proof
  assume ?l
  then obtain l1 l2 y s1 where *: "l = l1 @ l2" "exchanges (m s) l1 (y, s1)"
      "exchanges (case y of Inl e \<Rightarrow> Done (Inl e, s1) | Inr a \<Rightarrow> f a s1) l2 (x, s')"
    unfolding pbind_def trace_step by blast
  then show ?r by (cases y) auto
next
  assume ?r
  then show ?l
  proof (elim disjE exE conjE)
    fix e assume "x = Inl e" "exchanges (m s) l (Inl e, s')"
    then show ?l unfolding pbind_def trace_step
      by (intro exI [of _ l] exI [of _ "[]"] exI [of _ "Inl e"] exI [of _ s']) simp
  next
    fix l1 l2 a s1 assume "l = l1 @ l2" "exchanges (m s) l1 (Inr a, s1)" "exchanges (f a s1) l2 (x, s')"
    then show ?l unfolding pbind_def trace_step
      by (intro exI [of _ l1] exI [of _ l2] exI [of _ "Inr a"] exI [of _ s1]) simp
  qed
qed

lemma trace_pcatch [trace_iffs]:
  "exchanges (pcatch m h s) l (x, s') \<longleftrightarrow>
     (\<exists>a. x = Inr a \<and> exchanges (m s) l (Inr a, s')) \<or>
     (\<exists>l1 l2 e s1. l = l1 @ l2 \<and> exchanges (m s) l1 (Inl e, s1) \<and> exchanges (h e s1) l2 (x, s'))" (is "?l \<longleftrightarrow> ?r")
proof
  assume ?l
  then obtain l1 l2 y s1 where *: "l = l1 @ l2" "exchanges (m s) l1 (y, s1)"
      "exchanges (case y of Inl e \<Rightarrow> h e s1 | Inr a \<Rightarrow> Done (Inr a, s1)) l2 (x, s')"
    unfolding pcatch_def trace_step by blast
  then show ?r by (cases y) auto
next
  assume ?r
  then show ?l
  proof (elim disjE exE conjE)
    fix a assume "x = Inr a" "exchanges (m s) l (Inr a, s')"
    then show ?l unfolding pcatch_def trace_step
      by (intro exI [of _ l] exI [of _ "[]"] exI [of _ "Inr a"] exI [of _ s']) simp
  next
    fix l1 l2 e s1 assume "l = l1 @ l2" "exchanges (m s) l1 (Inl e, s1)" "exchanges (h e s1) l2 (x, s')"
    then show ?l unfolding pcatch_def trace_step
      by (intro exI [of _ l1] exI [of _ l2] exI [of _ "Inl e"] exI [of _ s1]) simp
  qed
qed

lemma trace_pfinally [trace_iffs]:
  "exchanges (pfinally m h s) l (x, s') \<longleftrightarrow>
     (\<exists>l1 l2 y s1 z. l = l1 @ l2 \<and> exchanges (m s) l1 (y, s1) \<and> exchanges (h s1) l2 (z, s') \<and>
        x = (case z of Inl e \<Rightarrow> Inl e | Inr _ \<Rightarrow> y))" (is "?l \<longleftrightarrow> ?r")
proof
  assume ?l
  then obtain l1 y s1 l2 z s2 where *: "l = l1 @ l2" "exchanges (m s) l1 (y, s1)" "exchanges (h s1) l2 (z, s2)"
      "(x, s') = (case z of Inl e \<Rightarrow> (Inl e, s2) | Inr _ \<Rightarrow> (y, s2))"
    unfolding pfinally_def trace_step
  proof (elim exE conjE)
    fix l1 l2 y s1 l3 l4 z s2
    assume a: "l = l1 @ l2" "exchanges (m s) l1 (y, s1)" "l2 = l3 @ l4" "exchanges (h s1) l3 (z, s2)"
      "exchanges (case z of Inl e \<Rightarrow> Done (Inl e, s2) | Inr _ \<Rightarrow> Done (y, s2)) l4 (x, s')"
    then have "l4 = []" "(x, s') = (case z of Inl e \<Rightarrow> (Inl e, s2) | Inr _ \<Rightarrow> (y, s2))" by (cases z; auto)+
    with a show thesis by (intro that [of l1 l2 y s1 z s2]) simp_all
  qed
  then show ?r
    by (intro exI [of _ l1] exI [of _ l2] exI [of _ y] exI [of _ s1] exI [of _ z]) (auto split: sum.splits)
next
  assume ?r
  then obtain l1 l2 y s1 z where *: "l = l1 @ l2" "exchanges (m s) l1 (y, s1)" "exchanges (h s1) l2 (z, s')"
      "x = (case z of Inl e \<Rightarrow> Inl e | Inr _ \<Rightarrow> y)" by blast
  then show ?l unfolding pfinally_def trace_step
    by (intro exI [of _ l1] exI [of _ l2] exI [of _ y] exI [of _ s1] conjI exI [of _ "[]"] exI [of _ z] exI [of _ s'])
      (auto split: sum.splits)
qed

lemma trace_pfor_Nil [trace_iffs]: "exchanges (pfor [] f s) l x \<longleftrightarrow> l = [] \<and> x = (Inr (), s)"
  by (simp add: trace_pret)

lemma trace_pfor_Cons [trace_iffs]:
  "exchanges (pfor (y # ys) f s) l (x, s') \<longleftrightarrow>
     (\<exists>e. x = Inl e \<and> exchanges (f y s) l (Inl e, s')) \<or>
     (\<exists>l1 l2 s1. l = l1 @ l2 \<and> exchanges (f y s) l1 (Inr (), s1) \<and> exchanges (pfor ys f s1) l2 (x, s'))"
  by (simp add: trace_pbind)

section \<open>Which calls a method makes\<close>

text \<open>\<open>only Q m\<close>: every call of \<open>m\<close>, with its reply, satisfies \<open>Q\<close>. One rule per constructor.\<close>

definition only :: "('c \<times> 'r \<Rightarrow> bool) \<Rightarrow> ('c, 'r, 's, 'a) proc \<Rightarrow> bool" where
  "only Q m \<longleftrightarrow> (\<forall>s l y. exchanges (m s) l y \<longrightarrow> (\<forall>a \<in> set l. Q a))"

named_theorems only_intro \<open>one rule per constructor of methods\<close>

lemma onlyD: "only Q m \<Longrightarrow> exchanges (m s) l y \<Longrightarrow> \<forall>a \<in> set l. Q a"
  unfolding only_def by blast

lemma only_mono: "only Q m \<Longrightarrow> (\<And>a. Q a \<Longrightarrow> Q' a) \<Longrightarrow> only Q' m"
  by (auto simp: only_def)

lemma only_pret [only_intro]: "only Q (pret a)"
  by (simp add: only_def pret_def)

lemma only_praise [only_intro]: "only Q (praise e)"
  by (simp add: only_def praise_def)

lemma only_plift [only_intro]: "only Q (plift m)"
  by (simp add: only_def plift_def)

lemma only_pcall [only_intro]: "(\<And>r. Q (c, r)) \<Longrightarrow> only Q (pcall c)"
  unfolding only_def trace_pcall by auto

lemma only_pbind [only_intro]:
  assumes "only Q m" and "\<And>a. only Q (f a)"
  shows "only Q (pbind m f)"
  unfolding only_def
proof (intro allI impI)
  fix s l y
  assume "exchanges (pbind m f s) l y"
  then obtain x s' where "exchanges (pbind m f s) l (x, s')" by (cases y) auto
  then show "\<forall>a \<in> set l. Q a"
    unfolding trace_pbind
  proof (elim disjE exE conjE)
    fix e assume "exchanges (m s) l (Inl e, s')"
    then show ?thesis using onlyD [OF assms(1)] by blast
  next
    fix l1 l2 a s1 assume "l = l1 @ l2" "exchanges (m s) l1 (Inr a, s1)" "exchanges (f a s1) l2 (x, s')"
    then show ?thesis using onlyD [OF assms(1)] onlyD [OF assms(2)] by (metis Un_iff set_append)
  qed
qed

lemma only_pcatch [only_intro]:
  assumes "only Q m" and "\<And>e. only Q (h e)"
  shows "only Q (pcatch m h)"
  unfolding only_def
proof (intro allI impI)
  fix s l y
  assume "exchanges (pcatch m h s) l y"
  then obtain x s' where "exchanges (pcatch m h s) l (x, s')" by (cases y) auto
  then show "\<forall>a \<in> set l. Q a"
    unfolding trace_pcatch
  proof (elim disjE exE conjE)
    fix a assume "exchanges (m s) l (Inr a, s')"
    then show ?thesis using onlyD [OF assms(1)] by blast
  next
    fix l1 l2 e s1 assume "l = l1 @ l2" "exchanges (m s) l1 (Inl e, s1)" "exchanges (h e s1) l2 (x, s')"
    then show ?thesis using onlyD [OF assms(1)] onlyD [OF assms(2)] by (metis Un_iff set_append)
  qed
qed

lemma only_pfinally [only_intro]:
  assumes "only Q m" and "only Q h"
  shows "only Q (pfinally m h)"
  unfolding only_def
proof (intro allI impI)
  fix s l y
  assume "exchanges (pfinally m h s) l y"
  then obtain x s' where "exchanges (pfinally m h s) l (x, s')" by (cases y) auto
  then obtain l1 l2 y s1 z where "l = l1 @ l2" "exchanges (m s) l1 (y, s1)" "exchanges (h s1) l2 (z, s')"
    unfolding trace_pfinally by blast
  then show "\<forall>a \<in> set l. Q a" using onlyD [OF assms(1)] onlyD [OF assms(2)] by (metis Un_iff set_append)
qed

lemma only_pfor [only_intro]: "(\<And>x. x \<in> set xs \<Longrightarrow> only Q (f x)) \<Longrightarrow> only Q (pfor xs f)"
  by (induction xs) (auto intro!: only_intro)

lemma only_if [only_intro]: "(b \<Longrightarrow> only Q m) \<Longrightarrow> (\<not> b \<Longrightarrow> only Q n) \<Longrightarrow> only Q (if b then m else n)"
  by simp

lemma only_option [only_intro]:
  "(x = None \<Longrightarrow> only Q m) \<Longrightarrow> (\<And>y. x = Some y \<Longrightarrow> only Q (f y)) \<Longrightarrow> only Q (case x of None \<Rightarrow> m | Some y \<Rightarrow> f y)"
  by (simp split: option.splits)

lemma only_prod [only_intro]: "(\<And>a b. only Q (f a b)) \<Longrightarrow> only Q (case x of (a, b) \<Rightarrow> f a b)"
  by (simp split: prod.splits)

end
