(* ===== verification/Session.thy ===== *)
theory Session
  imports Connections Runs Firmware Processes
begin

text \<open>
  Sessions: the pipeline of commands and its execution (redac/session.py) over the control channels
  (redac/control.py, base/result.py).

  The native channels are a parameter: a command is a coroutine of theory Processes whose calls are
  \<open>call\<close>s to the native channel of one connection, and every reply is possible. A reply of another kind
  than the native method returns counts as \<open>False\<close>, 0 or nothing. Two calls are not native: \<open>WaitMessages\<close>
  is the time a task spends in \<open>wait_all\<close>, its reply the messages that arrive meanwhile, batch by batch,
  up to the timeout; \<open>StartDrain\<close> creates the task that empties the sample queues and \<open>DrainQueues\<close> stops
  and awaits it, its reply the blobs it has taken from them. Sleeping, logging, progress output and
  the notice to sample listeners that a run is complete are left out.

  \<open>en_order\<close> is the order in which the set of unique connections is iterated, \<open>en_run_id\<close> the identifier
  of the n-th run of the controller.
\<close>

section \<open>Control channels\<close>

record run_config =
  rc_ic_time :: int
  rc_op_time :: int
  rc_halt_on_overload :: bool

record daq_config =
  dq_num_channels :: int
  dq_sample_rate :: int
  dq_sample_op :: bool
  dq_sample_op_end :: bool

record start_run_command =
  sr_run_id :: string
  sr_config :: run_config
  sr_streaming :: bool
  sr_daq :: daq_config
  sr_sync_enabled :: bool
  sr_sync_master :: "string option"
  sr_sync_group :: int

datatype native_call =
    SetModule "module_item list"
  | StartRun start_run_command
  | Calibrate string bool bool bool
  | Reset bool bool bool bool
  | GetOverload
  | UpdateBegin nat "byte list"
  | UpdateWrite nat int "byte list"
  | UpdateVerify
  | UpdateCommit
  | UpdateAbort
  | IsConnected
  | Reconnect
  | CancelReconnect
  | DataReconnect
  | RegisterCallback
  | UnregisterCallback

datatype call = OnChannel nat native_call | WaitMessages | StartDrain | DrainQueues

datatype reply =
    RNone
  | RBool bool
  | RInt int
  | RStatus bool "(string \<times> int \<times> bool) list"
  | RMessages "(nat \<times> state_change) list list"
  | RBlobs "byte list list"
  | RRaise py_exn

type_synonym ('s, 'a) sproc = "(call, reply, 's, 'a) proc"
type_synonym call_log = "(call \<times> reply) list"

definition raised :: "reply \<Rightarrow> py_exn option" where
  "raised r = (case r of RRaise e \<Rightarrow> Some e | _ \<Rightarrow> None)"

definition perform :: "call \<Rightarrow> ('s, reply) sproc" where
  "perform k = pbind (pcall k) (\<lambda>r. case raised r of None \<Rightarrow> pret r | Some e \<Rightarrow> praise e)"

text \<open>A method of \<open>conn.control\<close>, which is \<open>None\<close> without the native extension.\<close>

definition native :: "device_connection \<Rightarrow> native_call \<Rightarrow> ('s, reply) sproc" where
  "native c k = (if dc_control c then perform (OnChannel (dc_id c) k) else praise AttributeError)"

datatype result = Success | Failure

definition raise_on_error :: "result \<Rightarrow> ('s, unit) sproc" where
  "raise_on_error r = (case r of Success \<Rightarrow> pret () | Failure \<Rightarrow> praise RuntimeError)"

text \<open>The wrappers: a \<open>RuntimeError\<close> of the native call becomes a failed result, other exceptions pass.\<close>

definition as_result :: "(reply \<Rightarrow> result) \<Rightarrow> device_connection \<Rightarrow> native_call \<Rightarrow> ('s, result) sproc" where
  "as_result f c k =
     pcatch (pbind (native c k) (\<lambda>r. pret (f r))) (\<lambda>e. if e = RuntimeError then pret Failure else praise e)"

definition set_module_request :: "device_connection \<Rightarrow> module_item list \<Rightarrow> ('s, result) sproc" where
  "set_module_request c m = as_result (\<lambda>r. if r = RBool True then Success else Failure) c (SetModule m)"

definition simple_request :: "device_connection \<Rightarrow> native_call \<Rightarrow> ('s, result) sproc" where
  "simple_request c k = as_result (\<lambda>_. Success) c k"

abbreviation start_run_request :: "device_connection \<Rightarrow> start_run_command \<Rightarrow> ('s, result) sproc" where
  "start_run_request c cmd \<equiv> simple_request c (StartRun cmd)"

abbreviation calibrate_request :: "device_connection \<Rightarrow> string \<Rightarrow> bool \<Rightarrow> bool \<Rightarrow> bool \<Rightarrow> ('s, result) sproc" where
  "calibrate_request c leader math gain offset \<equiv> simple_request c (Calibrate leader math gain offset)"

abbreviation reset_request :: "device_connection \<Rightarrow> bool \<Rightarrow> bool \<Rightarrow> bool \<Rightarrow> bool \<Rightarrow> ('s, result) sproc" where
  "reset_request c keep sync overload circuit \<equiv> simple_request c (Reset keep sync overload circuit)"

abbreviation update_write_full :: "device_connection \<Rightarrow> nat \<Rightarrow> int \<Rightarrow> byte list \<Rightarrow> ('s, result) sproc" where
  "update_write_full c n chunk binary \<equiv> simple_request c (UpdateWrite n chunk binary)"

abbreviation update_verify :: "device_connection \<Rightarrow> ('s, result) sproc" where
  "update_verify c \<equiv> simple_request c UpdateVerify"

abbreviation update_commit :: "device_connection \<Rightarrow> ('s, result) sproc" where
  "update_commit c \<equiv> simple_request c UpdateCommit"

abbreviation update_abort :: "device_connection \<Rightarrow> ('s, result) sproc" where
  "update_abort c \<equiv> simple_request c UpdateAbort"

definition update_begin :: "device_connection \<Rightarrow> nat \<Rightarrow> byte list \<Rightarrow> ('s, int) sproc" where
  "update_begin c n sha = pbind (native c (UpdateBegin n sha)) (\<lambda>r. pret (case r of RInt k \<Rightarrow> k | _ \<Rightarrow> 0))"

definition overload_status_request :: "device_connection \<Rightarrow> ('s, bool \<times> (string \<times> int \<times> bool) list) sproc" where
  "overload_status_request c =
     pbind (native c GetOverload) (\<lambda>r. pret (case r of RStatus g es \<Rightarrow> (g, es) | _ \<Rightarrow> (False, [])))"

section \<open>Sessions\<close>

record run_request =
  rq_config :: run_config
  rq_daq :: daq_config
  rq_entities :: "path set option"

datatype command =
    ResetCommand bool bool bool bool
  | SetConfigCommand "module_item list"
  | RunCommand run_request
  | CalibrateCommand string bool bool bool
  | FirmwareUpdateCommand "byte list" "byte list"

record run =
  rr_id :: string
  rr_config :: run_config
  rr_daq :: daq_config
  rr_sync_master :: "path option"
  rr_sync_group :: int
  rr_tracker :: run_tracker
  rr_overloaded :: "path list option"
  rr_data :: run_data

record session =
  se_pipeline :: "command list"
  se_executed :: bool
  se_runs :: "run list"
  se_registered :: "run list"

record env =
  en_controller :: controller
  en_order :: "device_connection list"
  en_run_id :: "nat \<Rightarrow> string"

type_synonym 'a sess = "(session, 'a) sproc"

text \<open>The methods that fill the pipeline. \<open>se_registered\<close> is \<open>controller.runs\<close>, newest last.\<close>

definition new_session :: "run list \<Rightarrow> session" where
  "new_session rs = \<lparr>se_pipeline = [], se_executed = False, se_runs = [], se_registered = rs\<rparr>"

definition append_command :: "command \<Rightarrow> session \<Rightarrow> session" where
  "append_command c s = s\<lparr>se_pipeline := se_pipeline s @ [c]\<rparr>"

definition session_reset :: "bool \<Rightarrow> bool \<Rightarrow> bool \<Rightarrow> bool \<Rightarrow> (session, unit) pym" where
  "session_reset keep sync overload circuit = modify (append_command (ResetCommand keep sync overload circuit))"

definition set_module_raw :: "module_item list \<Rightarrow> (session, unit) pym" where
  "set_module_raw m = modify (append_command (SetConfigCommand m))"

definition session_set_config ::
    "nat \<Rightarrow> pb_wire \<Rightarrow> spec_entity list \<Rightarrow> redac \<Rightarrow> routing \<Rightarrow> (session, unit) pym option \<times> routing" where
  "session_set_config fuel w specs r rt =
     (case serialize fuel w False redac_validators specs r rt of
        (m, rt') \<Rightarrow> (map_option (\<lambda>m. sbind (lift_res m) set_module_raw) m, rt'))"

definition session_calibrate :: "env \<Rightarrow> string \<Rightarrow> bool \<Rightarrow> bool \<Rightarrow> bool \<Rightarrow> (session, unit) pym" where
  "session_calibrate en leader math gain offset =
     sbind (if leader \<noteq> [] then ret leader
            else eval_st (\<lambda>_. rbind (py_get (ct_carriers (en_controller en)) 0) (\<lambda>c. path_to_mac (spec_path c)))) (\<lambda>leader.
     modify (append_command (CalibrateCommand leader math gain offset)))"

definition session_run :: "run_request \<Rightarrow> (session, unit) pym" where
  "session_run rq = modify (append_command (RunCommand rq))"

text \<open>The argument of \<open>set_firmware\<close>: a file name, a buffer, or something else.\<close>

datatype firmware = FirmwareFile string | FirmwareBytes "byte list" | FirmwareOther

definition set_firmware ::
    "(string \<Rightarrow> byte list option) \<Rightarrow> (byte list \<Rightarrow> byte list) \<Rightarrow> firmware \<Rightarrow> session \<Rightarrow> (unit res \<times> session) option" where
  "set_firmware files sha256 fw s =
     (case fw of
        FirmwareFile f \<Rightarrow>
          map_option (\<lambda>x. sbind (lift_res x) (\<lambda>(b, d). modify (append_command (FirmwareUpdateCommand b d))) s)
            (read_to_bin files sha256 f)
      | FirmwareBytes b \<Rightarrow> Some (modify (append_command (FirmwareUpdateCommand b (sha256 b))) s)
      | FirmwareOther \<Rightarrow> Some (raise PlainException s))"

section \<open>Configuration, reset and calibration\<close>

definition need_control :: "device_connection \<Rightarrow> 'a sess \<Rightarrow> 'a sess" where
  "need_control c m = (if dc_control c then m else praise NotImplementedError)"

definition execute_reset :: "env \<Rightarrow> bool \<Rightarrow> bool \<Rightarrow> bool \<Rightarrow> bool \<Rightarrow> unit sess" where
  "execute_reset en keep sync overload circuit =
     pfor (en_order en) (\<lambda>c. need_control c (pbind (reset_request c keep sync overload circuit) (\<lambda>_. pret ())))"

definition execute_calibrate :: "env \<Rightarrow> string \<Rightarrow> bool \<Rightarrow> bool \<Rightarrow> bool \<Rightarrow> unit sess" where
  "execute_calibrate en leader math gain offset =
     (let leader = (if leader \<noteq> [] then leader
        else case mg_connections (ct_manager (en_controller en)) of [] \<Rightarrow> [] | (p, _) # _ \<Rightarrow> path_str p) in
      pfor (en_order en) (\<lambda>c. need_control c
        (pbind (calibrate_request c leader math gain offset) raise_on_error)))"

definition execute_set_config :: "env \<Rightarrow> module_item list \<Rightarrow> unit sess" where
  "execute_set_config en m =
     pfor (en_order en) (\<lambda>c. need_control c (pbind (set_module_request c m) raise_on_error))"

section \<open>Firmware update\<close>

definition upload_to :: "byte list \<Rightarrow> byte list \<Rightarrow> device_connection \<Rightarrow> unit sess" where
  "upload_to binary sha c =
     pbind (update_begin c (length binary) sha) (\<lambda>chunk.
     pbind (update_write_full c (length binary) chunk binary) raise_on_error)"

definition upload_phases :: "env \<Rightarrow> byte list \<Rightarrow> byte list \<Rightarrow> unit sess" where
  "upload_phases en binary sha =
     pbind (pfor (en_order en) (upload_to binary sha)) (\<lambda>_.
     pbind (pfor (en_order en) (\<lambda>c. pbind (update_verify c) raise_on_error)) (\<lambda>_.
     pfor (en_order en) (\<lambda>c. pbind (update_commit c) raise_on_error)))"

text \<open>\<open>except Exception\<close> does not catch a cancellation.\<close>

definition abort_on :: "device_connection \<Rightarrow> unit sess" where
  "abort_on c =
     pcatch (pbind (update_abort c) (\<lambda>_. pret ()))
       (\<lambda>e. if e = CancelledError then praise e else pret ())"

text \<open>A cancelled \<open>reconnect\<close> releases the native loop and returns \<open>False\<close>.\<close>

definition reconnect_request :: "device_connection \<Rightarrow> bool sess" where
  "reconnect_request c =
     pcatch (pbind (native c Reconnect) (\<lambda>r. pret (r = RBool True)))
       (\<lambda>e. if e = CancelledError then pbind (native c CancelReconnect) (\<lambda>_. pret False) else praise e)"

definition reconnect_after :: "device_connection \<Rightarrow> unit sess" where
  "reconnect_after c =
     pbind (native c IsConnected) (\<lambda>r. if r = RBool True then pret () else
     pbind (reconnect_request c) (\<lambda>ok.
     if \<not> ok then praise RuntimeError
     else if dc_data c then pbind (native c DataReconnect) (\<lambda>_. pret ()) else pret ()))"

definition execute_upload :: "env \<Rightarrow> byte list \<Rightarrow> byte list \<Rightarrow> unit sess" where
  "execute_upload en binary sha =
     pbind (pcatch (upload_phases en binary sha)
        (\<lambda>e. pbind (pfor (en_order en) abort_on) (\<lambda>_. praise e))) (\<lambda>_.
     pfor (en_order en) reconnect_after)"

section \<open>Runs\<close>

text \<open>The run that is being executed is the last one that was registered.\<close>

definition current_run :: "session \<Rightarrow> run" where
  "current_run s = last (se_registered s)"

definition change_run :: "(run \<Rightarrow> run) \<Rightarrow> session \<Rightarrow> session" where
  "change_run f s = s\<lparr>se_registered := butlast (se_registered s) @ [f (current_run s)]\<rparr>"

definition new_run :: "string \<Rightarrow> run_request \<Rightarrow> run" where
  "new_run i rq = \<lparr>rr_id = i, rr_config = rq_config rq, rr_daq = rq_daq rq, rr_sync_master = None, rr_sync_group = 0,
     rr_tracker = \<lparr>dr_states = [], dr_error = False, dr_run_state = NEW\<rparr>, rr_overloaded = None,
     rr_data = \<lparr>rn_data = [], rn_final = (\<lambda>_. None)\<rparr>\<rparr>"

text \<open>
  The carrier that generates the SYNC pulse: the first one in the order of locations. \<open>list.sort\<close>
  compares only when there are two carriers; a missing location then fails, at the left of the
  comparison with \<open>TypeError\<close>, at the right with \<open>AttributeError\<close>.
\<close>

definition spec_location :: "spec_entity \<Rightarrow> loc option" where
  "spec_location x = (case x of BlockS b \<Rightarrow> bs_location b | ClusterS c \<Rightarrow> cs_location c | CarrierS c _ \<Rightarrow> ca_location c | DeviceS _ _ \<Rightarrow> None)"

definition sync_master :: "spec_entity list \<Rightarrow> path res" where
  "sync_master cs =
     (case map (\<lambda>c. (spec_location c, spec_path c)) cs of
        [] \<Rightarrow> Inl IndexError
      | [(l, p)] \<Rightarrow> Inr p
      | (l, p) # (l', p') # ls \<Rightarrow>
          if l = None \<and> l' \<noteq> None then Inl AttributeError
          else if None \<in> set (l # l' # map fst ls) then Inl TypeError
          else Inr (snd (hd (sorted_by_loc (map (\<lambda>(l, p). (the l, p)) ((l, p) # (l', p') # ls))))))"

text \<open>The connections of the involved carriers, each with its carriers, in the order of first use.\<close>

definition conn_to_paths :: "manager \<Rightarrow> path list \<Rightarrow> (device_connection \<times> path list) list res" where
  "conn_to_paths m ps =
     rbind (rmap (\<lambda>p. rbind (get_connection p m) (\<lambda>c. Inr (c, p))) ps) (\<lambda>cps.
     Inr (map (\<lambda>c. (c, map snd (filter (\<lambda>cp. fst cp = c) cps))) (rev (remdups (rev (map fst cps))))))"

definition start_command :: "run \<Rightarrow> start_run_command" where
  "start_command r =
     \<lparr>sr_run_id = rr_id r, sr_config = rr_config r, sr_streaming = dq_sample_op (rr_daq r) \<or> dq_sample_op_end (rr_daq r),
      sr_daq = rr_daq r, sr_sync_enabled = True, sr_sync_master = map_option path_str (rr_sync_master r),
      sr_sync_group = rr_sync_group r\<rparr>"

text \<open>\<open>asyncio.gather\<close>: every request is sent; the first exception is raised, otherwise all results return.\<close>

fun send_all :: "start_run_command \<Rightarrow> device_connection list \<Rightarrow> (result res) list sess" where
  "send_all cmd [] = pret []"
| "send_all cmd (c # cs) =
     pbind (pcatch (pbind (start_run_request c cmd) (\<lambda>r. pret (Inr r))) (\<lambda>e. pret (Inl e))) (\<lambda>x.
     pbind (send_all cmd cs) (\<lambda>xs. pret (x # xs)))"

definition gather :: "start_run_command \<Rightarrow> device_connection list \<Rightarrow> result list sess" where
  "gather cmd cs = pbind (send_all cmd cs) (\<lambda>xs. plift (eval_st (\<lambda>_. rmap (\<lambda>x. x) xs)))"

text \<open>
  \<open>wait_all\<close> inside a timeout: the messages of a connection go to the callback registered for it. A
  cancellation while waiting is reported as a timeout.
\<close>

definition turn_of :: "(device_connection \<times> path list) list \<Rightarrow> (nat \<times> state_change) list \<Rightarrow> turn" where
  "turn_of ctp ms =
     List.map_filter (\<lambda>(i, m). case find (\<lambda>(c, ps). dc_id c = i) ctp of None \<Rightarrow> None | Some (c, ps) \<Rightarrow> Some (ps, m)) ms"

definition arrived :: "reply \<Rightarrow> (nat \<times> state_change) list list" where
  "arrived r = (case r of RMessages ms \<Rightarrow> ms | _ \<Rightarrow> [])"

definition wait_run :: "run_state \<Rightarrow> turn list \<Rightarrow> (session, unit) pym" where
  "wait_run st sched s =
     (case wait_all (rr_id (current_run s)) st sched (rr_tracker (current_run s)) of
        (x, t) \<Rightarrow> (x, change_run (\<lambda>r. r\<lparr>rr_tracker := t\<rparr>) s))"

definition wait_for :: "(device_connection \<times> path list) list \<Rightarrow> run_state \<Rightarrow> unit sess" where
  "wait_for ctp st =
     pbind (pcall WaitMessages) (\<lambda>r.
     case raised r of
       Some e \<Rightarrow> praise (if e = CancelledError then TimeoutError else e)
     | None \<Rightarrow> plift (wait_run st (map (turn_of ctp) (arrived r))))"

definition query_overload :: "device_connection \<Rightarrow> unit sess" where
  "query_overload c =
     pbind (overload_status_request c) (\<lambda>(g, es).
     plift (modify (change_run (\<lambda>r. r\<lparr>rr_overloaded :=
       (if g then Some (map (\<lambda>(p, i, _). [PS p, PI i]) (filter (\<lambda>(_, _, o'). o') es)) else None)\<rparr>))))"

definition collect_data :: "env \<Rightarrow> unit sess" where
  "collect_data en =
     pbind (pcatch (perform DrainQueues) (\<lambda>e. if e = CancelledError then pret RNone else praise e)) (\<lambda>r.
     let blobs = (case r of RBlobs bs \<Rightarrow> bs | _ \<Rightarrow> []);
         chunks = dn_chunks (drain blobs \<lparr>dn_chunks = [], dn_delivered = []\<rparr>)
     in plift (\<lambda>s. case assemble_run_data (ct_clusters (en_controller en)) chunks (rr_data (current_run s)) of
          (x, d) \<Rightarrow> (x, change_run (\<lambda>r. r\<lparr>rr_data := d\<rparr>) s)))"

definition run_body :: "env \<Rightarrow> (device_connection \<times> path list) list \<Rightarrow> unit sess" where
  "run_body en ctp =
     pbind (plift (eval_st (\<lambda>s. Inr (start_command (current_run s))))) (\<lambda>cmd.
     pbind (pbind (gather cmd (filter (\<lambda>c. c \<in> set (map fst ctp)) (en_order en))) (\<lambda>results.
        pfor results raise_on_error)) (\<lambda>_.
     pbind (perform StartDrain) (\<lambda>_.
     pbind (wait_for ctp TAKE_OFF) (\<lambda>_.
     pfinally
       (pbind (wait_for ctp DONE) (\<lambda>_. query_overload (fst (last ctp))))
       (collect_data en)))))"

definition callbacks :: "native_call \<Rightarrow> (device_connection \<times> path list) list \<Rightarrow> unit sess" where
  "callbacks k ctp = pfor ctp (\<lambda>(c, _). need_control c (pbind (native c k) (\<lambda>_. pret ())))"

definition involved :: "env \<Rightarrow> run_request \<Rightarrow> path list" where
  "involved en rq =
     (let all_paths = map fst (mg_connections (ct_manager (en_controller en)))
      in case rq_entities rq of None \<Rightarrow> all_paths | Some E \<Rightarrow> filter (\<lambda>p. p \<in> E) all_paths)"

definition execute_run :: "env \<Rightarrow> run_request \<Rightarrow> unit sess" where
  "execute_run en rq =
     pbind (plift (modify (\<lambda>s. s\<lparr>se_registered := se_registered s @ [new_run (en_run_id en (length (se_registered s))) rq]\<rparr>))) (\<lambda>_.
     if involved en rq = [] then praise ValueError else
     pbind (plift (eval_st (\<lambda>_. sync_master (ct_carriers (en_controller en))))) (\<lambda>master.
     pbind (plift (modify (change_run (\<lambda>r. r\<lparr>rr_sync_master := Some master, rr_sync_group := 0\<rparr>)))) (\<lambda>_.
     pbind (plift (\<lambda>s. case new_tracker (involved en rq) of (x, t) \<Rightarrow> (x, change_run (\<lambda>r. r\<lparr>rr_tracker := t\<rparr>) s))) (\<lambda>_.
     pbind (plift (eval_st (\<lambda>_. conn_to_paths (ct_manager (en_controller en)) (involved en rq)))) (\<lambda>ctp.
     pbind (callbacks RegisterCallback ctp) (\<lambda>_.
     pfinally (run_body en ctp) (callbacks UnregisterCallback ctp)))))))"

section \<open>Execution of a pipeline\<close>

definition execute_command :: "env \<Rightarrow> command \<Rightarrow> unit sess" where
  "execute_command en c =
     (case c of
        SetConfigCommand m \<Rightarrow> execute_set_config en m
      | CalibrateCommand leader math gain offset \<Rightarrow> execute_calibrate en leader math gain offset
      | RunCommand rq \<Rightarrow> pbind (execute_run en rq) (\<lambda>_. plift (modify (\<lambda>s. s\<lparr>se_runs := se_runs s @ [current_run s]\<rparr>)))
      | FirmwareUpdateCommand binary sha \<Rightarrow> execute_upload en binary sha
      | ResetCommand keep sync overload circuit \<Rightarrow> execute_reset en keep sync overload circuit)"

text \<open>\<open>_run_pipeline\<close>, once the lock is held.\<close>

definition run_pipeline :: "env \<Rightarrow> unit sess" where
  "run_pipeline en s =
     (if se_executed s then praise RuntimeError s
      else pfor (se_pipeline s) (execute_command en) (s\<lparr>se_executed := True\<rparr>))"

section \<open>Traces of requests\<close>

lemmas proc_defs = pbind_def pcatch_def pret_def praise_def plift_def pcall_def

lemma pbind_plift:
  "pbind (plift m) f s = (case m s of (Inl e, s1) \<Rightarrow> Done (Inl e, s1) | (Inr a, s1) \<Rightarrow> f a s1)"
  by (simp add: pbind_def plift_def split: prod.splits sum.splits)

lemma perform_eq: "perform k s = Await k (\<lambda>r. Done (case raised r of None \<Rightarrow> Inr r | Some e \<Rightarrow> Inl e, s))"
  by (simp add: perform_def proc_defs fun_eq_iff split: option.splits)

lemma native_eq:
  "native c k s =
     (if dc_control c then Await (OnChannel (dc_id c) k) (\<lambda>r. Done (case raised r of None \<Rightarrow> Inr r | Some e \<Rightarrow> Inl e, s))
      else Done (Inl AttributeError, s))"
  by (simp add: native_def perform_eq praise_def)

definition result_of :: "(reply \<Rightarrow> result) \<Rightarrow> reply \<Rightarrow> result res" where
  "result_of f r = (case raised r of None \<Rightarrow> Inr (f r) | Some e \<Rightarrow> if e = RuntimeError then Inr Failure else Inl e)"

lemma as_result_eq:
  "as_result f c k s =
     (if dc_control c then Await (OnChannel (dc_id c) k) (\<lambda>r. Done (result_of f r, s)) else Done (Inl AttributeError, s))"
  by (simp add: as_result_def native_eq proc_defs result_of_def fun_eq_iff split: option.splits)

text \<open>A request followed by \<open>raise_on_error\<close>: one call; it returns exactly when the result is a success.\<close>

definition checked :: "(reply \<Rightarrow> result) \<Rightarrow> reply \<Rightarrow> unit res" where
  "checked f r = rbind (result_of f r) (\<lambda>x. case x of Success \<Rightarrow> Inr () | Failure \<Rightarrow> Inl RuntimeError)"

lemma checked_eq:
  "pbind (as_result f c k) raise_on_error s =
     (if dc_control c then Await (OnChannel (dc_id c) k) (\<lambda>r. Done (checked f r, s)) else Done (Inl AttributeError, s))"
  by (simp add: as_result_eq proc_defs raise_on_error_def checked_def fun_eq_iff rbind_def split: sum.splits result.splits)

lemma trace_single: "exchanges (Await k (\<lambda>r. Done (g r))) l y \<longleftrightarrow> (\<exists>r. l = [(k, r)] \<and> y = g r)"
  by (auto split: list.splits)

lemma trace_checked:
  assumes "dc_control c"
  shows "exchanges (pbind (as_result f c k) raise_on_error s) l (x, s') \<longleftrightarrow>
    s' = s \<and> (\<exists>r. l = [(OnChannel (dc_id c) k, r)] \<and> x = checked f r)"
  unfolding checked_eq if_P [OF assms] trace_single by auto

lemma checked_simple: "checked (\<lambda>_. Success) r = Inr () \<longleftrightarrow> raised r = None"
  by (auto simp: checked_def result_of_def split: option.splits if_splits)

lemma checked_module: "checked (\<lambda>r. if r = RBool True then Success else Failure) r = Inr () \<longleftrightarrow> r = RBool True"
  by (auto simp: checked_def result_of_def raised_def split: option.splits if_splits reply.splits)

text \<open>Loops: what every successful turn establishes, and what no turn does.\<close>

lemma pfor_success:
  assumes "exchanges (pfor cs f s) l (Inr (), s')" and "c \<in> set cs"
    and "\<And>s l s'. exchanges (f c s) l (Inr (), s') \<Longrightarrow> \<exists>a \<in> set l. P a"
  shows "\<exists>a \<in> set l. P a"
  using assms(1,2)
proof (induction cs arbitrary: s l)
  case (Cons d cs)
  then obtain l1 l2 s1 where l: "l = l1 @ l2" "exchanges (f d s) l1 (Inr (), s1)" "exchanges (pfor cs f s1) l2 (Inr (), s')"
    unfolding trace_pfor_Cons by auto
  show ?case
  proof (cases "c = d")
    case True
    then show ?thesis using assms(3) [of s l1 s1] l by auto
  next
    case False
    then show ?thesis using Cons.IH [OF l(3)] Cons.prems(2) l(1) by auto
  qed
qed simp

text \<open>The calls of the requests.\<close>

definition calls_in :: "native_call set \<Rightarrow> call \<times> reply \<Rightarrow> bool" where
  "calls_in K a \<longleftrightarrow> (\<exists>i k. fst a = OnChannel i k \<and> k \<in> K)"

lemma only_perform [only_intro]: "(\<And>r. Q (k, r)) \<Longrightarrow> only Q (perform k)"
  unfolding perform_def by (intro only_intro)

lemma only_native [only_intro]: "(\<And>r. Q (OnChannel (dc_id c) k, r)) \<Longrightarrow> only Q (native c k)"
  unfolding native_def by (intro only_intro)

lemma only_requests [only_intro]:
  "(\<And>r. Q (OnChannel (dc_id c) k, r)) \<Longrightarrow> only Q (simple_request c k)"
  "(\<And>r. Q (OnChannel (dc_id c) (UpdateBegin n sha), r)) \<Longrightarrow> only Q (update_begin c n sha)"
  "(\<And>r. Q (OnChannel (dc_id c) GetOverload, r)) \<Longrightarrow> only Q (overload_status_request c)"
  "(\<And>r. Q (OnChannel (dc_id c) Reconnect, r)) \<Longrightarrow> (\<And>r. Q (OnChannel (dc_id c) CancelReconnect, r)) \<Longrightarrow> only Q (reconnect_request c)"
  unfolding simple_request_def as_result_def update_begin_def overload_status_request_def reconnect_request_def
  by (intro only_intro; assumption)+

lemma only_raise_on_error [only_intro]: "only Q (raise_on_error r)"
  by (cases r) (auto simp: raise_on_error_def intro!: only_intro)

lemma only_need_control [only_intro]: "only Q m \<Longrightarrow> only Q (need_control c m)"
  unfolding need_control_def by (intro only_intro)

section \<open>Configuration\<close>

lemma pfor_requests:
  assumes "exchanges (pfor cs (\<lambda>c. need_control c (pbind (as_result f c k) raise_on_error)) s) l (x, s')"
    and "\<forall>c \<in> set cs. dc_control c"
  shows "s' = s \<and> map fst l = map (\<lambda>c. OnChannel (dc_id c) k) (take (length l) cs) \<and>
    (x = Inr () \<longleftrightarrow> length l = length cs \<and> (\<forall>a \<in> set l. checked f (snd a) = Inr ())) \<and>
    (\<forall>a \<in> set (butlast l). checked f (snd a) = Inr ()) \<and>
    (x \<noteq> Inr () \<longrightarrow> l \<noteq> [] \<and> x = checked f (snd (last l)))"
  using assms
proof (induction cs arbitrary: s l)
  case Nil
  then show ?case by (simp add: pret_def)
next
  case (Cons c cs)
  have step: "exchanges (need_control c (pbind (as_result f c k) raise_on_error) s1) l1 (y, s2) \<longleftrightarrow>
      s2 = s1 \<and> (\<exists>r. l1 = [(OnChannel (dc_id c) k, r)] \<and> y = checked f r)" for s1 l1 y s2
    using Cons.prems(2) by (simp add: need_control_def trace_checked)
  from Cons.prems(1) consider e r where "x = Inl e" "s' = s" "l = [(OnChannel (dc_id c) k, r)]" "checked f r = Inl e"
    | l2 r where "l = (OnChannel (dc_id c) k, r) # l2" "checked f r = Inr ()"
        "exchanges (pfor cs (\<lambda>c. need_control c (pbind (as_result f c k) raise_on_error)) s) l2 (x, s')"
    unfolding trace_pfor_Cons step by fastforce
  then show ?case
  proof cases
    case 1
    then show ?thesis by auto
  next
    case 2
    note IH = Cons.IH [OF 2(3)]
    show ?thesis
    proof (cases "l2 = []")
      case True
      then show ?thesis using IH 2 Cons.prems(2) by auto
    next
      case False
      then show ?thesis using IH 2 Cons.prems(2) by auto
    qed
  qed
qed

lemma set_config_trace:
  assumes "exchanges (execute_set_config en m s) l (x, s')" and "\<forall>c \<in> set (en_order en). dc_control c"
  shows "s' = s \<and> map fst l = map (\<lambda>c. OnChannel (dc_id c) (SetModule m)) (take (length l) (en_order en)) \<and>
    (\<forall>a \<in> set (butlast l). snd a = RBool True) \<and>
    (x = Inr () \<longleftrightarrow> length l = length (en_order en) \<and> (\<forall>a \<in> set l. snd a = RBool True)) \<and>
    (x \<noteq> Inr () \<longrightarrow> l \<noteq> [] \<and> snd (last l) \<noteq> RBool True)"
proof -
  let ?f = "\<lambda>r. if r = RBool True then Success else Failure"
  have "s' = s \<and> map fst l = map (\<lambda>c. OnChannel (dc_id c) (SetModule m)) (take (length l) (en_order en)) \<and>
    (x = Inr () \<longleftrightarrow> length l = length (en_order en) \<and> (\<forall>a \<in> set l. checked ?f (snd a) = Inr ())) \<and>
    (\<forall>a \<in> set (butlast l). checked ?f (snd a) = Inr ()) \<and>
    (x \<noteq> Inr () \<longrightarrow> l \<noteq> [] \<and> x = checked ?f (snd (last l)))"
    using assms unfolding execute_set_config_def set_module_request_def by (rule pfor_requests)
  then show ?thesis
    unfolding checked_module by (metis checked_module)
qed

text \<open>
  A configuration is sent once to every connection. \<open>set_config\<close> visits the unique connections in
  order, sends each the same module in one call, stops at the first one that does not accept it, and
  returns exactly when all of them have accepted; the session is not changed.
\<close>

theorem config_sent_once:
  assumes "exchanges (execute_set_config en m s) l (x, s')" and "\<forall>c \<in> set (en_order en). dc_control c"
  shows "s' = s \<and> map fst l = map (\<lambda>c. OnChannel (dc_id c) (SetModule m)) (take (length l) (en_order en)) \<and>
    (\<forall>a \<in> set (butlast l). snd a = RBool True) \<and>
    (x = Inr () \<longleftrightarrow> length l = length (en_order en) \<and> (\<forall>a \<in> set l. snd a = RBool True)) \<and>
    (x \<noteq> Inr () \<longrightarrow> l \<noteq> [] \<and> snd (last l) \<noteq> RBool True)"
  using assms by (rule set_config_trace)

section \<open>Firmware update\<close>

definition said :: "native_call \<Rightarrow> device_connection \<Rightarrow> call \<times> reply \<Rightarrow> bool" where
  "said k c a \<longleftrightarrow> fst a = OnChannel (dc_id c) k \<and> raised (snd a) = None"

lemma checked_success:
  assumes "exchanges (pbind (simple_request c k) raise_on_error s) l (Inr (), s')"
  shows "\<exists>a \<in> set l. said k c a"
proof -
  have "dc_control c"
    using assms unfolding simple_request_def checked_eq by (auto split: if_splits)
  then obtain r where "l = [(OnChannel (dc_id c) k, r)]" "checked (\<lambda>_. Success) r = Inr ()"
    using assms unfolding simple_request_def by (auto simp: trace_checked)
  then show ?thesis by (simp add: said_def checked_simple)
qed

lemma upload_to_success:
  assumes "exchanges (upload_to binary sha c s) l (Inr (), s')"
  shows "\<exists>a \<in> set l. \<exists>chunk. said (UpdateWrite (length binary) chunk binary) c a"
proof -
  obtain l1 l2 chunk s1 where "l = l1 @ l2"
      "exchanges (pbind (simple_request c (UpdateWrite (length binary) chunk binary)) raise_on_error s1) l2 (Inr (), s')"
    using assms unfolding upload_to_def trace_pbind [of "update_begin c (length binary) sha"] by blast
  then show ?thesis using checked_success by fastforce
qed

definition upload_calls :: "byte list \<Rightarrow> byte list \<Rightarrow> native_call set" where
  "upload_calls binary sha = insert (UpdateBegin (length binary) sha) (range (\<lambda>chunk. UpdateWrite (length binary) chunk binary))"

lemma upload_to_calls: "only (calls_in (upload_calls binary sha)) (upload_to binary sha c)"
  unfolding upload_to_def by (intro only_intro) (auto simp: calls_in_def upload_calls_def)

lemma request_calls: "only (calls_in {k}) (pbind (simple_request c k) raise_on_error)"
  by (intro only_intro) (simp add: calls_in_def)

definition written :: "byte list \<Rightarrow> device_connection \<Rightarrow> call_log \<Rightarrow> bool" where
  "written binary c l \<longleftrightarrow> (\<exists>a \<in> set l. \<exists>chunk. said (UpdateWrite (length binary) chunk binary) c a)"

definition answered :: "native_call \<Rightarrow> device_connection \<Rightarrow> call_log \<Rightarrow> bool" where
  "answered k c l \<longleftrightarrow> (\<exists>a \<in> set l. said k c a)"

text \<open>The three phases, told apart by their calls.\<close>

definition phased :: "env \<Rightarrow> byte list \<Rightarrow> byte list \<Rightarrow> call_log \<Rightarrow> call_log \<Rightarrow> call_log \<Rightarrow> bool" where
  "phased en binary sha la lb lc \<longleftrightarrow>
     (\<forall>a \<in> set la. calls_in (upload_calls binary sha) a) \<and> (\<forall>a \<in> set lb. calls_in {UpdateVerify} a) \<and>
     (\<forall>a \<in> set lc. calls_in {UpdateCommit} a) \<and>
     (lc \<noteq> [] \<longrightarrow> (\<forall>c \<in> set (en_order en). written binary c la \<and> answered UpdateVerify c lb))"

lemma upload_phases_split:
  assumes "exchanges (upload_phases en binary sha s) l (x, s')"
  shows "\<exists>la lb lc. l = la @ lb @ lc \<and> phased en binary sha la lb lc \<and>
    (x = Inr () \<longrightarrow> (\<forall>c \<in> set (en_order en). answered UpdateCommit c lc))"
proof -
  let ?up = "pfor (en_order en) (upload_to binary sha)"
  let ?req = "\<lambda>k. pfor (en_order en) (\<lambda>c. pbind (simple_request c k) raise_on_error)"
  have up: "\<forall>a \<in> set l. calls_in (upload_calls binary sha) a" if "exchanges (?up s) l y" for l y s
    using only_pfor [OF upload_to_calls] that by (rule onlyD)
  have req: "\<forall>a \<in> set l. calls_in {k} a" if "exchanges (?req k s) l y" for l y k s
    using only_pfor [OF request_calls] that by (rule onlyD)
  have ok: "answered k c l" if "exchanges (?req k s) l (Inr (), s')" "c \<in> set (en_order en)" for l k s s' c
    unfolding answered_def using that checked_success by (rule pfor_success)
  from assms show ?thesis
    unfolding upload_phases_def trace_pbind
  proof (elim disjE exE conjE)
    fix e assume "exchanges (?up s) l (Inl e, s')" "x = Inl e"
    then show ?thesis
      using up by (intro exI [of _ l] exI [of _ "[]"]) (simp add: phased_def)
  next
    fix l1 l2 u s1 e
    assume "l = l1 @ l2" "exchanges (?up s) l1 (Inr u, s1)" "exchanges (?req UpdateVerify s1) l2 (Inl e, s')" "x = Inl e"
    then show ?thesis
      using up [of s l1] req [of UpdateVerify s1 l2] by (intro exI [of _ l1] exI [of _ l2] exI [of _ "[]"]) (simp add: phased_def)
  next
    fix l1 l2 u s1 l3 l4 v s2
    assume l: "l = l1 @ l2" "exchanges (?up s) l1 (Inr u, s1)" "l2 = l3 @ l4"
      "exchanges (?req UpdateVerify s1) l3 (Inr v, s2)" "exchanges (?req UpdateCommit s2) l4 (x, s')"
    have "written binary c l1" if "c \<in> set (en_order en)" for c
      unfolding written_def using l(2) [unfolded unit_eq [of u]] that upload_to_success by (rule pfor_success)
    moreover have "answered UpdateVerify c l3" if "c \<in> set (en_order en)" for c
      using ok [of UpdateVerify s1 l3] l(4) that by simp
    ultimately have "phased en binary sha l1 l3 l4"
      using up [OF l(2)] req [OF l(4)] req [OF l(5)] by (simp add: phased_def)
    then show ?thesis
      using l ok [of UpdateCommit s2 l4] by (intro exI [of _ l1] exI [of _ l3] exI [of _ l4]) auto
  qed
qed

lemma prefix_before:
  assumes "xs @ ys = l1 @ a # l2" and "a \<notin> set xs"
  shows "\<exists>zs. l1 = xs @ zs"
proof -
  have "length xs \<le> length l1"
  proof (rule ccontr)
    assume *: "\<not> length xs \<le> length l1"
    then have "(xs @ ys) ! length l1 = xs ! length l1" by (simp add: nth_append)
    then have "a = xs ! length l1" using assms(1) by simp
    with * assms(2) show False by (metis not_le nth_mem)
  qed
  then have "l1 = xs @ take (length l1 - length xs) ys"
    using assms(1) by (metis append_eq_conv_conj take_append take_all)
  then show ?thesis by blast
qed

lemma recovery_calls:
  "only (calls_in {UpdateAbort, IsConnected, Reconnect, CancelReconnect, DataReconnect}) (pfor cs abort_on)"
  "only (calls_in {UpdateAbort, IsConnected, Reconnect, CancelReconnect, DataReconnect}) (pfor cs reconnect_after)"
  unfolding abort_on_def reconnect_after_def by (intro only_intro; simp add: calls_in_def)+

lemma upload_split:
  assumes "exchanges (execute_upload en binary sha s) l (x, s')"
  shows "\<exists>la lb lc ld. l = la @ lb @ lc @ ld \<and> phased en binary sha la lb lc \<and>
    (\<forall>a \<in> set ld. calls_in {UpdateAbort, IsConnected, Reconnect, CancelReconnect, DataReconnect} a) \<and>
    ((\<forall>c \<in> set (en_order en). answered UpdateCommit c lc) \<or>
     (\<exists>e s1 s2 y. x = Inl e \<and> exchanges (pfor (en_order en) abort_on s1) ld (y, s2)))"
proof -
  note ab = onlyD [OF recovery_calls(1)] and rc = onlyD [OF recovery_calls(2)]
  let ?ph = "upload_phases en binary sha"
  let ?h = "\<lambda>e. pbind (pfor (en_order en) abort_on) (\<lambda>_. praise e)"
  have h: "\<exists>y s2. exchanges (pfor (en_order en) abort_on s1) l (y, s2) \<and> (\<exists>e'. x = Inl e')" if "exchanges (?h e s1) l (x, s')" for e s1 l s' and x :: "unit res"
    using that by (auto simp: trace_pbind trace_praise)
  from assms consider e l1 l2 s1 where "x = Inl e" "l = l1 @ l2" "exchanges (?ph s) l1 (Inl e, s1) \<or> (\<exists>e'. exchanges (?ph s) l1 (Inl e', s1))"
      "\<exists>y s2. exchanges (pfor (en_order en) abort_on s1) l2 (y, s2)"
    | l1 l2 s1 where "l = l1 @ l2" "exchanges (?ph s) l1 (Inr (), s1)" "exchanges (pfor (en_order en) reconnect_after s1) l2 (x, s')"
    unfolding execute_upload_def trace_pbind [of "pcatch ?ph ?h"] trace_pcatch
    by (elim disjE exE conjE) (use h in fastforce)+
  then show ?thesis
  proof cases
    case 1
    then obtain e' where "exchanges (?ph s) l1 (Inl e', s1)" by blast
    from upload_phases_split [OF this] obtain la lb lc where "l1 = la @ lb @ lc" "phased en binary sha la lb lc" by blast
    with 1 ab show ?thesis
      by (intro exI [of _ la] exI [of _ lb] exI [of _ lc] exI [of _ l2]) auto
  next
    case 2
    from upload_phases_split [OF 2(2)] obtain la lb lc where "l1 = la @ lb @ lc" "phased en binary sha la lb lc"
      "\<forall>c \<in> set (en_order en). answered UpdateCommit c lc" by auto
    with 2 rc [OF 2(3)] show ?thesis
      by (intro exI [of _ la] exI [of _ lb] exI [of _ lc] exI [of _ l2]) auto
  qed
qed

text \<open>
  C4. No device commits an update before all of them are ready. Whenever the session tells a device to
  commit, the complete image has been written to every connected device without an error and every
  one of them has verified it, whatever the devices answer and wherever the update is interrupted.
\<close>

theorem commit_after_verify:
  assumes "exchanges (execute_upload en binary sha s) l (x, s')" and "l = l1 @ (OnChannel i UpdateCommit, r) # l2"
  shows "\<forall>c \<in> set (en_order en). written binary c l1 \<and> answered UpdateVerify c l1"
proof -
  obtain la lb lc ld where l: "l = la @ lb @ lc @ ld" "phased en binary sha la lb lc"
      "\<forall>a \<in> set ld. calls_in {UpdateAbort, IsConnected, Reconnect, CancelReconnect, DataReconnect} a"
    using upload_split [OF assms(1)] by blast
  let ?a = "(OnChannel i UpdateCommit, r)"
  have no: "?a \<notin> set (la @ lb)" "?a \<notin> set ld"
    using l(2,3) by (auto simp: phased_def calls_in_def upload_calls_def)
  have "?a \<in> set l" using assms(2) by simp
  with no l(1) have "lc \<noteq> []" by auto
  then have "\<forall>c \<in> set (en_order en). written binary c la \<and> answered UpdateVerify c lb"
    using l(2) by (simp add: phased_def)
  moreover obtain zs where "l1 = (la @ lb) @ zs"
    using prefix_before [OF _ no(1), of "lc @ ld" l1 l2] assms(2) l(1) by auto
  ultimately show ?thesis
    unfolding written_def answered_def by (metis UnCI set_append)
qed

lemma aborts_sent:
  assumes "exchanges (pfor cs abort_on s) l (y, s')" and "\<forall>c \<in> set cs. dc_control c"
  shows "(\<forall>c \<in> set cs. OnChannel (dc_id c) UpdateAbort \<in> fst ` set l) \<or> (\<exists>i. (OnChannel i UpdateAbort, RRaise CancelledError) \<in> set l)"
  using assms
proof (induction cs arbitrary: s l)
  case (Cons c cs)
  have eq: "abort_on c s1 = Await (OnChannel (dc_id c) UpdateAbort)
         (\<lambda>r. Done (if raised r = Some CancelledError then Inl CancelledError else Inr (), s1))" for s1
    using Cons.prems(2)
    by (auto simp: abort_on_def simple_request_def as_result_eq proc_defs result_of_def fun_eq_iff split: option.splits)
  have rais: "raised r = Some CancelledError \<Longrightarrow> r = RRaise CancelledError" for r
    by (simp add: raised_def split: reply.splits)
  from Cons.prems(1) consider r where "l = [(OnChannel (dc_id c) UpdateAbort, r)]" "raised r = Some CancelledError"
    | r l2 where "l = (OnChannel (dc_id c) UpdateAbort, r) # l2" "exchanges (pfor cs abort_on s) l2 (y, s')"
    unfolding trace_pfor_Cons eq trace_single by (fastforce split: if_splits)
  then show ?case
  proof cases
    case 1
    then show ?thesis using rais by auto
  next
    case 2
    then show ?thesis using Cons.IH [OF 2(2)] Cons.prems(2) by fastforce
  qed
qed simp

text \<open>
  C29. An update is completed or aborted everywhere. Either every connected device has confirmed its
  commit, or the update raises and an abort has been sent to every device, unless the abort itself
  was cancelled.
\<close>

theorem commit_or_abort:
  assumes "exchanges (execute_upload en binary sha s) l (x, s')" and "\<forall>c \<in> set (en_order en). dc_control c"
  shows "(\<forall>c \<in> set (en_order en). answered UpdateCommit c l) \<or>
    (\<exists>e. x = Inl e) \<and>
    ((\<forall>c \<in> set (en_order en). OnChannel (dc_id c) UpdateAbort \<in> fst ` set l) \<or>
     (\<exists>i. (OnChannel i UpdateAbort, RRaise CancelledError) \<in> set l))"
proof -
  obtain la lb lc ld where l: "l = la @ lb @ lc @ ld"
      "(\<forall>c \<in> set (en_order en). answered UpdateCommit c lc) \<or>
       (\<exists>e s1 s2 y. x = Inl e \<and> exchanges (pfor (en_order en) abort_on s1) ld (y, s2))"
    using upload_split [OF assms(1)] by blast
  from l(2) show ?thesis
  proof
    assume "\<forall>c \<in> set (en_order en). answered UpdateCommit c lc"
    then show ?thesis by (auto simp: l(1) answered_def)
  next
    assume "\<exists>e s1 s2 y. x = Inl e \<and> exchanges (pfor (en_order en) abort_on s1) ld (y, s2)"
    then obtain e s1 s2 y where "x = Inl e" "exchanges (pfor (en_order en) abort_on s1) ld (y, s2)" by blast
    with aborts_sent [OF this(2) assms(2)] show ?thesis by (auto simp: l(1))
  qed
qed

lemma upload_success:
  assumes "exchanges (execute_upload en binary sha s) l (Inr (), s')" and "c \<in> set (en_order en)"
  shows "written binary c l \<and> answered UpdateVerify c l \<and> answered UpdateCommit c l"
proof -
  obtain la lb lc ld where l: "l = la @ lb @ lc @ ld" "phased en binary sha la lb lc"
      "\<forall>c \<in> set (en_order en). answered UpdateCommit c lc"
    using upload_split [OF assms(1)] by blast
  have commit: "answered UpdateCommit c lc" using l(3) assms(2) by blast
  then have "lc \<noteq> []" by (auto simp: answered_def)
  then have "written binary c la" "answered UpdateVerify c lb"
    using l(2) assms(2) by (simp_all add: phased_def)
  with commit l(1) show ?thesis
    unfolding written_def answered_def by auto
qed

text \<open>
  C16. What a firmware file describes is what every device commits. When a session to which the name of
  a well-formed firmware file was given executes without an error, the flash image that the records
  of the file describe has been written to every connected device, and every one of them has
  verified and committed it.
\<close>

theorem firmware_delivered:
  assumes "files f = Some (hex_text xs @ ws @ hex_line upper HexEof @ rest)"
    and "records_ok 0 (source_records xs)" and "spaces_ok xs" and "set ws \<subseteq> HEX_WHITESPACE"
    and "set_firmware files sha256 (FirmwareFile f) s = Some (Inr (), s1)"
    and "exchanges (run_pipeline en s1) l (Inr (), s')"
  shows "\<forall>c \<in> set (en_order en). written (flash_image (source_records xs)) c l \<and> answered UpdateVerify c l \<and> answered UpdateCommit c l"
proof
  fix c assume c: "c \<in> set (en_order en)"
  let ?b = "flash_image (source_records xs)"
  let ?cmd = "FirmwareUpdateCommand ?b (sha256 ?b)"
  have "s1 = append_command ?cmd s"
    using assms(5) hex2bin_flash [OF assms(2-4), of upper rest]
    by (auto simp: set_firmware_def read_to_bin_def assms(1) lift_res_def eval_st_def sbind_def modify_def split: if_splits)
  then have cmd: "?cmd \<in> set (se_pipeline s1)" by (simp add: append_command_def)
  have ex: "exchanges (pfor (se_pipeline s1) (execute_command en) (s1\<lparr>se_executed := True\<rparr>)) l (Inr (), s')"
    using assms(6) by (auto simp: run_pipeline_def praise_def split: if_splits)
  have up: "written ?b c l \<and> answered UpdateVerify c l \<and> answered UpdateCommit c l"
    if "exchanges (execute_command en ?cmd s) l (Inr (), s')" for s l s'
    using upload_success [OF _ c] that by (simp add: execute_command_def)
  show "written ?b c l \<and> answered UpdateVerify c l \<and> answered UpdateCommit c l"
    unfolding written_def answered_def
    by (intro conjI pfor_success [OF ex cmd]) (auto dest!: up simp: written_def answered_def)
qed

section \<open>Runs\<close>

lemma current_change [simp]: "current_run (change_run f s) = f (current_run s)"
  by (simp add: current_run_def change_run_def)

text \<open>
  Where a report comes from. A message without an entity is a report about the carriers of the
  connection it arrives on, a message with an entity one about the carrier of that entity. \<open>told\<close>: among
  the messages that arrived while the session waited is one, for this run, that reports the state
  for the carrier.
\<close>

definition reports_state :: "manager \<Rightarrow> string \<Rightarrow> path \<Rightarrow> run_state \<Rightarrow> nat \<times> state_change \<Rightarrow> bool" where
  "reports_state m run_id p st = (\<lambda>(i, msg).
     sc_run_id msg = run_id \<and> run_state_from_pb (sc_new msg) = st \<and>
     (if sc_entity msg = [] then \<exists>c. get_connection p m = Inr c \<and> dc_id c = i
      else \<exists>q. path_parse redac_schema (\<lambda>_. None) (sc_entity msg) = Inr q \<and> path_to_root q = p))"

definition told :: "manager \<Rightarrow> string \<Rightarrow> path \<Rightarrow> run_state \<Rightarrow> call_log \<Rightarrow> bool" where
  "told m run_id p st l \<longleftrightarrow>
     (\<exists>batches ms x. (WaitMessages, RMessages batches) \<in> set l \<and> ms \<in> set batches \<and> x \<in> set ms \<and>
        reports_state m run_id p st x)"

text \<open>Each connection stands only for its own carriers, all of them carriers of the run.\<close>

definition own_paths :: "manager \<Rightarrow> path list \<Rightarrow> (device_connection \<times> path list) list \<Rightarrow> bool" where
  "own_paths m ps ctp \<longleftrightarrow> (\<forall>(c, pl) \<in> set ctp. \<forall>p \<in> set pl. p \<in> set ps \<and> get_connection p m = Inr c)"

lemma told_mono: "told m run_id p st l \<Longrightarrow> set l \<subseteq> set l' \<Longrightarrow> told m run_id p st l'"
  by (auto simp: told_def)

lemma turn_of_member:
  assumes "(pl, msg) \<in> set (turn_of ctp ms)"
  obtains i c where "(i, msg) \<in> set ms" and "(c, pl) \<in> set ctp" and "dc_id c = i"
proof -
  obtain i where i: "(i, msg) \<in> set ms" "\<exists>c. find (\<lambda>(c, ps). dc_id c = i) ctp = Some (c, pl)"
    using assms by (auto simp: turn_of_def List.map_filter_def split: option.splits)
  then obtain c where "(c, pl) \<in> set ctp" "dc_id c = i"
    by (metis (mono_tags, lifting) case_prodD find_Some_iff nth_mem)
  with i(1) show thesis by (rule that)
qed

lemma schedule_told:
  assumes "own_paths m ps ctp" and "(p, st) \<in> schedule_reports run_id ps (map (turn_of ctp) (arrived r))"
    and "(WaitMessages, r) \<in> set l"
  shows "told m run_id p st l"
proof -
  obtain ms pl msg where ms: "ms \<in> set (arrived r)" "(pl, msg) \<in> set (turn_of ctp ms)"
    and rep: "(p, st) \<in> set (reports_of run_id ps (pl, msg))"
    using assms(2) by (auto simp: schedule_reports_def)
  obtain batches where r: "r = RMessages batches" "ms \<in> set batches"
    using ms(1) by (cases r) (auto simp: arrived_def)
  obtain i c where i: "(i, msg) \<in> set ms" "(c, pl) \<in> set ctp" "dc_id c = i"
    using ms(2) by (rule turn_of_member)
  have "reports_state m run_id p st (i, msg)"
  proof (cases "sc_entity msg = []")
    case True
    then show ?thesis
      using rep i(2,3) assms(1) by (auto simp: reports_of_def reports_state_def own_paths_def split: if_splits)
  next
    case False
    then show ?thesis
      using rep by (cases "path_parse redac_schema (\<lambda>_. None) (sc_entity msg)")
        (auto simp: reports_of_def reports_state_def split: if_splits)
  qed
  with r i(1) assms(3) show ?thesis by (auto simp: told_def)
qed

lemma wait_for_eq:
  "wait_for ctp st s = Await WaitMessages (\<lambda>r. Done (case raised r of
     Some e \<Rightarrow> (Inl (if e = CancelledError then TimeoutError else e), s)
   | None \<Rightarrow> wait_run st (map (turn_of ctp) (arrived r)) s))"
  by (simp add: wait_for_def proc_defs fun_eq_iff split: option.splits)

lemma wait_for_told:
  assumes "exchanges (wait_for ctp st s) l (Inr (), s')" and "tracks ps E (rr_tracker (current_run s))" and "ps \<noteq> []"
    and "own_paths m ps ctp"
  obtains E' t where "s' = change_run (\<lambda>r. r\<lparr>rr_tracker := t\<rparr>) s" and "tracks ps E' t" and "reached_by_all ps st E'"
    and "\<And>p x. (p, x) \<in> E' \<Longrightarrow> (p, x) \<in> E \<or> told m (rr_id (current_run s)) p x l"
proof -
  let ?id = "rr_id (current_run s)"
  obtain r where r: "l = [(WaitMessages, r)]" "wait_run st (map (turn_of ctp) (arrived r)) s = (Inr (), s')"
    using assms(1) unfolding wait_for_eq trace_single by (auto split: option.splits)
  let ?sched = "map (turn_of ctp) (arrived r)"
  obtain t where w: "wait_all ?id st ?sched (rr_tracker (current_run s)) = (Inr (), t)"
    and s': "s' = change_run (\<lambda>r. r\<lparr>rr_tracker := t\<rparr>) s"
    using r(2) by (auto simp: wait_run_def split: prod.splits)
  have "\<forall>ms \<in> set ?sched. \<forall>(pl, msg) \<in> set ms. set pl \<subseteq> set ps"
    using assms(4) by (fastforce simp: own_paths_def elim!: turn_of_member)
  then obtain n where n: "tracks ps (E \<union> schedule_reports ?id ps (take n ?sched)) t"
      "Inr () = wait_result ps st (E \<union> schedule_reports ?id ps (take n ?sched))"
    using wait_all_tracks [OF assms(2,3) _ w] by metis
  have "reached_by_all ps st (E \<union> schedule_reports ?id ps (take n ?sched))"
    using n(2) by (auto simp: wait_result_def split: if_splits)
  moreover have "told m ?id p x l" if "(p, x) \<in> schedule_reports ?id ps (take n ?sched)" for p x
    using schedule_told [OF assms(4), of p x ?id r l] schedule_reports_take [of ?id ps n ?sched] that r(1) by auto
  ultimately show thesis
    using that [OF s' n(1)] by blast
qed

lemma send_all_trace:
  assumes "exchanges (send_all k cs s) l (x, s')" and "\<forall>c \<in> set cs. dc_control c"
  shows "s' = s \<and> x = Inr (map (\<lambda>a. result_of (\<lambda>_. Success) (snd a)) l) \<and> map fst l = map (\<lambda>c. OnChannel (dc_id c) (StartRun k)) cs"
  using assms
proof (induction cs arbitrary: s l x)
  case Nil
  then show ?case by (simp add: pret_def)
next
  case (Cons c cs)
  have first: "pcatch (pbind (start_run_request c k) (\<lambda>r. pret (Inr r))) (\<lambda>e. pret (Inl e)) s1 =
      Await (OnChannel (dc_id c) (StartRun k)) (\<lambda>r. Done (Inr (result_of (\<lambda>_. Success) r), s1))" for s1 :: session
    using Cons.prems(2) by (simp add: simple_request_def as_result_eq proc_defs fun_eq_iff split: sum.splits)
  obtain r l2 where l: "l = (OnChannel (dc_id c) (StartRun k), r) # l2"
    and rest: "exchanges (pbind (send_all k cs) (\<lambda>xs. pret (result_of (\<lambda>_. Success) r # xs)) s) l2 (x, s')"
    using Cons.prems(1) unfolding send_all.simps trace_pbind [of "pcatch _ _"] first trace_single by auto
  have total: "\<And>e. \<not> exchanges (send_all k cs s) l2 (Inl e, s')"
    using Cons.IH [of s l2] Cons.prems(2) by fastforce
  with rest obtain xs where "exchanges (send_all k cs s) l2 (Inr xs, s')" "x = Inr (result_of (\<lambda>_. Success) r # xs)"
    unfolding trace_pbind trace_pret by auto
  with Cons.IH [of s l2 "Inr xs"] Cons.prems(2) l show ?case by auto
qed

lemma rmap_id: "rmap (\<lambda>x. x) xs = Inr ys \<Longrightarrow> xs = map Inr ys"
  by (induction xs arbitrary: ys) (auto simp: rbind_eq_Inr_iff)

lemma raise_all: "exchanges (pfor rs raise_on_error s) l (x, s') \<Longrightarrow> l = [] \<and> s' = s \<and> (x = Inr () \<longleftrightarrow> (\<forall>r \<in> set rs. r = Success))"
proof (induction rs arbitrary: s l)
  case (Cons r rs)
  then show ?case
    by (cases r) (auto simp: trace_pfor_Cons raise_on_error_def trace_pret trace_praise simp del: pfor.simps)
qed (simp add: pret_def)

text \<open>The request to start the run reaches every involved connection; all accept, or the run ends here.\<close>

lemma start_trace:
  assumes "exchanges (pbind (gather k cs) (\<lambda>rs. pfor rs raise_on_error) s) l (x, s')" and "\<forall>c \<in> set cs. dc_control c"
  shows "s' = s \<and> map fst l = map (\<lambda>c. OnChannel (dc_id c) (StartRun k)) cs \<and> (x = Inr () \<longrightarrow> (\<forall>a \<in> set l. raised (snd a) = None))"
proof -
  have g: "s' = s \<and> map fst l = map (\<lambda>c. OnChannel (dc_id c) (StartRun k)) cs \<and>
      (\<forall>rs. x = Inr rs \<longrightarrow> map (\<lambda>a. result_of (\<lambda>_. Success) (snd a)) l = map Inr rs)"
    if "exchanges (gather k cs s) l (x, s')" for s l x s'
    using that unfolding gather_def trace_pbind trace_plift
  proof (elim disjE exE conjE)
    fix e assume "exchanges (send_all k cs s) l (Inl e, s')"
    from send_all_trace [OF this assms(2)] show ?thesis by simp
  next
    fix l1 l2 xs s1
    assume a: "l = l1 @ l2" "exchanges (send_all k cs s) l1 (Inr xs, s1)" "l2 = []" "(x, s') = eval_st (\<lambda>_. rmap (\<lambda>x. x) xs) s1"
    from send_all_trace [OF a(2) assms(2)] a show ?thesis
      by (auto simp: eval_st_def dest: rmap_id)
  qed
  from assms(1) show ?thesis
    unfolding trace_pbind [of "gather k cs"]
  proof (elim disjE exE conjE)
    fix e assume "x = Inl e" "exchanges (gather k cs s) l (Inl e, s')"
    with g show ?thesis by blast
  next
    fix l1 l2 rs s1
    assume l: "l = l1 @ l2" "exchanges (gather k cs s) l1 (Inr rs, s1)" "exchanges (pfor rs raise_on_error s1) l2 (x, s')"
    note gs = g [OF l(2)] and rs = raise_all [OF l(3)]
    have "raised (snd a) = None" if "x = Inr ()" "a \<in> set l1" for a
    proof -
      have "result_of (\<lambda>_. Success) (snd a) \<in> set (map Inr rs)"
        using gs that(2) by (metis (no_types, lifting) image_eqI list.set_map)
      then have "result_of (\<lambda>_. Success) (snd a) = Inr Success"
        using rs that(1) by auto
      then show ?thesis by (auto simp: result_of_def split: option.splits if_splits)
    qed
    with gs rs l(1) show ?thesis by auto
  qed
qed

lemma query_overload_trace:
  assumes "exchanges (query_overload c s) l (x, s')"
  shows "(\<exists>o'. s' = change_run (\<lambda>r. r\<lparr>rr_overloaded := o'\<rparr>) s) \<or> s' = s"
proof -
  have st: "overload_status_request c s = (if dc_control c then Await (OnChannel (dc_id c) GetOverload)
      (\<lambda>r. Done (case raised r of None \<Rightarrow> Inr (case r of RStatus g es \<Rightarrow> (g, es) | _ \<Rightarrow> (False, [])) | Some e \<Rightarrow> Inl e, s))
      else Done (Inl AttributeError, s))" for s :: session
    by (simp add: overload_status_request_def native_eq proc_defs fun_eq_iff split: option.splits)
  have same: "s1 = s" if "exchanges (overload_status_request c s) l (y, s1)" for l y s1
    using that unfolding st by (auto split: if_splits list.splits)
  from assms show ?thesis
    unfolding query_overload_def trace_pbind
    by (elim disjE exE conjE) (auto simp: trace_plift modify_def dest!: same)
qed

lemma collect_data_trace:
  assumes "exchanges (collect_data en s) l (x, s')"
  shows "(\<exists>d. s' = change_run (\<lambda>r. r\<lparr>rr_data := d\<rparr>) s) \<or> s' = s"
proof -
  let ?c = "pcatch (perform DrainQueues) (\<lambda>e. if e = CancelledError then pret RNone else praise e)"
  have c: "?c s = Await DrainQueues (\<lambda>r. Done (case raised r of None \<Rightarrow> Inr r
      | Some e \<Rightarrow> if e = CancelledError then Inr RNone else Inl e, s))" for s :: session
    by (simp add: perform_eq proc_defs fun_eq_iff split: option.splits)
  have same: "s1 = s" if "exchanges (?c s) l (y, s1)" for l y s1
    using that unfolding c trace_single by auto
  from assms show ?thesis
    unfolding collect_data_def trace_pbind [of ?c] Let_def
    by (elim disjE exE conjE) (auto simp: trace_plift dest!: same split: prod.splits)
qed

lemma run_body_success:
  assumes "exchanges (run_body en ctp s) l (Inr (), s')" and "\<forall>c \<in> fst ` set ctp. dc_control c"
    and "tracks ps {} (rr_tracker (current_run s))" and "ps \<noteq> []" and own: "own_paths m ps ctp"
  shows "involved_paths (rr_tracker (current_run s')) = ps \<and> all_reached DONE (rr_tracker (current_run s')) \<and>
    rr_id (current_run s') = rr_id (current_run s) \<and>
    (\<exists>l1 l2. l = l1 @ l2 \<and>
      (\<forall>c \<in> set (en_order en). c \<in> fst ` set ctp \<longrightarrow> (\<exists>a \<in> set l1. said (StartRun (start_command (current_run s))) c a)) \<and>
      (\<forall>p \<in> set ps. told m (rr_id (current_run s)) p DONE l2))"
proof -
  let ?cs = "filter (\<lambda>c. c \<in> set (map fst ctp)) (en_order en)"
  let ?cmd = "start_command (current_run s)"
  let ?start = "pbind (gather ?cmd ?cs) (\<lambda>results. pfor results raise_on_error)"
  let ?fin = "pfinally (pbind (wait_for ctp DONE) (\<lambda>_. query_overload (fst (last ctp)))) (collect_data en)"
  have "exchanges (pbind ?start (\<lambda>_. pbind (perform StartDrain) (\<lambda>_. pbind (wait_for ctp TAKE_OFF) (\<lambda>_. ?fin))) s) l (Inr (), s')"
    using assms(1) unfolding run_body_def trace_pbind [of "plift _"] trace_plift eval_st_def by auto
  then obtain l1 l2 u s1 where start: "exchanges (?start s) l1 (Inr u, s1)"
    and rest: "exchanges (pbind (perform StartDrain) (\<lambda>_. pbind (wait_for ctp TAKE_OFF) (\<lambda>_. ?fin)) s1) l2 (Inr (), s')" and l: "l = l1 @ l2"
    unfolding trace_pbind [of ?start] by auto
  have ctl: "\<forall>c \<in> set ?cs. dc_control c"
    using assms(2) by auto
  note st = start_trace [OF start [unfolded unit_eq [of u]] ctl]
  obtain l0 l3 l4 s2 v where w1: "exchanges (wait_for ctp TAKE_OFF s1) l3 (Inr v, s2)" and fin: "exchanges (?fin s2) l4 (Inr (), s')"
    and l2: "l2 = l0 @ l3 @ l4"
    using rest unfolding trace_pbind [of "perform _"] perform_eq trace_single trace_pbind [of "wait_for _ _"] by auto
  obtain l5 l6 s3 y z where l4: "l4 = l5 @ l6"
    and body: "exchanges (pbind (wait_for ctp DONE) (\<lambda>_. query_overload (fst (last ctp))) s2) l5 (y, s3)"
    and coll: "exchanges (collect_data en s3) l6 (z, s')" and yz: "Inr () = (case z of Inl e \<Rightarrow> Inl e | Inr _ \<Rightarrow> y)"
    using fin unfolding trace_pfinally by blast
  have "y = Inr ()" using yz by (auto split: sum.splits)
  then obtain l7 l8 s4 w where l5: "l5 = l7 @ l8" and w2: "exchanges (wait_for ctp DONE s2) l7 (Inr w, s4)"
    and q: "exchanges (query_overload (fst (last ctp)) s4) l8 (Inr (), s3)"
    using body unfolding trace_pbind [of "wait_for _ _"] by auto
  let ?id = "rr_id (current_run s)"
  obtain E t where t: "s2 = change_run (\<lambda>r. r\<lparr>rr_tracker := t\<rparr>) s1" "tracks ps E t"
    and E: "\<And>p x. (p, x) \<in> E \<Longrightarrow> told m ?id p x l2"
  proof (rule wait_for_told [OF w1 [unfolded unit_eq [of v]] _ assms(4) own])
    show "tracks ps {} (rr_tracker (current_run s1))"
      using assms(3) st by simp
  next
    fix E t
    assume *: "s2 = change_run (\<lambda>r. r\<lparr>rr_tracker := t\<rparr>) s1" "tracks ps E t"
      "\<And>p x. (p, x) \<in> E \<Longrightarrow> (p, x) \<in> {} \<or> told m (rr_id (current_run s1)) p x l3"
    have "told m ?id p x l2" if "(p, x) \<in> E" for p x
      using *(3) [OF that] st told_mono [of m ?id p x l3 l2] l2 by auto
    with *(1,2) show thesis by (rule that)
  qed
  have id2: "rr_id (current_run s2) = ?id" "rr_tracker (current_run s2) = t"
    using t(1) st by simp_all
  obtain E' t' where t': "s4 = change_run (\<lambda>r. r\<lparr>rr_tracker := t'\<rparr>) s2" "tracks ps E' t'" "reached_by_all ps DONE E'"
    and E': "\<And>p x. (p, x) \<in> E' \<Longrightarrow> (p, x) \<in> E \<or> told m ?id p x l7"
    using wait_for_told [OF w2 [unfolded unit_eq [of w]] _ assms(4) own] t(2) unfolding id2 by blast
  have finished: "told m ?id p DONE l2" if "p \<in> set ps" for p
  proof -
    have "(p, DONE) \<in> E \<or> told m ?id p DONE l7"
      using E' t'(3) that by (simp add: reached_by_all_def)
    then show ?thesis
      using E told_mono [of m ?id p DONE l7 l2] by (auto simp: l2 l4 l5)
  qed
  have same: "rr_tracker (current_run s') = t'" "rr_id (current_run s') = ?id"
    using collect_data_trace [OF coll] query_overload_trace [OF q] t(1) t'(1) st by auto
  have started: "\<exists>a \<in> set l1. said (StartRun ?cmd) c a" if "c \<in> set (en_order en)" "c \<in> fst ` set ctp" for c
  proof -
    have "OnChannel (dc_id c) (StartRun ?cmd) \<in> set (map fst l1)"
      using st that by auto
    then obtain a where "a \<in> set l1" "fst a = OnChannel (dc_id c) (StartRun ?cmd)" by auto
    then show ?thesis using st by (auto simp: said_def)
  qed
  have "involved_paths t' = ps \<and> all_reached DONE t'"
    using involved_tracks [OF t'(2)] tracks_decides(3) [OF t'(2) assms(4)] t'(3) by simp
  with same started finished l show ?thesis
    by (intro conjI exI [of _ l1] exI [of _ l2]) auto
qed

lemma callbacks_trace:
  assumes "exchanges (callbacks k ctp s) l (x, s')"
  shows "s' = s \<and> (\<forall>a \<in> set l. calls_in {k} a) \<and>
    (x = Inr () \<longrightarrow> map fst l = map (\<lambda>(c, _). OnChannel (dc_id c) k) ctp \<and> (\<forall>c \<in> fst ` set ctp. dc_control c)) \<and>
    ((\<forall>c \<in> fst ` set ctp. dc_control c) \<and> (\<forall>a \<in> set l. raised (snd a) = None) \<longrightarrow> x = Inr ())"
  using assms unfolding callbacks_def
proof (induction ctp arbitrary: s l)
  case Nil
  then show ?case by (simp add: pret_def)
next
  case (Cons cp ctp)
  obtain c ps where cp: "cp = (c, ps)" by fastforce
  let ?f = "\<lambda>(c, _). need_control c (pbind (native c k) (\<lambda>_. pret ()))"
  have f: "?f cp s1 = (if dc_control c then Await (OnChannel (dc_id c) k)
      (\<lambda>r. Done (case raised r of None \<Rightarrow> Inr () | Some e \<Rightarrow> Inl e, s1)) else Done (Inl NotImplementedError, s1))" for s1
    by (simp add: cp need_control_def native_eq proc_defs fun_eq_iff split: option.splits)
  from Cons.prems consider (none) e where "l = []" "s' = s" "x = Inl e" "\<not> dc_control c"
    | (failed) r e where "l = [(OnChannel (dc_id c) k, r)]" "s' = s" "x = Inl e" "raised r = Some e" "dc_control c"
    | (next_one) r l2 where "l = (OnChannel (dc_id c) k, r) # l2" "raised r = None" "dc_control c" "exchanges (pfor ctp ?f s) l2 (x, s')"
    unfolding trace_pfor_Cons f
  proof (cases "dc_control c")
    case False
    with \<open>exchanges (pfor (cp # ctp) ?f s) l (x, s')\<close> [unfolded trace_pfor_Cons f] none show thesis by auto
  next
    case True
    with \<open>exchanges (pfor (cp # ctp) ?f s) l (x, s')\<close> [unfolded trace_pfor_Cons f] failed next_one show thesis
      by (simp only: if_True trace_single) (auto split: option.splits)
  qed
  then show ?case
  proof cases
    case next_one
    with Cons.IH [OF next_one(4)] show ?thesis by (auto simp: cp calls_in_def)
  qed (auto simp: cp calls_in_def)
qed

lemma add_paths_success:
  "add_paths ps t = (Inr (), t') \<Longrightarrow> t' = t\<lparr>dr_states := dr_states t @ map (\<lambda>p. (p, {})) ps\<rparr>"
proof (induction ps arbitrary: t)
  case (Cons p ps)
  then obtain t1 where "add_path p t = (Inr (), t1)" "add_paths ps t1 = (Inr (), t')"
    by (auto simp: add_paths_def sbind_Inr_iff)
  moreover from this(1) have "t1 = t\<lparr>dr_states := dr_states t @ [(p, {})]\<rparr>"
    by (auto simp: add_path_def pym_defs split: if_splits)
  ultimately show ?case using Cons.IH [of t1] by simp
qed (simp add: add_paths_def ret_def)

lemma new_tracker_success:
  assumes "new_tracker ps = (Inr (), t)" and "ps \<noteq> []"
  shows "tracks ps {} t"
  using assms add_paths_success [of ps "\<lparr>dr_states = [], dr_error = False, dr_run_state = NEW\<rparr>" t]
  by (auto simp: new_tracker_def tracks_def reported_def state_order_def)

lemma execute_run_split:
  assumes "exchanges (execute_run en rq s) l (x, s')"
  shows "l = [] \<and> (\<exists>e. x = Inl e) \<or>
    (\<exists>s1 ctp. conn_to_paths (ct_manager (en_controller en)) (involved en rq) = Inr ctp \<and> involved en rq \<noteq> [] \<and>
       tracks (involved en rq) {} (rr_tracker (current_run s1)) \<and>
       rr_id (current_run s1) = en_run_id en (length (se_registered s)) \<and>
       exchanges (pbind (callbacks RegisterCallback ctp) (\<lambda>_. pfinally (run_body en ctp) (callbacks UnregisterCallback ctp)) s1) l (x, s'))"
proof (cases "involved en rq = []")
  case True
  then show ?thesis
    using assms by (auto simp: execute_run_def pbind_plift modify_def praise_def)
next
  case False
  define s0 where "s0 = s\<lparr>se_registered := se_registered s @ [new_run (en_run_id en (length (se_registered s))) rq]\<rparr>"
  have id0: "rr_id (current_run s0) = en_run_id en (length (se_registered s))"
    by (simp add: s0_def current_run_def new_run_def)
  obtain rt t where nt: "new_tracker (involved en rq) = (rt, t)" by fastforce
  have inv: "rt = Inr () \<Longrightarrow> tracks (involved en rq) {} t"
    using new_tracker_success [of "involved en rq" t] nt False by simp
  show ?thesis
  proof (cases "sync_master (ct_carriers (en_controller en))")
    case (Inl e)
    then show ?thesis
      using assms False by (auto simp: execute_run_def pbind_plift modify_def eval_st_def)
  next
    case master: (Inr master)
    define s1 where "s1 = change_run (\<lambda>r. r\<lparr>rr_tracker := t\<rparr>) (change_run (\<lambda>r. r\<lparr>rr_sync_master := Some master, rr_sync_group := 0\<rparr>) s0)"
    have s1: "rr_tracker (current_run s1) = t" "rr_id (current_run s1) = en_run_id en (length (se_registered s))"
      by (simp_all add: s1_def id0)
    show ?thesis
    proof (cases "rt = Inr ()")
      case False
      then obtain e where "rt = Inl e" by (cases rt) auto
      then show ?thesis
        using assms master nt \<open>involved en rq \<noteq> []\<close> by (auto simp: execute_run_def pbind_plift modify_def eval_st_def)
    next
      case rt: True
      show ?thesis
      proof (cases "conn_to_paths (ct_manager (en_controller en)) (involved en rq)")
        case (Inl e)
        then show ?thesis
          using assms master nt rt False by (auto simp: execute_run_def pbind_plift modify_def eval_st_def)
      next
        case (Inr ctp)
        then have "exchanges (pbind (callbacks RegisterCallback ctp) (\<lambda>_. pfinally (run_body en ctp) (callbacks UnregisterCallback ctp)) s1) l (x, s')"
          using assms master nt rt False by (simp add: execute_run_def pbind_plift modify_def eval_st_def s1_def s0_def)
        then show ?thesis
          using Inr False s1 inv [OF rt] by blast
      qed
    qed
  qed
qed

lemma conn_to_paths_members:
  assumes "conn_to_paths m ps = Inr ctp"
  shows "\<forall>p \<in> set ps. \<exists>c. get_connection p m = Inr c \<and> c \<in> fst ` set ctp" and "fst ` set ctp \<subseteq> get_unique_connections m"
proof -
  obtain cps where cps: "rmap (\<lambda>p. rbind (get_connection p m) (\<lambda>c. Inr (c, p))) ps = Inr cps"
    and ctp: "ctp = map (\<lambda>c. (c, map snd (filter (\<lambda>cp. fst cp = c) cps))) (rev (remdups (rev (map fst cps))))"
    using assms by (auto simp: conn_to_paths_def rbind_eq_Inr_iff)
  have set: "fst ` set ctp = fst ` set cps"
    by (auto simp: ctp image_image)
  show "\<forall>p \<in> set ps. \<exists>c. get_connection p m = Inr c \<and> c \<in> fst ` set ctp"
  proof
    fix p assume "p \<in> set ps"
    from rmap_image [OF cps this] obtain c where "get_connection p m = Inr c" "(c, p) \<in> set cps"
      by (auto simp: rbind_eq_Inr_iff)
    then show "\<exists>c. get_connection p m = Inr c \<and> c \<in> fst ` set ctp"
      unfolding set by (force intro: rev_image_eqI)
  qed
  show "fst ` set ctp \<subseteq> get_unique_connections m"
    unfolding set
  proof
    fix c assume "c \<in> fst ` set cps"
    then obtain p where "(c, p) \<in> set cps" by auto
    from rmap_member [OF cps this] obtain q where "get_connection q m = Inr c"
      by (auto simp: rbind_eq_Inr_iff)
    then have "(q, c) \<in> set (mg_connections m)"
      by (cases "map_of (mg_connections m) q") (auto simp: get_connection_def dest: map_of_SomeD)
    then show "c \<in> get_unique_connections m"
      by (force simp: get_unique_connections_def)
  qed
qed

lemma conn_to_paths_own:
  assumes "conn_to_paths m ps = Inr ctp"
  shows "own_paths m ps ctp"
proof -
  obtain cps where cps: "rmap (\<lambda>p. rbind (get_connection p m) (\<lambda>c. Inr (c, p))) ps = Inr cps"
    and ctp: "ctp = map (\<lambda>c. (c, map snd (filter (\<lambda>cp. fst cp = c) cps))) (rev (remdups (rev (map fst cps))))"
    using assms by (auto simp: conn_to_paths_def rbind_eq_Inr_iff)
  have "p \<in> set ps \<and> get_connection p m = Inr c" if "(c, p) \<in> set cps" for c p
    using rmap_member [OF cps that] by (auto simp: rbind_eq_Inr_iff)
  then show ?thesis
    by (auto simp: own_paths_def ctp)
qed

text \<open>What a completed run rests on: starts that were accepted, and then a report of DONE for every carrier.\<close>

definition started_and_done :: "manager \<Rightarrow> string \<Rightarrow> path list \<Rightarrow> call_log \<Rightarrow> bool" where
  "started_and_done m run_id ps l \<longleftrightarrow>
     (\<exists>l1 l2. l = l1 @ l2 \<and>
       (\<forall>p \<in> set ps. \<exists>c cmd. get_connection p m = Inr c \<and> sr_run_id cmd = run_id \<and> answered (StartRun cmd) c l1) \<and>
       (\<forall>p \<in> set ps. told m run_id p DONE l2))"

lemma started_and_done_append:
  assumes "started_and_done m run_id ps l"
  shows "started_and_done m run_id ps (l0 @ l @ l1)"
proof -
  obtain la lb where l: "l = la @ lb"
      "\<forall>p \<in> set ps. \<exists>c cmd. get_connection p m = Inr c \<and> sr_run_id cmd = run_id \<and> answered (StartRun cmd) c la"
      "\<forall>p \<in> set ps. told m run_id p DONE lb"
    using assms by (auto simp: started_and_done_def)
  have "answered k c (l0 @ la)" if "answered k c la" for k c
    using that by (auto simp: answered_def)
  moreover have "told m run_id p DONE (lb @ l1)" if "told m run_id p DONE lb" for p
    using that told_mono by (metis Un_upper1 set_append)
  ultimately show ?thesis
    unfolding started_and_done_def using l(2,3)
    by (intro exI [of _ "l0 @ la"] exI [of _ "lb @ l1"] conjI) (simp add: l(1), blast, blast)
qed

lemma execute_run_result:
  assumes "exchanges (execute_run en rq s) l (Inr (), s')"
    and "set (en_order en) = get_unique_connections (ct_manager (en_controller en))"
  shows "involved en rq \<noteq> [] \<and> rr_id (current_run s') = en_run_id en (length (se_registered s)) \<and>
    involved_paths (rr_tracker (current_run s')) = involved en rq \<and> all_reached DONE (rr_tracker (current_run s')) \<and>
    started_and_done (ct_manager (en_controller en)) (rr_id (current_run s')) (involved en rq) l"
proof -
  obtain s1 ctp where ctp: "conn_to_paths (ct_manager (en_controller en)) (involved en rq) = Inr ctp" "involved en rq \<noteq> []"
      "tracks (involved en rq) {} (rr_tracker (current_run s1))"
      "rr_id (current_run s1) = en_run_id en (length (se_registered s))"
    and ex: "exchanges (pbind (callbacks RegisterCallback ctp) (\<lambda>_. pfinally (run_body en ctp) (callbacks UnregisterCallback ctp)) s1) l (Inr (), s')"
    using execute_run_split [OF assms(1)] by auto
  obtain l1 l2 u s2 where reg: "l = l1 @ l2" "exchanges (callbacks RegisterCallback ctp s1) l1 (Inr u, s2)"
      "exchanges (pfinally (run_body en ctp) (callbacks UnregisterCallback ctp) s2) l2 (Inr (), s')"
    using ex unfolding trace_pbind by blast
  note cb = callbacks_trace [OF reg(2) [unfolded unit_eq [of u]]]
  obtain l3 l4 y s3 z where body: "l2 = l3 @ l4" "exchanges (run_body en ctp s2) l3 (y, s3)"
      "exchanges (callbacks UnregisterCallback ctp s3) l4 (z, s')" "Inr () = (case z of Inl e \<Rightarrow> Inl e | Inr _ \<Rightarrow> y)"
    using reg(3) unfolding trace_pfinally by blast
  have "y = Inr ()" using body(4) by (auto split: sum.splits)
  moreover have "s' = s3" "s2 = s1" using callbacks_trace [OF body(3)] cb by auto
  ultimately have run: "involved_paths (rr_tracker (current_run s')) = involved en rq \<and> all_reached DONE (rr_tracker (current_run s')) \<and>
      rr_id (current_run s') = rr_id (current_run s1) \<and>
      (\<exists>l1 l2. l3 = l1 @ l2 \<and>
        (\<forall>c \<in> set (en_order en). c \<in> fst ` set ctp \<longrightarrow> (\<exists>a \<in> set l1. said (StartRun (start_command (current_run s1))) c a)) \<and>
        (\<forall>p \<in> set (involved en rq). told (ct_manager (en_controller en)) (rr_id (current_run s1)) p DONE l2))"
    using run_body_success [OF _ _ ctp(3,2) conn_to_paths_own [OF ctp(1)], of en l3 s'] body(2) conjunct2 [OF cb] by simp
  then obtain la lb where parts: "l3 = la @ lb"
      "\<forall>c \<in> set (en_order en). c \<in> fst ` set ctp \<longrightarrow> (\<exists>a \<in> set la. said (StartRun (start_command (current_run s1))) c a)"
      "\<forall>p \<in> set (involved en rq). told (ct_manager (en_controller en)) (rr_id (current_run s1)) p DONE lb"
    by blast
  have "\<exists>c cmd. get_connection p (ct_manager (en_controller en)) = Inr c \<and>
       sr_run_id cmd = rr_id (current_run s1) \<and> answered (StartRun cmd) c la" if "p \<in> set (involved en rq)" for p
  proof -
    note mem = bspec [OF conn_to_paths_members(1) [OF ctp(1)] that]
    obtain c where c: "get_connection p (ct_manager (en_controller en)) = Inr c" "c \<in> fst ` set ctp"
      using mem by (elim exE conjE)
    then have "c \<in> set (en_order en)"
      using conn_to_paths_members(2) [OF ctp(1)] assms(2) by (simp add: subset_iff)
    with parts(2) c(2) have "answered (StartRun (start_command (current_run s1))) c la"
      unfolding answered_def by blast
    moreover have "sr_run_id (start_command (current_run s1)) = rr_id (current_run s1)"
      by (simp add: start_command_def)
    ultimately show ?thesis using c(1) by blast
  qed
  then have "started_and_done (ct_manager (en_controller en)) (rr_id (current_run s1)) (involved en rq) l3"
    unfolding started_and_done_def using parts(1,3) by blast
  from started_and_done_append [OF this, of l1 l4] run ctp(2,4) show ?thesis
    by (simp add: reg(1) body(1))
qed

text \<open>
  C10. A run that returns is complete. When \<open>execute_run\<close> returns, the run was first started, with its
  identifier, on the connection of every involved carrier and accepted there. After that, a message
  for this run that reports DONE arrived for every involved carrier: on the connection of that carrier,
  or with an entity of that carrier. The state tracker of the run has all of them at DONE.
\<close>

theorem run_completes:
  assumes "exchanges (execute_run en rq s) l (Inr (), s')"
    and "set (en_order en) = get_unique_connections (ct_manager (en_controller en))"
  shows "involved en rq \<noteq> [] \<and> rr_id (current_run s') = en_run_id en (length (se_registered s)) \<and>
    involved_paths (rr_tracker (current_run s')) = involved en rq \<and> all_reached DONE (rr_tracker (current_run s')) \<and>
    (\<exists>l1 l2. l = l1 @ l2 \<and>
      (\<forall>p \<in> set (involved en rq). \<exists>c cmd. get_connection p (ct_manager (en_controller en)) = Inr c \<and>
         sr_run_id cmd = rr_id (current_run s') \<and> answered (StartRun cmd) c l1) \<and>
      (\<forall>p \<in> set (involved en rq). told (ct_manager (en_controller en)) (rr_id (current_run s')) p DONE l2))"
  using execute_run_result [OF assms] unfolding started_and_done_def by blast

lemma run_body_calls: "only (\<lambda>a. \<not> calls_in {RegisterCallback, UnregisterCallback} a) (run_body en ctp)"
proof -
  have send: "only (\<lambda>a. \<not> calls_in {RegisterCallback, UnregisterCallback} a) (send_all cmd cs)" for cmd cs
    by (induction cs) (auto simp: calls_in_def intro!: only_intro)
  have wait: "only (\<lambda>a. \<not> calls_in {RegisterCallback, UnregisterCallback} a) (wait_for ctp st)" for st
    unfolding wait_for_def by (intro only_intro) (simp_all add: calls_in_def)
  have other: "only (\<lambda>a. \<not> calls_in {RegisterCallback, UnregisterCallback} a) (query_overload c)"
    "only (\<lambda>a. \<not> calls_in {RegisterCallback, UnregisterCallback} a) (collect_data en)" for c
    unfolding query_overload_def collect_data_def Let_def by (intro only_intro; simp add: calls_in_def)+
  show ?thesis
    unfolding run_body_def gather_def by (intro only_intro send wait other) (simp add: calls_in_def)
qed

text \<open>
  C13. A run leaves no callback behind. As long as every connection has a control channel and no call
  that registers or unregisters a callback raises: whatever else happens during a run, errors,
  timeouts and cancellation included, exactly the callbacks that were registered are unregistered again.
\<close>

theorem callbacks_released:
  assumes "exchanges (execute_run en rq s) l (x, s')"
    and "\<forall>c \<in> get_unique_connections (ct_manager (en_controller en)). dc_control c"
    and "\<forall>a \<in> set l. calls_in {RegisterCallback, UnregisterCallback} a \<longrightarrow> raised (snd a) = None"
  shows "count_list (map fst l) (OnChannel i RegisterCallback) = count_list (map fst l) (OnChannel i UnregisterCallback)"
proof (cases "l = []")
  case False
  then obtain s1 ctp where ctp: "conn_to_paths (ct_manager (en_controller en)) (involved en rq) = Inr ctp"
    and ex: "exchanges (pbind (callbacks RegisterCallback ctp) (\<lambda>_. pfinally (run_body en ctp) (callbacks UnregisterCallback ctp)) s1) l (x, s')"
    using execute_run_split [OF assms(1)] by auto
  have ctl: "\<forall>c \<in> fst ` set ctp. dc_control c"
    using conn_to_paths_members(2) [OF ctp] assms(2) by blast
  have ok: "y = Inr ()" if "exchanges (callbacks k ctp s) l' (y, s')" "set l' \<subseteq> set l" "k \<in> {RegisterCallback, UnregisterCallback}" for k s l' y s'
  proof -
    have "\<forall>a \<in> set l'. calls_in {RegisterCallback, UnregisterCallback} a"
      using callbacks_trace [OF that(1)] that(3) by (auto simp: calls_in_def)
    then have "\<forall>a \<in> set l'. raised (snd a) = None" using assms(3) that(2) by blast
    then show ?thesis using callbacks_trace [OF that(1)] ctl by blast
  qed
  obtain l1 l2 s2 where reg: "l = l1 @ l2" "exchanges (callbacks RegisterCallback ctp s1) l1 (Inr (), s2)"
      "exchanges (pfinally (run_body en ctp) (callbacks UnregisterCallback ctp) s2) l2 (x, s')"
    using ex unfolding trace_pbind
  proof (elim disjE exE conjE)
    fix e assume "exchanges (callbacks RegisterCallback ctp s1) l (Inl e, s')"
    from ok [OF this] show thesis by simp
  qed (use that in auto)
  obtain l3 l4 y s3 z where body: "l2 = l3 @ l4" "exchanges (run_body en ctp s2) l3 (y, s3)"
      "exchanges (callbacks UnregisterCallback ctp s3) l4 (z, s')"
    using reg(3) unfolding trace_pfinally by blast
  have z: "z = Inr ()"
    using ok [OF body(3)] by (auto simp: reg(1) body(1))
  let ?calls = "\<lambda>k. map (\<lambda>(c, _). OnChannel (dc_id c) k) ctp"
  have l1: "map fst l1 = ?calls RegisterCallback" and l4: "map fst l4 = ?calls UnregisterCallback"
    using callbacks_trace [OF reg(2)] callbacks_trace [OF body(3)] z by auto
  have l3: "OnChannel i k \<notin> fst ` set l3" if "k \<in> {RegisterCallback, UnregisterCallback}" for k
    using onlyD [OF run_body_calls body(2)] that by (fastforce simp: calls_in_def)
  have "count_list (?calls k) (OnChannel i k') = (if k = k' then length (filter (\<lambda>(c, _). dc_id c = i) ctp) else 0)" for k k'
    by (induction ctp) auto
  then show ?thesis
    using l3 by (simp add: reg(1) body(1) l1 l4 count_list_0_iff)
qed simp

section \<open>Witnesses\<close>

text \<open>A proxy with two carriers; the replies are those of a run that completes.\<close>

definition demo_env :: env where
  "demo_env =
     \<lparr>en_controller = snd (controller_add_device (demo_endpoint [''/00-00'', ''/00-01'']) new_controller),
      en_order = [\<lparr>dc_id = 0, dc_control = True, dc_data = True\<rparr>], en_run_id = (\<lambda>_. ''r'')\<rparr>"

definition demo_request :: run_request where
  "demo_request =
     \<lparr>rq_config = \<lparr>rc_ic_time = 100000, rc_op_time = 50000000, rc_halt_on_overload = True\<rparr>,
      rq_daq = \<lparr>dq_num_channels = 0, dq_sample_rate = 500000, dq_sample_op = True, dq_sample_op_end = True\<rparr>,
      rq_entities = None\<rparr>"

definition demo_messages :: "int \<Rightarrow> reply" where
  "demo_messages n = RMessages [[(0, \<lparr>sc_run_id = ''r'', sc_new = n, sc_entity = []\<rparr>)]]"

definition demo_run :: "(call_log \<times> unit res \<times> session) option" where
  "demo_run = play (execute_run demo_env demo_request (new_session []))
     [RNone, RNone, RNone, demo_messages 4, demo_messages 2, RStatus False [], RBlobs [], RNone]"

lemma demo_run_returns: "case demo_run of None \<Rightarrow> False | Some (l, x, s') \<Rightarrow> x = Inr ()"
  by code_simp

lemma demo_connections:
  "get_unique_connections (ct_manager (en_controller demo_env)) = {\<lparr>dc_id = 0, dc_control = True, dc_data = True\<rparr>}"
  by code_simp

lemma demo_order: "en_order demo_env = [\<lparr>dc_id = 0, dc_control = True, dc_data = True\<rparr>]"
  by (simp add: demo_env_def)

theorem run_completes_witness:
  "\<exists>l s'. exchanges (execute_run demo_env demo_request (new_session [])) l (Inr (), s') \<and>
     all_reached DONE (rr_tracker (current_run s')) \<and>
     involved_paths (rr_tracker (current_run s')) = [[PS ''00-00''], [PS ''00-01'']] \<and>
     told (ct_manager (en_controller demo_env)) ''r'' [PS ''00-01''] DONE l"
proof -
  obtain l s' where "demo_run = Some (l, Inr (), s')"
    using demo_run_returns by (auto split: option.splits)
  then have ex: "exchanges (execute_run demo_env demo_request (new_session [])) l (Inr (), s')"
    unfolding demo_run_def by (rule play_exchanges)
  have inv: "involved demo_env demo_request = [[PS ''00-00''], [PS ''00-01'']]"
    by code_simp
  have id: "en_run_id demo_env n = ''r''" for n
    by (simp add: demo_env_def)
  have "set (en_order demo_env) = get_unique_connections (ct_manager (en_controller demo_env))"
    by (simp add: demo_connections demo_order)
  from run_completes [OF ex this] obtain l1 l2 where l: "l = l1 @ l2"
      "told (ct_manager (en_controller demo_env)) ''r'' [PS ''00-01''] DONE l2"
    and d: "all_reached DONE (rr_tracker (current_run s'))"
      "involved_paths (rr_tracker (current_run s')) = [[PS ''00-00''], [PS ''00-01'']]"
    unfolding inv id by auto
  from l(1) have "set l2 \<subseteq> set l" by simp
  with told_mono [OF l(2)] d ex show ?thesis by blast
qed

theorem callbacks_released_witness:
  "\<exists>l s'. exchanges (execute_run demo_env demo_request (new_session [])) l (Inr (), s') \<and>
     count_list (map fst l) (OnChannel 0 RegisterCallback) = count_list (map fst l) (OnChannel 0 UnregisterCallback) \<and>
     count_list (map fst l) (OnChannel 0 RegisterCallback) = 1"
proof -
  have "case demo_run of None \<Rightarrow> False | Some (l, x, s') \<Rightarrow> x = Inr () \<and>
      (\<forall>a \<in> set l. raised (snd a) = None) \<and> count_list (map fst l) (OnChannel 0 RegisterCallback) = 1"
    by code_simp
  then obtain l s' where run: "demo_run = Some (l, Inr (), s')" "\<forall>a \<in> set l. raised (snd a) = None"
      "count_list (map fst l) (OnChannel 0 RegisterCallback) = 1"
    by (auto split: option.splits)
  have ex: "exchanges (execute_run demo_env demo_request (new_session [])) l (Inr (), s')"
    using run(1) unfolding demo_run_def by (rule play_exchanges)
  have "count_list (map fst l) (OnChannel 0 RegisterCallback) = count_list (map fst l) (OnChannel 0 UnregisterCallback)"
    using run(2) by (intro callbacks_released [OF ex]) (simp_all add: demo_connections)
  with ex run(3) show ?thesis by blast
qed

theorem config_sent_once_witness:
  "exchanges (execute_set_config demo_env [] (new_session [])) [(OnChannel 0 (SetModule []), RBool False)]
     (Inl RuntimeError, new_session []) \<and>
   map fst [(OnChannel 0 (SetModule []), RBool False)] = map (\<lambda>c. OnChannel (dc_id c) (SetModule [])) (take 1 (en_order demo_env))"
proof -
  have "exchanges (execute_set_config demo_env [] (new_session [])) [(OnChannel 0 (SetModule []), RBool False)]
     (Inl RuntimeError, new_session [])"
    by (simp add: execute_set_config_def demo_order trace_iffs need_control_def set_module_request_def checked_eq
        checked_def result_of_def raised_def rbind_def)
  moreover have "\<forall>c \<in> set (en_order demo_env). dc_control c"
    by (simp add: demo_order)
  ultimately show ?thesis
    using config_sent_once by fastforce
qed

definition demo_upload :: "reply list \<Rightarrow> (call_log \<times> unit res \<times> session) option" where
  "demo_upload rs = play (execute_upload demo_env [1, 2] [] (new_session [])) rs"

theorem commit_after_verify_witness:
  "\<exists>l l1 r l2 x s'. exchanges (execute_upload demo_env [1, 2] [] (new_session [])) l (x, s') \<and>
     l = l1 @ (OnChannel 0 UpdateCommit, r) # l2 \<and>
     written [1, 2] \<lparr>dc_id = 0, dc_control = True, dc_data = True\<rparr> l1 \<and>
     answered UpdateVerify \<lparr>dc_id = 0, dc_control = True, dc_data = True\<rparr> l1"
proof -
  have "case demo_upload [RInt 2, RNone, RNone, RNone, RBool True] of None \<Rightarrow> False
     | Some (l, x, s') \<Rightarrow> drop 3 l = (OnChannel 0 UpdateCommit, RNone) # drop 4 l"
    by code_simp
  then obtain l x s' where run: "demo_upload [RInt 2, RNone, RNone, RNone, RBool True] = Some (l, x, s')"
      "drop 3 l = (OnChannel 0 UpdateCommit, RNone) # drop 4 l"
    by (auto split: option.splits)
  have ex: "exchanges (execute_upload demo_env [1, 2] [] (new_session [])) l (x, s')"
    using run(1) unfolding demo_upload_def by (rule play_exchanges)
  have l: "l = take 3 l @ (OnChannel 0 UpdateCommit, RNone) # drop 4 l"
    by (metis append_take_drop_id run(2))
  from commit_after_verify [OF ex l] have "written [1, 2] \<lparr>dc_id = 0, dc_control = True, dc_data = True\<rparr> (take 3 l)"
    "answered UpdateVerify \<lparr>dc_id = 0, dc_control = True, dc_data = True\<rparr> (take 3 l)"
    by (simp_all add: demo_order)
  with ex l show ?thesis by blast
qed

theorem commit_or_abort_witness:
  "\<exists>l s'. exchanges (execute_upload demo_env [1, 2] [] (new_session [])) l (Inl RuntimeError, s') \<and>
     OnChannel 0 UpdateAbort \<in> fst ` set l"
proof -
  have "case demo_upload [RInt 2, RRaise RuntimeError, RNone] of None \<Rightarrow> False
     | Some (l, x, s') \<Rightarrow> x = Inl RuntimeError \<and> \<not> (\<exists>a \<in> set l. fst a = OnChannel 0 UpdateCommit \<or> snd a = RRaise CancelledError)"
    by code_simp
  then obtain l s' where run: "demo_upload [RInt 2, RRaise RuntimeError, RNone] = Some (l, Inl RuntimeError, s')"
      "\<not> (\<exists>a \<in> set l. fst a = OnChannel 0 UpdateCommit \<or> snd a = RRaise CancelledError)"
    by (auto split: option.splits)
  have ex: "exchanges (execute_upload demo_env [1, 2] [] (new_session [])) l (Inl RuntimeError, s')"
    using run(1) unfolding demo_upload_def by (rule play_exchanges)
  have "\<forall>c \<in> set (en_order demo_env). dc_control c"
    by (simp add: demo_order)
  from commit_or_abort [OF ex this] run(2) have "OnChannel 0 UpdateAbort \<in> fst ` set l"
    by (force simp: demo_order answered_def said_def)
  with ex show ?thesis by blast
qed

definition demo_files :: "string \<Rightarrow> byte list option" where
  "demo_files = [''fw.hex'' \<mapsto> hex_text demo_source @ [0x0A] @ hex_line True HexEof @ []]"

theorem firmware_delivered_witness:
  "\<exists>s1 l s'. set_firmware demo_files (\<lambda>_. []) (FirmwareFile ''fw.hex'') (new_session []) = Some (Inr (), s1) \<and>
     exchanges (run_pipeline demo_env s1) l (Inr (), s') \<and>
     written [0, 0, 0xAB, 0xCD] \<lparr>dc_id = 0, dc_control = True, dc_data = True\<rparr> l"
proof -
  let ?img = "[0, 0, 0xAB, 0xCD] :: byte list"
  have img: "flash_image (source_records demo_source) = ?img"
    by (simp add: flash_image_def demo_source_def source_records_def FW_BASE_ADDR_def upt_conv_Cons)
  have f: "demo_files ''fw.hex'' = Some (hex_text demo_source @ [0x0A] @ hex_line True HexEof @ [])"
    by (simp add: demo_files_def)
  have ws: "set [0x0A] \<subseteq> HEX_WHITESPACE" by (simp add: HEX_WHITESPACE_def)
  define s1 where "s1 = append_command (FirmwareUpdateCommand ?img []) (new_session [])"
  have "hex2bin (hex_text demo_source @ [0x0A] @ hex_line True HexEof @ []) = Some ?img"
    using hex2bin_flash [OF demo_source_ok ws, of True "[]"] img by simp
  then have set: "set_firmware demo_files (\<lambda>_. []) (FirmwareFile ''fw.hex'') (new_session []) = Some (Inr (), s1)"
    by (simp add: set_firmware_def read_to_bin_def f lift_res_def eval_st_def sbind_def modify_def s1_def)
  have "case play (run_pipeline demo_env s1) [RInt 2, RNone, RNone, RNone, RBool True] of
      None \<Rightarrow> False | Some (l, x, s') \<Rightarrow> x = Inr ()"
    unfolding s1_def by code_simp
  then obtain l s' where "play (run_pipeline demo_env s1) [RInt 2, RNone, RNone, RNone, RBool True] = Some (l, Inr (), s')"
    by (auto split: option.splits)
  then have ex: "exchanges (run_pipeline demo_env s1) l (Inr (), s')" by (rule play_exchanges)
  show ?thesis
    using firmware_delivered [OF f demo_source_ok ws set ex] set ex unfolding demo_order img by auto
qed

end
