(* ===== verification/Framing.thy ===== *)
theory Framing
  imports Samples
begin

unbundle bit_operations_syntax

text \<open>
  Framing of messages on a byte stream (mock/connection.py): every message is preceded by its length
  as a base-128 number. The stream is the list of the bytes that arrive before the peer closes it.
  Encoding and decoding of messages and the encoder of the length are protobuf's and parameters;
  \<open>varint\<close> is the documented format of the latter.
\<close>

section \<open>Receiving\<close>

text \<open>\<open>ClientConnection._recv_varint\<close>.\<close>

fun recv_varint :: "nat \<Rightarrow> nat \<Rightarrow> byte list \<Rightarrow> (nat \<times> byte list) res" where
  "recv_varint shift result [] = Inl EOFError"
| "recv_varint shift result (b # bs) =
     (let i = unat b; result = result OR push_bit shift (i AND 0x7F)
      in if i AND 0x80 = 0 then Inr (result, bs) else recv_varint (shift + 7) result bs)"

lemma recv_varint_shorter: "recv_varint shift result bs = Inr (n, bs') \<Longrightarrow> length bs' < length bs"
  by (induction shift result bs rule: recv_varint.induct) (fastforce simp: Let_def split: if_splits)+

text \<open>
  \<open>_recv_loop\<close>: an end of the stream inside a length or a message ends the loop silently; an exception of
  the decoder is not caught there. \<open>handle\<close> is what is done with a message.
\<close>

function recv_loop :: "(byte list \<Rightarrow> 'e res) \<Rightarrow> ('e \<Rightarrow> 's \<Rightarrow> 's) \<Rightarrow> byte list \<Rightarrow> 's \<Rightarrow> unit res \<times> 's" where
  "recv_loop parse handle bs s =
     (case recv_varint 0 0 bs of
        Inl e \<Rightarrow> (Inr (), s)
      | Inr (n, bs) \<Rightarrow>
          if length bs < n then (Inr (), s)
          else case parse (take n bs) of
              Inl e \<Rightarrow> (Inl e, s)
            | Inr envelope \<Rightarrow> recv_loop parse handle (drop n bs) (handle envelope s))"
  by pat_completeness auto

termination
proof (relation "measure (\<lambda>(parse, handle, bs, s). length bs)")
  fix parse :: "byte list \<Rightarrow> 'e res" and handle :: "'e \<Rightarrow> 's \<Rightarrow> 's" and bs s p n bs' e
  assume "recv_varint 0 0 bs = Inr p" "(n, bs') = p"
  then have "length bs' < length bs" by (auto dest: recv_varint_shorter)
  then show "((parse, handle, drop n bs', handle e s), (parse, handle, bs, s)) \<in> measure (\<lambda>(parse, handle, bs, s). length bs)"
    by simp
qed simp

declare recv_loop.simps [simp del]

section \<open>Sending\<close>

text \<open>The part of \<open>send_message\<close> that writes to the stream: \<open>venc\<close> encodes the length, \<open>ser\<close> the message.\<close>

definition frame :: "(nat \<Rightarrow> byte list) \<Rightarrow> ('e \<Rightarrow> byte list) \<Rightarrow> 'e \<Rightarrow> byte list" where
  "frame venc ser e = (let data = ser e in venc (length data) @ data)"

section \<open>Round trip\<close>

function varint :: "nat \<Rightarrow> byte list" where
  "varint n = (if n < 128 then [word_of_nat n] else word_of_nat (128 + n mod 128) # varint (n div 128))"
  by pat_completeness auto

termination
  by (relation "measure id") auto

declare varint.simps [simp del]

lemma low_bits:
  assumes "b < (256 :: nat)"
  shows "b AND 0x80 = 0 \<longleftrightarrow> b < 128" and "b AND 0x7F = b mod 128"
proof -
  have "b AND 2 ^ 7 = 0 \<longleftrightarrow> \<not> bit b 7" by (rule and_exp_eq_0_iff_not_bit)
  moreover have "bit b 7 \<longleftrightarrow> \<not> b < 128"
  proof (cases "b < 128")
    case False
    with assms have "b div 128 = 1" by simp
    then show ?thesis using False by (simp add: bit_iff_odd)
  qed (simp add: bit_iff_odd)
  ultimately show "b AND 0x80 = 0 \<longleftrightarrow> b < 128" by simp
  have "b AND mask 7 = b mod 2 ^ 7"
    by (simp only: take_bit_eq_mask [symmetric] take_bit_eq_mod)
  then show "b AND 0x7F = b mod 128" by (simp add: mask_eq_exp_minus_1)
qed

lemma unat_varint_byte:
  "n < 128 \<Longrightarrow> unat (word_of_nat n :: byte) = n" "unat (word_of_nat (128 + n mod 128) :: byte) = 128 + n mod 128"
  by (simp_all only: unat_of_nat) simp_all

lemma varint_byte_bits:
  "n < 128 \<Longrightarrow> n AND 0x80 = 0" "n < 128 \<Longrightarrow> n AND 0x7F = n"
  "(128 + n mod 128) AND 0x80 \<noteq> 0" "(128 + n mod 128) AND 0x7F = n mod (128 :: nat)"
  using low_bits [of n] low_bits [of "128 + n mod 128"] by simp_all

lemmas varint_simps = recv_varint.simps Let_def unat_varint_byte varint_byte_bits append.simps simp_thms if_True if_False

lemma join_bits: "push_bit s (n mod 128) OR push_bit (s + 7) (n div 128) = push_bit s (n :: nat)"
proof -
  have "n mod 128 = take_bit 7 n" "n div 128 = drop_bit 7 n"
    by (simp_all add: take_bit_eq_mod drop_bit_eq_div)
  moreover have "bit (push_bit s (take_bit 7 n) OR push_bit (s + 7) (drop_bit 7 n)) m \<longleftrightarrow> bit (push_bit s n) m" for m
    by (cases "s + 7 \<le> m") (auto simp: bit_or_iff bit_push_bit_iff bit_take_bit_iff bit_drop_bit_eq)
  ultimately show ?thesis by (simp only:) (rule bit_eqI, simp only:)
qed

lemma recv_varint_varint: "recv_varint s r (varint n @ rest) = Inr (r OR push_bit s n, rest)"
proof (induction n arbitrary: s r rule: varint.induct)
  case (1 n)
  show ?case
  proof (cases "n < 128")
    case True
    then show ?thesis
      by (simp only: varint.simps [of n] varint_simps)
  next
    case False
    have "recv_varint s r (varint n @ rest) = recv_varint (s + 7) (r OR push_bit s (n mod 128)) (varint (n div 128) @ rest)"
      using False by (simp only: varint.simps [of n] varint_simps)
    also have "\<dots> = Inr (r OR push_bit s n, rest)"
      using 1 [OF False] by (simp add: or.assoc join_bits)
    finally show ?thesis .
  qed
qed

lemma recv_varint_cut: "k < length (varint n) \<Longrightarrow> recv_varint s r (take k (varint n)) = Inl EOFError"
proof (induction n arbitrary: k s r rule: varint.induct)
  case (1 n)
  show ?case
  proof (cases "n < 128 \<or> k = 0")
    case True
    with "1.prems" have "k = 0" by (auto simp: varint.simps [of n] split: if_splits)
    then show ?thesis by simp
  next
    case False
    then obtain j where j: "k = Suc j" by (cases k) auto
    have n: "\<not> n < 128" and k: "j < length (varint (n div 128))"
      using False "1.prems" by (auto simp: j varint.simps [of n])
    show ?thesis
      unfolding j varint.simps [of n] if_not_P [OF n] take_Suc_Cons
      using "1.IH" [OF n k] by (simp only: varint_simps)
  qed
qed

lemma recv_loop_frame:
  assumes "venc (length (ser e)) = varint (length (ser e))" and "parse (ser e) = Inr e"
  shows "recv_loop parse handle (frame venc ser e @ rest) s = recv_loop parse handle rest (handle e s)"
  by (subst recv_loop.simps) (simp add: frame_def Let_def assms recv_varint_varint)

lemma recv_loop_cut:
  assumes "venc (length (ser e)) = varint (length (ser e))" and "k < length (frame venc ser e)"
  shows "recv_loop parse handle (take k (frame venc ser e)) s = (Inr (), s)"
proof (cases "k < length (varint (length (ser e)))")
  case True
  then show ?thesis
    by (subst recv_loop.simps) (simp add: frame_def Let_def assms(1) recv_varint_cut)
next
  case False
  then have "take k (frame venc ser e) = varint (length (ser e)) @ take (k - length (varint (length (ser e)))) (ser e)"
    by (simp add: frame_def Let_def assms(1))
  moreover have "k - length (varint (length (ser e))) < length (ser e)"
    using assms False by (simp add: frame_def Let_def)
  ultimately show ?thesis
    by (subst recv_loop.simps) (simp add: recv_varint_varint)
qed

text \<open>
  C17. Every message that was sent completely is received, once and in order. When the peer has sent the
  messages \<open>es\<close> and the connection breaks at any point of the next one, the receive loop has handled
  exactly \<open>es\<close>, in this order, and ends without an error.
\<close>

theorem frames_received:
  assumes "\<And>n. venc n = varint n" and "\<And>e. parse (ser e) = Inr e" and "k < length (frame venc ser e)"
  shows "recv_loop parse handle (concat (map (frame venc ser) es) @ take k (frame venc ser e)) s = (Inr (), fold handle es s)"
  by (induction es arbitrary: s) (simp_all add: recv_loop_frame recv_loop_cut assms)

theorem frames_received_witness:
  "recv_loop (\<lambda>bs. Inr bs) (\<lambda>e l. l @ [e]) (concat (map (frame varint (\<lambda>e. e)) [[1, 2], [], replicate 300 7]) @ take 2 (frame varint (\<lambda>e. e) [5, 6])) [] =
     (Inr (), [[1, 2], [], replicate 300 7])"
  using frames_received [of varint "\<lambda>bs. Inr bs" "\<lambda>e. e" 2 "[5, 6]" "\<lambda>e l. l @ [e]" "[[1, 2], [], replicate 300 7]" "[]"]
  by (simp add: frame_def varint.simps)

end
