(* ===== verification/Mock.thy ===== *)
theory Mock
  imports Session Framing
begin

text \<open>
  The mock device \<open>DummyDAC\<close> (mock/): the server that the client code is tested against. Modelled are its
  configuration, the entity tree it reports, one handler per command with the injected errors, the
  messages and sample chunks of a run, and the dispatch of requests of \<open>ClientConnection\<close>.

  A handler is a function of the server and the client connection. The task that executes a run is
  started by a handler and runs after the response has been written; it is modelled without other
  commands in between. Delays are left out. The numeric library is a parameter: \<open>nm_sine rate i k\<close> is
  sample \<open>k\<close> of channel \<open>i\<close> as a 32-bit float, \<open>nm_f32\<close> rounds to one and \<open>nm_half\<close> multiplies one by 0.5. So are
  the generator of identifiers (\<open>uuid n\<close> for the n-th message) and the creation of a datagram endpoint.
  The number of samples is computed with exact division, which agrees with the doubles of the code for
  operation times times rates below \<open>2 ^ 52\<close>.
\<close>

section \<open>Configuration and state\<close>

datatype error_stage =
    NoError | AT_CONFIGURE | AT_START_RUN | AT_EXTRACT | DURING_RUN | DROP_TAKEOFF_STATE | DROP_DONE_STATE | FEWER_SAMPLES

datatype mac_mode = VIRTUAL | PHYSICAL

record dummy_config =
  dk_mac_mode :: mac_mode
  dk_accept_udp_streaming :: bool
  dk_error_stage :: error_stage
  dk_error_message :: "string option"
  dk_lucidac_mode :: bool

record dummy_dac =
  da_config :: dummy_config
  da_carrier_macs :: "string list"
  da_stored_config :: "module_item list option"
  da_calibrated :: bool

definition hex_char :: "nat \<Rightarrow> char" where
  "hex_char n = char_of (if n < 10 then 48 + n else 87 + n)"

text \<open>The format \<open>{idx:02x}\<close>.\<close>

fun hex_str :: "nat \<Rightarrow> string" where
  "hex_str n = (if n < 16 then [hex_char n] else hex_str (n div 16) @ [hex_char (n mod 16)])"

declare hex_str.simps [simp del]

definition hex_02 :: "nat \<Rightarrow> string" where
  "hex_02 n = (if n < 16 then CHR ''0'' # hex_str n else hex_str n)"

text \<open>\<open>ctr\<close> is the counter of physical addresses, an attribute of the class.\<close>

definition generate_carrier_macs :: "bool \<Rightarrow> dummy_config \<Rightarrow> nat \<Rightarrow> string list \<times> nat" where
  "generate_carrier_macs physical c ctr =
     (let num_carriers = (if dk_lucidac_mode c then 1 else 2) in
      if physical then (map (\<lambda>i. ''aa-bb-cc-dd-ee-'' @ hex_02 i) [ctr + 1..<ctr + 1 + num_carriers], ctr + num_carriers)
      else if dk_lucidac_mode c
      then (if dk_mac_mode c = VIRTUAL then [''00-00-00-00-00-00''] else [''AB-CD-EF-12-34-56''], ctr)
      else (if dk_mac_mode c = VIRTUAL then [''00-00-00-00-00-00'', ''00-00-00-00-00-01'']
            else [''AB-CD-EF-12-34-56'', ''AB-CD-EF-12-34-57''], ctr))"

definition new_dummy_dac :: "bool \<Rightarrow> dummy_config \<Rightarrow> nat \<Rightarrow> dummy_dac \<times> nat" where
  "new_dummy_dac physical c ctr =
     (case generate_carrier_macs physical c ctr of (macs, ctr) \<Rightarrow>
        (\<lparr>da_config = c, da_carrier_macs = macs, da_stored_config = None, da_calibrated = False\<rparr>, ctr))"

definition mock_block :: "string \<Rightarrow> entity_class \<Rightarrow> int \<Rightarrow> pb_entity" where
  "mock_block name cls ty = PbEntity name (entity_class_value cls) ty 1 (1, 0, 0) None []"

definition mock_carrier :: "bool \<Rightarrow> nat \<Rightarrow> string \<Rightarrow> pb_entity" where
  "mock_carrier lucidac idx mac =
     PbEntity (CHR ''/'' # mac) (entity_class_value CARRIER) 1 1 (1, 0, 0) (Some (0, int idx))
       ([PbEntity ''/0'' (entity_class_value CLUSTER) 1 1 (1, 0, 0) None
           [mock_block ''/M0'' MBLOCK 1, mock_block ''/M1'' MBLOCK 2, mock_block ''/U'' UBLOCK 1,
            mock_block ''/C'' CBLOCK 1, mock_block ''/I'' IBLOCK 1, mock_block ''/SH'' SHBLOCK 1],
         mock_block ''/CTRL'' CTRLBLOCK 1]
        @ (if \<not> lucidac then [mock_block ''/T'' TBLOCK 1] else [])
        @ (if lucidac then [mock_block ''/FP'' FRONTPANEL 1] else []))"

definition build_entity_tree :: "dummy_dac \<Rightarrow> pb_entity" where
  "build_entity_tree s =
     PbEntity (case da_carrier_macs s of [] \<Rightarrow> [] | m # _ \<Rightarrow> CHR ''/'' # m) (entity_class_value DEVICE) 0 0 (0, 0, 0) None
       (map (\<lambda>(i, m). mock_carrier (dk_lucidac_mode (da_config s)) i m) (enumerate 0 (da_carrier_macs s)))"

section \<open>Messages\<close>

datatype time_prefix = SECONDS | MILLI | MICRO | NANO

record mock_run_command =
  mr_id :: string
  mr_op_time :: "int \<times> time_prefix"
  mr_sample_rate :: int
  mr_num_channels :: nat

record daq_data =
  dd_data :: "byte list"
  dd_sample_count :: nat
  dd_channel_stride :: nat
  dd_probes :: "nat list"

datatype body =
    ResetCommandB bool
  | ConfigCommandB "module_item list"
  | ExtractCommandB string bool bool
  | UdpDataStreamingCommandB int
  | StartRunCommandB mock_run_command
  | GetOverloadStatusCommandB
  | CalibrationCommandB int int int
  | ResetResponse
  | ConfigResponse
  | ExtractResponse "module_item list"
  | UdpDataStreamingRefusedResponse
  | SuccessMessage
  | StartRunResponse
  | GetOverloadStatusResponse bool
  | CalibrationResponse
  | ErrorMessage
  | RunStateChangeMessage string run_state run_state
  | RunDataMessage string nat string daq_data
  | RunDataEndMessage string string daq_data
  | OtherMessage string

record message =
  ms_id :: string
  ms_body :: "body option"

datatype envelope = PingCommand | PingResponse | OtherGeneric | MessageV1 message

datatype transport = Tcp | Udp int

record client =
  cl_data_transport :: "int option"
  cl_warned_unknown :: "string set"
  cl_sent :: "(transport \<times> envelope) list"

record numerics =
  nm_sine :: "int \<Rightarrow> nat \<Rightarrow> nat \<Rightarrow> 32 word"
  nm_f32 :: "rat \<Rightarrow> 32 word"
  nm_half :: "32 word \<Rightarrow> 32 word"

section \<open>Runs\<close>

definition parse_time :: "int \<times> time_prefix \<Rightarrow> int" where
  "parse_time t =
     (case t of (v, p) \<Rightarrow> case p of NANO \<Rightarrow> v | MICRO \<Rightarrow> v * 1000 | MILLI \<Rightarrow> v * 1000000 | SECONDS \<Rightarrow> v * 1000000000)"

definition adc_channels :: "module_item \<Rightarrow> nat" where
  "adc_channels it = (case it of ConfigItem (_, Some (PAdc chans)) \<Rightarrow> length chans | _ \<Rightarrow> 0)"

definition get_adc_channel_count_from_config :: "dummy_dac \<Rightarrow> nat" where
  "get_adc_channel_count_from_config s =
     (case da_stored_config s of None \<Rightarrow> 0 | Some items \<Rightarrow> sum_list (map adc_channels items))"

definition generate_samples :: "numerics \<Rightarrow> bool \<Rightarrow> nat \<Rightarrow> nat \<Rightarrow> int \<Rightarrow> 32 word list list" where
  "generate_samples nm calibrated num_channels num_samples rate =
     map (\<lambda>i. map (\<lambda>k. if calibrated then nm_half nm (nm_sine nm rate i k) else nm_sine nm rate i k) [0..<num_samples])
       [0..<num_channels]"

definition generate_final_values :: "numerics \<Rightarrow> bool \<Rightarrow> nat \<Rightarrow> 32 word list" where
  "generate_final_values nm calibrated num_channels =
     (let half = num_channels div 2 in
      map (\<lambda>i. let v = nm_f32 nm ((of_nat i - of_nat half) / of_nat (max half 1)) in if calibrated then nm_half nm v else v)
        [0..<num_channels])"

text \<open>\<open>flatten(order="F").tobytes()\<close> of a block with one row per channel.\<close>

definition f_bytes :: "32 word list list \<Rightarrow> nat \<Rightarrow> byte list" where
  "f_bytes rows n = pack 4 (concat (map (\<lambda>k. map (\<lambda>row. unat (row ! k)) rows) [0..<n]))"

definition chunk_message :: "string \<Rightarrow> string \<Rightarrow> nat \<Rightarrow> 32 word list list \<Rightarrow> nat \<Rightarrow> nat \<Rightarrow> nat \<Rightarrow> body" where
  "chunk_message run_id mac num_channels samples actual_samples start chunk =
     (let e = min (start + 100) actual_samples;
          chunk_samples = map (\<lambda>row. drop start (take e row)) samples
      in RunDataMessage run_id chunk (CHR ''/'' # mac)
           \<lparr>dd_data = f_bytes chunk_samples (e - start), dd_sample_count = e - start, dd_channel_stride = num_channels,
            dd_probes = [0..<num_channels]\<rparr>)"

text \<open>The loop \<open>for start in range(0, actual_samples, chunk_size)\<close>.\<close>

function chunk_loop :: "(nat \<Rightarrow> nat \<Rightarrow> body) \<Rightarrow> nat \<Rightarrow> nat \<Rightarrow> nat \<Rightarrow> body list" where
  "chunk_loop msg actual_samples start chunk =
     (if start < actual_samples then msg start chunk # chunk_loop msg actual_samples (start + 100) (chunk + 1) else [])"
  by pat_completeness auto

termination
  by (relation "measure (\<lambda>(msg, n, start, chunk). n - start)") auto

declare chunk_loop.simps [simp del]

definition send_carrier_samples :: "numerics \<Rightarrow> dummy_dac \<Rightarrow> string \<Rightarrow> nat \<Rightarrow> nat \<Rightarrow> int \<Rightarrow> string \<Rightarrow> body list" where
  "send_carrier_samples nm s run_id num_channels num_samples rate mac =
     (let samples = generate_samples nm (da_calibrated s) num_channels num_samples rate;
          actual_samples = (if dk_error_stage (da_config s) = FEWER_SAMPLES then num_samples div 2 else num_samples);
          samples = map (take actual_samples) samples
      in chunk_loop (chunk_message run_id mac num_channels samples actual_samples) actual_samples 0 0)"

definition end_message :: "numerics \<Rightarrow> dummy_dac \<Rightarrow> string \<Rightarrow> nat \<Rightarrow> string \<Rightarrow> body" where
  "end_message nm s run_id num_channels mac =
     RunDataEndMessage run_id (CHR ''/'' # mac)
       \<lparr>dd_data = pack 4 (map unat (generate_final_values nm (da_calibrated s) num_channels)), dd_sample_count = 1,
        dd_channel_stride = num_channels, dd_probes = [0..<num_channels]\<rparr>"

definition run_channels :: "dummy_dac \<Rightarrow> mock_run_command \<Rightarrow> nat" where
  "run_channels s cmd =
     (let n = get_adc_channel_count_from_config s in if n = 0 \<and> mr_num_channels cmd > 0 then mr_num_channels cmd else n)"

definition run_samples :: "mock_run_command \<Rightarrow> nat" where
  "run_samples cmd = nat (max 1 (parse_time (mr_op_time cmd) * mr_sample_rate cmd div 1000000000))"

definition mock_execute_run :: "numerics \<Rightarrow> dummy_dac \<Rightarrow> mock_run_command \<Rightarrow> body list" where
  "mock_execute_run nm s cmd =
     (let run_id = mr_id cmd; stage = dk_error_stage (da_config s);
          num_samples = run_samples cmd; num_channels = run_channels s cmd
      in (if stage \<noteq> DROP_TAKEOFF_STATE then [RunStateChangeMessage run_id NEW TAKE_OFF] else [])
         @ [RunStateChangeMessage run_id TAKE_OFF IC, RunStateChangeMessage run_id IC OP]
         @ concat (map (send_carrier_samples nm s run_id num_channels num_samples (mr_sample_rate cmd)) (da_carrier_macs s))
         @ (if stage = DURING_RUN then [RunStateChangeMessage run_id OP ERROR]
            else [RunStateChangeMessage run_id OP OP_END]
              @ map (end_message nm s run_id num_channels) (da_carrier_macs s)
              @ (if stage \<noteq> DROP_DONE_STATE then [RunStateChangeMessage run_id OP_END DONE] else [])))"

section \<open>Handlers\<close>

type_synonym handled = "body res \<times> dummy_dac \<times> client"

definition item_path :: "module_item \<Rightarrow> string" where
  "item_path it = (case it of EntitySpecification p _ \<Rightarrow> p | WiringSpecification p _ _ \<Rightarrow> p | ConfigItem (p, _) \<Rightarrow> p)"

definition handle_reset :: "bool \<Rightarrow> dummy_dac \<Rightarrow> client \<Rightarrow> handled" where
  "handle_reset keep_calibration s c =
     (Inr ResetResponse,
      s\<lparr>da_stored_config := None, da_calibrated := (if keep_calibration then da_calibrated s else False)\<rparr>, c)"

definition handle_config :: "module_item list \<Rightarrow> dummy_dac \<Rightarrow> client \<Rightarrow> handled" where
  "handle_config m s c =
     (if dk_error_stage (da_config s) = AT_CONFIGURE then (Inr ErrorMessage, s, c)
      else (Inr ConfigResponse, s\<lparr>da_stored_config := Some m\<rparr>, c))"

text \<open>The names of the three settings are looked up for the log, which fails for unknown numbers.\<close>

definition handle_calibration :: "int \<Rightarrow> int \<Rightarrow> int \<Rightarrow> dummy_dac \<Rightarrow> client \<Rightarrow> handled" where
  "handle_calibration math gain offset s c =
     (let s = s\<lparr>da_calibrated := (math = 1 \<or> gain = 1 \<or> offset = 1)\<rparr>
      in if {math, gain, offset} \<subseteq> {0, 1} then (Inr CalibrationResponse, s, c) else (Inl ValueError, s, c))"

definition filter_configs_by_path :: "string \<Rightarrow> dummy_dac \<Rightarrow> module_item list" where
  "filter_configs_by_path path s =
     (case da_stored_config s of
        None \<Rightarrow> []
      | Some items \<Rightarrow>
          if path = [] then items
          else let p = (if hd path = CHR ''/'' then path else CHR ''/'' # path)
               in filter (\<lambda>it. take (length p) (item_path it) = p) items)"

definition handle_extract :: "string \<Rightarrow> bool \<Rightarrow> bool \<Rightarrow> dummy_dac \<Rightarrow> client \<Rightarrow> handled" where
  "handle_extract path specification configuration s c =
     (if dk_error_stage (da_config s) = AT_EXTRACT then (Inr ErrorMessage, s, c)
      else (Inr (ExtractResponse
        ((if specification then [EntitySpecification [] (build_entity_tree s)] else [])
         @ (if configuration then filter_configs_by_path path s else []))), s, c))"

definition handle_udp_streaming :: "(int \<Rightarrow> unit res) \<Rightarrow> int \<Rightarrow> dummy_dac \<Rightarrow> client \<Rightarrow> handled" where
  "handle_udp_streaming udp port s c =
     (if \<not> dk_accept_udp_streaming (da_config s) then (Inr UdpDataStreamingRefusedResponse, s, c)
      else case udp port of
          Inl e \<Rightarrow> (Inl e, s, c)
        | Inr _ \<Rightarrow> (Inr SuccessMessage, s, c\<lparr>cl_data_transport := Some port\<rparr>))"

definition handle_start_run :: "dummy_dac \<Rightarrow> client \<Rightarrow> handled" where
  "handle_start_run s c =
     (if dk_error_stage (da_config s) = AT_START_RUN then (Inr ErrorMessage, s, c) else (Inr StartRunResponse, s, c))"

section \<open>Dispatch\<close>

definition is_run_data :: "body \<Rightarrow> bool" where
  "is_run_data b =
     (case b of RunStateChangeMessage _ _ _ \<Rightarrow> True | RunDataMessage _ _ _ _ \<Rightarrow> True | RunDataEndMessage _ _ _ \<Rightarrow> True | _ \<Rightarrow> False)"

definition send_message :: "message \<Rightarrow> client \<Rightarrow> client" where
  "send_message m c =
     c\<lparr>cl_sent := cl_sent c @
       [(case (ms_body m, cl_data_transport c) of
           (Some b, Some port) \<Rightarrow> if is_run_data b then Udp port else Tcp
         | _ \<Rightarrow> Tcp, MessageV1 m)]\<rparr>"

text \<open>\<open>new_message\<close>: without an identifier a new one is generated, also for notifications.\<close>

definition new_message :: "(nat \<Rightarrow> string) \<Rightarrow> client \<Rightarrow> body \<Rightarrow> string option \<Rightarrow> message" where
  "new_message uuid c b i = \<lparr>ms_id = (case i of None \<Rightarrow> uuid (length (cl_sent c)) | Some i \<Rightarrow> i), ms_body = Some b\<rparr>"

definition notify_all :: "(nat \<Rightarrow> string) \<Rightarrow> body list \<Rightarrow> client \<Rightarrow> client" where
  "notify_all uuid bs c = fold (\<lambda>b c. send_message (new_message uuid c b None) c) bs c"

record mock_env =
  me_numerics :: numerics
  me_uuid :: "nat \<Rightarrow> string"
  me_udp :: "int \<Rightarrow> unit res"

text \<open>The registered callbacks; \<open>None\<close> for a kind of message without one.\<close>

definition callback_of :: "mock_env \<Rightarrow> body \<Rightarrow> (dummy_dac \<Rightarrow> client \<Rightarrow> handled) option" where
  "callback_of me b =
     (case b of
        ResetCommandB k \<Rightarrow> Some (handle_reset k)
      | ConfigCommandB m \<Rightarrow> Some (handle_config m)
      | ExtractCommandB p sp cf \<Rightarrow> Some (handle_extract p sp cf)
      | UdpDataStreamingCommandB port \<Rightarrow> Some (handle_udp_streaming (me_udp me) port)
      | StartRunCommandB cmd \<Rightarrow> Some handle_start_run
      | GetOverloadStatusCommandB \<Rightarrow> Some (\<lambda>s c. (Inr (GetOverloadStatusResponse False), s, c))
      | CalibrationCommandB m g off \<Rightarrow> Some (handle_calibration m g off)
      | _ \<Rightarrow> None)"

definition kind_name :: "body \<Rightarrow> string" where
  "kind_name b = (case b of OtherMessage k \<Rightarrow> k | _ \<Rightarrow> [])"

text \<open>What the task that a handler has started sends afterwards.\<close>

definition background :: "mock_env \<Rightarrow> body \<Rightarrow> dummy_dac \<Rightarrow> body list" where
  "background me b s =
     (case b of
        StartRunCommandB cmd \<Rightarrow> if dk_error_stage (da_config s) = AT_START_RUN then [] else mock_execute_run (me_numerics me) s cmd
      | _ \<Rightarrow> [])"

definition process :: "mock_env \<Rightarrow> message \<Rightarrow> dummy_dac \<times> client \<Rightarrow> dummy_dac \<times> client" where
  "process me m = (\<lambda>(s, c).
     case ms_body m of
       None \<Rightarrow> (s, c)
     | Some b \<Rightarrow>
         (case callback_of me b of
            None \<Rightarrow> (s, c\<lparr>cl_warned_unknown := insert (kind_name b) (cl_warned_unknown c)\<rparr>)
          | Some h \<Rightarrow>
              (case h s c of (r, s, c) \<Rightarrow>
                 let reply = (case r of Inl _ \<Rightarrow> ErrorMessage | Inr body \<Rightarrow> body);
                     c = (if ms_id m = [] then c else send_message (new_message (me_uuid me) c reply (Some (ms_id m))) c)
                 in (s, notify_all (me_uuid me) (background me b s) c))))"

definition handle_envelope :: "mock_env \<Rightarrow> envelope \<Rightarrow> dummy_dac \<times> client \<Rightarrow> dummy_dac \<times> client" where
  "handle_envelope me e = (\<lambda>(s, c).
     case e of
       PingCommand \<Rightarrow> (s, c\<lparr>cl_sent := cl_sent c @ [(Tcp, PingResponse)]\<rparr>)
     | MessageV1 m \<Rightarrow> process me m (s, c)
     | _ \<Rightarrow> (s, c))"

definition new_client :: client where
  "new_client = \<lparr>cl_data_transport = None, cl_warned_unknown = {}, cl_sent = []\<rparr>"

text \<open>\<open>_client_connected\<close>: one client, from its connection to its disconnection.\<close>

definition serve :: "mock_env \<Rightarrow> (byte list \<Rightarrow> envelope res) \<Rightarrow> byte list \<Rightarrow> dummy_dac \<Rightarrow> dummy_dac \<times> client" where
  "serve me parse bs s = snd (recv_loop parse (handle_envelope me) bs (s, new_client))"

section \<open>Connecting to the mock\<close>

text \<open>The endpoint that the mock is for the connection manager.\<close>

definition mock_endpoint :: "dummy_dac \<Rightarrow> endpoint" where
  "mock_endpoint s =
     \<lparr>ep_module = (case handle_extract [] True False s new_client of (Inr (ExtractResponse m), _) \<Rightarrow> Inr m | _ \<Rightarrow> Inl RuntimeError),
      ep_control = Inr (), ep_data = Inr ()\<rparr>"

definition mock_connected :: "bool \<Rightarrow> string list \<Rightarrow> bool" where
  "mock_connected lucidac macs =
     (let tree = PbEntity (case macs of [] \<Rightarrow> [] | m # _ \<Rightarrow> CHR ''/'' # m) (entity_class_value DEVICE) 0 0 (0, 0, 0) None
            (map (\<lambda>(i, m). mock_carrier lucidac i m) (enumerate 0 macs));
          r = controller_add_device \<lparr>ep_module = Inr [EntitySpecification [] tree], ep_control = Inr (), ep_data = Inr ()\<rparr> new_controller
      in fst r = Inr () \<and> map spec_path (ct_carriers (snd r)) = map (\<lambda>m. [PS m]) macs \<and>
         map spec_location (ct_carriers (snd r)) = map (\<lambda>i. Some [0, int i]) [0..<length macs] \<and>
         mg_topology (ct_manager (snd r)) = Some (if lucidac then Direct else Proxy))"

lemma lucidac_virtual: "mock_connected True [''00-00-00-00-00-00'']"
  by code_simp

lemma lucidac_physical: "mock_connected True [''AB-CD-EF-12-34-56'']"
  by code_simp

lemma redac_virtual: "mock_connected False [''00-00-00-00-00-00'', ''00-00-00-00-00-01'']"
  by code_simp

lemma redac_physical: "mock_connected False [''AB-CD-EF-12-34-56'', ''AB-CD-EF-12-34-57'']"
  by code_simp

text \<open>
  The controller accepts every mock device. Connecting to a new mock in any of its configurations,
  unless an error at extraction is injected, gives a computer with exactly the carriers of the mock,
  in order, at their addresses and at the locations 0, 1, ... of stack 0; a LUCIDAC is connected
  directly, a REDAC as a proxy.
\<close>

theorem mock_connects:
  assumes "dk_error_stage c \<noteq> AT_EXTRACT"
  shows "case controller_add_device (mock_endpoint (fst (new_dummy_dac False c ctr))) new_controller of (x, s) \<Rightarrow>
    x = Inr () \<and> map spec_path (ct_carriers s) = map (\<lambda>m. [PS m]) (fst (generate_carrier_macs False c ctr)) \<and>
    map spec_location (ct_carriers s) = map (\<lambda>i. Some [0, int i]) [0..<length (fst (generate_carrier_macs False c ctr))] \<and>
    mg_topology (ct_manager s) = Some (if dk_lucidac_mode c then Direct else Proxy)"
proof -
  let ?macs = "fst (generate_carrier_macs False c ctr)"
  have ep: "mock_endpoint (fst (new_dummy_dac False c ctr)) =
      \<lparr>ep_module = Inr [EntitySpecification [] (build_entity_tree (fst (new_dummy_dac False c ctr)))], ep_control = Inr (), ep_data = Inr ()\<rparr>"
    using assms by (simp add: mock_endpoint_def handle_extract_def new_dummy_dac_def split: prod.splits)
  have tree: "build_entity_tree (fst (new_dummy_dac False c ctr)) =
      PbEntity (case ?macs of [] \<Rightarrow> [] | m # _ \<Rightarrow> CHR ''/'' # m) (entity_class_value DEVICE) 0 0 (0, 0, 0) None
        (map (\<lambda>(i, m). mock_carrier (dk_lucidac_mode c) i m) (enumerate 0 ?macs))"
    by (simp add: build_entity_tree_def new_dummy_dac_def split: prod.splits)
  have "mock_connected (dk_lucidac_mode c) ?macs"
    using lucidac_virtual lucidac_physical redac_virtual redac_physical
    by (simp add: generate_carrier_macs_def)
  then show ?thesis
    unfolding ep tree mock_connected_def Let_def by (simp add: split_beta)
qed

section \<open>Runs of the mock\<close>

text \<open>The messages of a run that the client's state callback is called with, for a connection to the carriers \<open>ps\<close>.\<close>

fun pb_run_state :: "run_state \<Rightarrow> int" where
  "pb_run_state NEW = 0" | "pb_run_state ERROR = 1" | "pb_run_state DONE = 2" | "pb_run_state QUEUED = 3"
| "pb_run_state TAKE_OFF = 4" | "pb_run_state IC = 5" | "pb_run_state OP = 6" | "pb_run_state OP_END = 7"
| "pb_run_state TMP_HALT = 8"

definition state_messages :: "body list \<Rightarrow> state_change list" where
  "state_messages bs =
     List.map_filter (\<lambda>b. case b of
        RunStateChangeMessage i old new \<Rightarrow> Some \<lparr>sc_run_id = i, sc_new = pb_run_state new, sc_entity = []\<rparr> | _ \<Rightarrow> None) bs"

lemma run_state_from_pb_run_state: "run_state_from_pb (pb_run_state s) = s"
  by (cases s) (simp_all add: run_state_from_pb_def)

lemma state_messages_simps [simp]:
  "state_messages [] = []"
  "state_messages (RunStateChangeMessage i old new # bs) = \<lparr>sc_run_id = i, sc_new = pb_run_state new, sc_entity = []\<rparr> # state_messages bs"
  "state_messages (RunDataMessage i k e d # bs) = state_messages bs"
  "state_messages (RunDataEndMessage i e d # bs) = state_messages bs"
  "state_messages (xs @ ys) = state_messages xs @ state_messages ys"
  by (simp_all add: state_messages_def List.map_filter_def)

lemma state_messages_chunks: "state_messages (chunk_loop (chunk_message i m n ss a) k start chunk) = []"
  by (induction "chunk_message i m n ss a" k start chunk rule: chunk_loop.induct)
    (subst chunk_loop.simps, simp add: chunk_message_def Let_def)

lemma state_messages_samples: "state_messages (concat (map (send_carrier_samples nm s i n k r) macs)) = []"
  by (induction macs) (simp_all add: send_carrier_samples_def Let_def state_messages_chunks)

lemma state_messages_ends: "state_messages (map (end_message nm s i n) macs) = []"
  by (induction macs) (simp_all add: end_message_def)

definition reported_states :: "error_stage \<Rightarrow> run_state list" where
  "reported_states stage =
     (if stage \<noteq> DROP_TAKEOFF_STATE then [TAKE_OFF] else []) @ [IC, OP]
     @ (if stage = DURING_RUN then [ERROR] else [OP_END] @ (if stage \<noteq> DROP_DONE_STATE then [DONE] else []))"

lemma run_state_messages:
  "state_messages (mock_execute_run nm s cmd) =
     map (\<lambda>st. \<lparr>sc_run_id = mr_id cmd, sc_new = pb_run_state st, sc_entity = []\<rparr>) (reported_states (dk_error_stage (da_config s)))"
  by (simp add: mock_execute_run_def Let_def reported_states_def state_messages_samples state_messages_ends)

text \<open>
  C18. The mock and the session agree on runs. However the state messages of a run of the mock are spread
  over the turns of the event loop, waiting for TAKE_OFF or for DONE on all carriers returns when no
  error is injected; a dropped TAKE_OFF or DONE message makes the wait for that state time out, and an
  error during the run makes the wait for DONE raise the error of the run.
\<close>

theorem mock_run_outcome:
  assumes "concat sched = map (\<lambda>m. (ps, m)) (state_messages (mock_execute_run nm s cmd))"
    and "distinct ps" and "ps \<noteq> []" and "st \<in> {TAKE_OFF, DONE}"
  shows "fst (wait_all (mr_id cmd) st sched (snd (new_tracker ps))) \<in>
    (case dk_error_stage (da_config s) of
       DROP_TAKEOFF_STATE \<Rightarrow> if st = TAKE_OFF then {Inl TimeoutError} else {Inr ()}
     | DROP_DONE_STATE \<Rightarrow> if st = DONE then {Inl TimeoutError} else {Inr ()}
     | DURING_RUN \<Rightarrow> if st = DONE then {Inl RunError} else {Inr (), Inl RunError}
     | _ \<Rightarrow> {Inr ()})"
proof -
  let ?states = "reported_states (dk_error_stage (da_config s))"
  have tr: "tracks ps {} (snd (new_tracker ps))" using new_tracker_tracks assms(2,3) by simp
  have msgs: "concat sched = map (\<lambda>st. (ps, \<lparr>sc_run_id = mr_id cmd, sc_new = pb_run_state st, sc_entity = []\<rparr>)) ?states"
    using assms(1) unfolding run_state_messages by (simp add: comp_def)
  have sub: "\<forall>ms \<in> set sched. \<forall>(pl, msg) \<in> set ms. set pl \<subseteq> set ps"
  proof (intro ballI, clarify)
    fix ms pl msg p assume "ms \<in> set sched" "(pl, msg) \<in> set ms" "p \<in> set pl"
    then have "(pl, msg) \<in> set (concat sched)" by auto
    with \<open>p \<in> set pl\<close> show "p \<in> set ps" unfolding msgs by auto
  qed
  have "schedule_reports (mr_id cmd) ps sched = (\<Union>m \<in> set (concat sched). set (reports_of (mr_id cmd) ps m))"
    by (simp add: schedule_reports_def)
  also have "\<dots> = set ps \<times> set ?states"
    unfolding msgs by (auto simp: reports_of_def run_state_from_pb_run_state)
  finally have rep: "schedule_reports (mr_id cmd) ps sched = set ps \<times> set ?states" .
  define r where "r = fst (wait_all (mr_id cmd) st sched (snd (new_tracker ps)))"
  obtain t' where w: "wait_all (mr_id cmd) st sched (snd (new_tracker ps)) = (r, t')"
    by (metis r_def prod.collapse)
  obtain n where n: "stops_at (mr_id cmd) ps st {} sched n"
    and rn: "r = wait_result ps st ({} \<union> schedule_reports (mr_id cmd) ps (take n sched))"
    by (rule wait_all_tracks [OF tr assms(3) sub w])
  define E where "E = schedule_reports (mr_id cmd) ps (take n sched)"
  have r: "r = (if \<exists>p \<in> set ps. (p, ERROR) \<in> E then Inl RunError else if \<forall>p \<in> set ps. (p, st) \<in> E then Inr () else Inl TimeoutError)"
    using rn by (simp add: wait_result_def erred_def reached_by_all_def E_def)
  have sE: "E \<subseteq> set ps \<times> set ?states"
    unfolding E_def rep [symmetric] by (rule schedule_reports_take)
  have full: "E = set ps \<times> set ?states" if "r = Inl TimeoutError"
    using n that rn rep by (simp add: stops_at_def E_def)
  obtain p where p: "p \<in> set ps" using assms(3) by (cases ps) auto
  have range: "r \<in> {Inr (), Inl RunError, Inl TimeoutError}" unfolding r by simp
  have ok: "r \<noteq> Inl RunError" if "ERROR \<notin> set ?states" unfolding r using sE that by auto
  have missing: "r \<noteq> Inr ()" if "st \<notin> set ?states" unfolding r using sE that p by auto
  have late: "r \<noteq> Inl TimeoutError" if "st \<in> set ?states \<or> ERROR \<in> set ?states"
  proof
    assume "r = Inl TimeoutError"
    with full have "E = set ps \<times> set ?states" by simp
    with that p have "r \<noteq> Inl TimeoutError" unfolding r by auto
    with \<open>r = Inl TimeoutError\<close> show False by simp
  qed
  show ?thesis
    unfolding r_def [symmetric] using range ok missing late assms(4)
    by (cases "dk_error_stage (da_config s)") (auto simp: reported_states_def)
qed

section \<open>Sample chunks\<close>

text \<open>How the values of one channel are read back from the data of a chunk.\<close>

definition channel_values :: "nat \<Rightarrow> body \<Rightarrow> nat list" where
  "channel_values i b =
     (case b of
        RunDataMessage _ _ _ d \<Rightarrow>
          map (\<lambda>k. le_val (slice (4 * (k * dd_channel_stride d + i)) 4 (dd_data d))) [0..<dd_sample_count d]
      | _ \<Rightarrow> [])"

lemma concat_rows_nth:
  assumes "k < n" and "i < length rows"
  shows "concat (map (\<lambda>k. map (f k) rows) [0..<n]) ! (k * length rows + i) = f k (rows ! i) \<and>
    k * length rows + i < length (concat (map (\<lambda>k. map (f k) rows) [0..<n]))"
  using assms(1)
proof (induction n)
  case (Suc n)
  have len: "length (concat (map (\<lambda>k. map (f k) rows) [0..<n])) = n * length rows" for n
    by (induction n) simp_all
  show ?case
  proof (cases "k = n")
    case True
    then show ?thesis using assms(2) by (simp add: nth_append len)
  next
    case False
    with Suc show ?thesis by (simp add: nth_append)
  qed
qed simp

lemma f_bytes_value:
  assumes "k < n" and "i < length rows"
  shows "le_val (slice (4 * (k * length rows + i)) 4 (f_bytes rows n)) = unat (rows ! i ! k)"
proof -
  let ?vs = "concat (map (\<lambda>k. map (\<lambda>row. unat (row ! k)) rows) [0..<n])"
  have v: "?vs ! (k * length rows + i) = unat (rows ! i ! k)" "k * length rows + i < length ?vs"
    using concat_rows_nth [OF assms, of "\<lambda>k row. unat (row ! k)"] by simp_all
  have "unat (rows ! i ! k) < 256 ^ 4"
    using unsigned_less [of "rows ! i ! k", where 'a = nat] by simp
  then show ?thesis
    using slice_pack [OF v(2), of 4 "[]"] v(1) by (simp add: f_bytes_def le_val_le_bytes)
qed

lemma chunk_values:
  assumes "i < n" and "length samples = n" and "start < a" and "\<forall>row \<in> set samples. length row = a"
  shows "channel_values i (chunk_message run_id mac n samples a start chunk) =
    map unat (take 100 (drop start (samples ! i)))"
proof -
  let ?e = "min (start + 100) a" and ?rows = "map (\<lambda>row. drop start (take (min (start + 100) a) row)) samples"
  have row: "length (samples ! i) = a" using assms by simp
  have "le_val (slice (4 * (k * n + i)) 4 (f_bytes ?rows (?e - start))) = unat (samples ! i ! (start + k))" if "k < ?e - start" for k
  proof -
    have "?rows ! i ! k = samples ! i ! (start + k)"
      using that assms(1,2) row by (simp add: less_diff_conv add.commute)
    then show ?thesis using f_bytes_value [OF that, of i ?rows] assms(1,2) by simp
  qed
  moreover have "map unat (take 100 (drop start (samples ! i))) = map (\<lambda>k. unat (samples ! i ! (start + k))) [0..<?e - start]"
    using row assms(3) by (intro nth_equalityI) (auto simp: min_def split: if_splits)
  ultimately show ?thesis
    by (simp add: channel_values_def chunk_message_def Let_def)
qed

lemma chunk_loop_values:
  assumes "i < n" and "length samples = n" and "\<forall>row \<in> set samples. length row = a"
  shows "concat (map (channel_values i) (chunk_loop (chunk_message run_id mac n samples a) a start chunk)) =
    map unat (drop start (samples ! i))"
proof (induction "a - start" arbitrary: start chunk rule: less_induct)
  case less
  have row: "length (samples ! i) = a" using assms by simp
  show ?case
  proof (cases "start < a")
    case True
    have "concat (map (channel_values i) (chunk_loop (chunk_message run_id mac n samples a) a (start + 100) (chunk + 1))) =
        map unat (drop (start + 100) (samples ! i))"
      using True by (intro less) simp
    then show ?thesis
      using True chunk_values [OF assms(1,2) True assms(3)]
      by (subst chunk_loop.simps) (simp flip: map_append, metis add.commute append_take_drop_id drop_drop)
  next
    case False
    then show ?thesis using row by (subst chunk_loop.simps) simp
  qed
qed

definition chunk_shape :: "string \<Rightarrow> string \<Rightarrow> nat \<Rightarrow> body \<Rightarrow> nat option" where
  "chunk_shape run_id mac n b =
     (case b of
        RunDataMessage i k e d \<Rightarrow>
          if i = run_id \<and> e = CHR ''/'' # mac \<and> dd_channel_stride d = n \<and> dd_probes d = [0..<n] \<and> 0 < dd_sample_count d \<and> dd_sample_count d \<le> 100
          then Some k else None
      | _ \<Rightarrow> None)"

lemma chunk_loop_numbers:
  "map (chunk_shape run_id mac n) (chunk_loop (chunk_message run_id mac n samples a) a start chunk) =
     map (\<lambda>j. Some (chunk + j)) [0..<(a - start + 99) div 100]"
proof (induction "a - start" arbitrary: start chunk rule: less_induct)
  case less
  show ?case
  proof (cases "start < a")
    case True
    have "map (chunk_shape run_id mac n) (chunk_loop (chunk_message run_id mac n samples a) a (start + 100) (chunk + 1)) =
        map (\<lambda>j. Some (chunk + 1 + j)) [0..<(a - (start + 100) + 99) div 100]"
      using True by (intro less) simp
    moreover have "(a - start + 99) div 100 = Suc ((a - (start + 100) + 99) div 100)"
    proof (cases "start + 100 \<le> a")
      case True
      then have "a - start + 99 = (a - (start + 100) + 99) + 100" by simp
      then show ?thesis by (simp only:)
    next
      case False
      then show ?thesis using True by (simp add: div_nat_eqI)
    qed
    moreover have "chunk_shape run_id mac n (chunk_message run_id mac n samples a start chunk) = Some chunk"
      using True by (simp add: chunk_shape_def chunk_message_def Let_def)
    ultimately show ?thesis
      using True by (subst chunk_loop.simps) (simp add: upt_conv_Cons map_Suc_upt [symmetric] comp_def del: upt_Suc)
  next
    case False
    then show ?thesis by (subst chunk_loop.simps) simp
  qed
qed

text \<open>
  The chunks of a run carry all of its samples. For each carrier the mock sends one chunk for every
  100 samples begun, numbered from 0 and addressed to the carrier, and the values of a channel in the
  chunks, one chunk after the other, are the samples that were generated for it, or the first half of
  them when fewer samples are injected.
\<close>

theorem chunks_complete:
  fixes nm s run_id n m rate mac
  defines "msgs \<equiv> send_carrier_samples nm s run_id n m rate mac"
    and "a \<equiv> (if dk_error_stage (da_config s) = FEWER_SAMPLES then m div 2 else m)"
  shows "map (chunk_shape run_id mac n) msgs = map Some [0..<(a + 99) div 100] \<and>
    (i < n \<longrightarrow> concat (map (channel_values i) msgs) = map unat (take a (generate_samples nm (da_calibrated s) n m rate ! i)))"
proof -
  let ?samples = "map (take a) (generate_samples nm (da_calibrated s) n m rate)"
  have am: "a \<le> m" by (simp add: a_def)
  have msgs: "msgs = chunk_loop (chunk_message run_id mac n ?samples a) a 0 0"
    by (simp add: msgs_def send_carrier_samples_def Let_def a_def)
  have shape: "length ?samples = n" "\<forall>row \<in> set ?samples. length row = a"
    using am by (auto simp: generate_samples_def)
  have "concat (map (channel_values i) msgs) = map unat (?samples ! i)" if "i < n"
    unfolding msgs using chunk_loop_values [OF that shape, of run_id mac 0 0] by simp
  moreover have "map (chunk_shape run_id mac n) msgs = map Some [0..<(a + 99) div 100]"
    unfolding msgs chunk_loop_numbers by simp
  moreover have "?samples ! i = take a (generate_samples nm (da_calibrated s) n m rate ! i)" if "i < n"
    using shape(1) that by simp
  ultimately show ?thesis by simp
qed

section \<open>Requests\<close>

lemma notify_all_sends: "\<exists>ys. notify_all uuid bs c = c\<lparr>cl_sent := cl_sent c @ ys\<rparr>"
proof (induction bs arbitrary: c)
  case Nil
  then show ?case by (intro exI [of _ "[]"]) (simp add: notify_all_def)
next
  case (Cons b bs)
  let ?c = "send_message (new_message uuid c b None) c"
  obtain x where x: "?c = c\<lparr>cl_sent := cl_sent c @ [x]\<rparr>" by (simp add: send_message_def)
  obtain ys where "notify_all uuid bs ?c = ?c\<lparr>cl_sent := cl_sent ?c @ ys\<rparr>" using Cons.IH by blast
  then have "notify_all uuid (b # bs) c = c\<lparr>cl_sent := cl_sent c @ (x # ys)\<rparr>"
    by (simp add: notify_all_def x)
  then show ?case by blast
qed

lemma handler_frame:
  assumes "callback_of me b = Some h" and "h s c = (r, s', c')"
  shows "cl_sent c' = cl_sent c \<and> cl_warned_unknown c' = cl_warned_unknown c \<and> da_config s' = da_config s \<and>
    da_carrier_macs s' = da_carrier_macs s \<and> (\<forall>body. r = Inr body \<longrightarrow> \<not> is_run_data body)"
  using assms
  by (cases b) (auto simp: callback_of_def handle_reset_def handle_config_def handle_extract_def handle_udp_streaming_def
      handle_start_run_def handle_calibration_def is_run_data_def Let_def split: if_splits sum.splits)

text \<open>
  Every request is answered exactly once, on the control channel and under its identifier; what else
  is sent are the messages of a run. A notification is not answered, and a message without a handler
  only adds to the kinds that were warned about.
\<close>

theorem one_reply:
  assumes "process me \<lparr>ms_id = i, ms_body = Some b\<rparr> (s, c) = (s', c')"
  shows "case callback_of me b of
      None \<Rightarrow> s' = s \<and> cl_sent c' = cl_sent c
    | Some h \<Rightarrow>
        (\<exists>reply notes. cl_sent c' = cl_sent c @ (if i = [] then [] else [(Tcp, MessageV1 \<lparr>ms_id = i, ms_body = Some reply\<rparr>)]) @ notes \<and>
          \<not> is_run_data reply \<and> (case fst (h s c) of Inl _ \<Rightarrow> reply = ErrorMessage | Inr body \<Rightarrow> reply = body) \<and>
          (background me b s' = [] \<longrightarrow> notes = []))"
proof (cases "callback_of me b")
  case None
  then show ?thesis using assms by (auto simp: process_def)
next
  case (Some h)
  obtain r s1 c1 where h: "h s c = (r, s1, c1)" by (cases "h s c")
  note frame = handler_frame [OF Some h]
  let ?reply = "case r of Inl _ \<Rightarrow> ErrorMessage | Inr body \<Rightarrow> body"
  let ?c = "if i = [] then c1 else send_message (new_message (me_uuid me) c1 ?reply (Some i)) c1"
  have p: "s' = s1" "c' = notify_all (me_uuid me) (background me b s1) ?c"
    using assms by (auto simp: process_def Some h Let_def split: if_splits)
  have nodata: "\<not> is_run_data ?reply" using frame by (cases r) (auto simp: is_run_data_def)
  then have sent: "cl_sent ?c = cl_sent c @ (if i = [] then [] else [(Tcp, MessageV1 \<lparr>ms_id = i, ms_body = Some ?reply\<rparr>)])"
    using frame by (auto simp: send_message_def new_message_def split: option.splits)
  obtain ys where ys: "c' = ?c\<lparr>cl_sent := cl_sent ?c @ ys\<rparr>" using notify_all_sends p(2) by blast
  have none: "background me b s' = [] \<longrightarrow> cl_sent c' = cl_sent ?c" using p by (simp add: notify_all_def)
  have "cl_sent c' = cl_sent ?c @ ys" using ys by (metis client.select_convs(3) client.surjective client.update_convs(3))
  with sent nodata none show ?thesis
    by (auto simp: Some h split: sum.splits)
qed

text \<open>The configuration a mock holds, told by the bodies of the messages it has processed.\<close>

fun held :: "error_stage \<Rightarrow> body \<Rightarrow> module_item list option \<Rightarrow> module_item list option" where
  "held stage (ConfigCommandB m) x = (if stage = AT_CONFIGURE then x else Some m)"
| "held stage (ResetCommandB k) x = None"
| "held stage b x = x"

lemma process_held:
  assumes "process me \<lparr>ms_id = i, ms_body = Some b\<rparr> (s, c) = (s', c')"
  shows "da_stored_config s' = held (dk_error_stage (da_config s)) b (da_stored_config s) \<and> da_config s' = da_config s"
  using assms
  by (cases b) (auto simp: process_def callback_of_def handle_reset_def handle_config_def handle_extract_def handle_udp_streaming_def
      handle_start_run_def handle_calibration_def Let_def split: if_splits sum.splits)

text \<open>
  What the mock returns for its configuration is what was set last. After any sequence of messages, an
  extraction of the whole configuration yields the module of the last configuration command that was
  accepted, or nothing when there was none since the last reset.
\<close>

theorem configuration_extracted:
  assumes "fold (\<lambda>(i, b). process me \<lparr>ms_id = i, ms_body = Some b\<rparr>) msgs (s, c) = (s', c')"
    and "dk_error_stage (da_config s) \<noteq> AT_EXTRACT"
  shows "fst (handle_extract [] False True s' c') = Inr (ExtractResponse
    (case fold (held (dk_error_stage (da_config s))) (map snd msgs) (da_stored_config s) of None \<Rightarrow> [] | Some m \<Rightarrow> m))"
proof -
  have "da_stored_config s' = fold (held (dk_error_stage (da_config s))) (map snd msgs) (da_stored_config s) \<and> da_config s' = da_config s"
    using assms(1)
  proof (induction msgs arbitrary: s c)
    case (Cons x msgs)
    obtain i b where x: "x = (i, b)" by (cases x)
    obtain s1 c1 where p: "process me \<lparr>ms_id = i, ms_body = Some b\<rparr> (s, c) = (s1, c1)" by fastforce
    with Cons.prems have "fold (\<lambda>(i, b). process me \<lparr>ms_id = i, ms_body = Some b\<rparr>) msgs (s1, c1) = (s', c')" by (simp add: x)
    from Cons.IH [OF this] process_held [OF p] show ?case by (simp add: x)
  qed simp
  then show ?thesis
    using assms(2) by (simp add: handle_extract_def filter_configs_by_path_def split: option.splits)
qed

section \<open>Witnesses\<close>

definition demo_mock_env :: mock_env where
  "demo_mock_env =
     \<lparr>me_numerics = \<lparr>nm_sine = (\<lambda>_ i k. word_of_nat (1000 * i + k)), nm_f32 = (\<lambda>_. 0), nm_half = (\<lambda>x. drop_bit 1 x)\<rparr>,
      me_uuid = (\<lambda>n. ''u'' @ nat_str n), me_udp = (\<lambda>_. Inr ())\<rparr>"

definition demo_config :: "error_stage \<Rightarrow> dummy_config" where
  "demo_config stage =
     \<lparr>dk_mac_mode = VIRTUAL, dk_accept_udp_streaming = True, dk_error_stage = stage, dk_error_message = None, dk_lucidac_mode = True\<rparr>"

definition demo_dac :: "error_stage \<Rightarrow> dummy_dac" where
  "demo_dac stage = fst (new_dummy_dac False (demo_config stage) 0)"

definition demo_command :: mock_run_command where
  "demo_command = \<lparr>mr_id = ''r'', mr_op_time = (250, MILLI), mr_sample_rate = 1000, mr_num_channels = 2\<rparr>"

lemma demo_stage: "dk_error_stage (da_config (demo_dac stage)) = stage"
  by (simp add: demo_dac_def new_dummy_dac_def demo_config_def split: prod.splits)

theorem mock_connects_witness:
  "fst (controller_add_device (mock_endpoint (demo_dac NoError)) new_controller) = Inr ()"
  using mock_connects [of "demo_config NoError" 0] by (simp add: demo_dac_def demo_config_def split: prod.splits)

theorem mock_run_outcome_witness:
  "\<exists>sched. concat sched = map (\<lambda>m. ([[PS ''00-00-00-00-00-00'']], m)) (state_messages (mock_execute_run (me_numerics demo_mock_env) (demo_dac DROP_DONE_STATE) demo_command)) \<and>
     fst (wait_all (mr_id demo_command) DONE sched (snd (new_tracker [[PS ''00-00-00-00-00-00'']]))) = Inl TimeoutError"
proof -
  let ?ps = "[[PS ''00-00-00-00-00-00'']]"
  let ?sched = "[map (\<lambda>m. (?ps, m)) (state_messages (mock_execute_run (me_numerics demo_mock_env) (demo_dac DROP_DONE_STATE) demo_command))]"
  have "fst (wait_all (mr_id demo_command) DONE ?sched (snd (new_tracker ?ps))) = Inl TimeoutError"
    using mock_run_outcome [of ?sched ?ps "me_numerics demo_mock_env" "demo_dac DROP_DONE_STATE" demo_command DONE]
    by (simp add: demo_stage)
  then show ?thesis by (intro exI [of _ ?sched]) simp
qed

theorem chunks_complete_witness:
  "concat (map (channel_values 1) (send_carrier_samples (me_numerics demo_mock_env) (demo_dac NoError) ''r'' 2 3 1000 ''m'')) = [1000, 1001, 1002]"
proof -
  have "\<not> da_calibrated (demo_dac NoError)"
    by (simp add: demo_dac_def new_dummy_dac_def split: prod.splits)
  moreover have "map unat (generate_samples (me_numerics demo_mock_env) False 2 3 1000 ! 1) = [1000, 1001, 1002]"
    by code_simp
  moreover have "length (generate_samples (me_numerics demo_mock_env) False 2 3 1000 ! 1) = 3"
    by code_simp
  ultimately show ?thesis
    using chunks_complete [of "''r''" "''m''" 2 "me_numerics demo_mock_env" "demo_dac NoError" 3 1000 1]
    by (simp add: demo_stage)
qed

theorem one_reply_witness:
  "\<exists>s' c'. process demo_mock_env \<lparr>ms_id = ''7'', ms_body = Some (CalibrationCommandB 5 0 1)\<rparr> (demo_dac NoError, new_client) = (s', c') \<and>
     cl_sent c' = [(Tcp, MessageV1 \<lparr>ms_id = ''7'', ms_body = Some ErrorMessage\<rparr>)]"
proof -
  obtain s' c' where p: "process demo_mock_env \<lparr>ms_id = ''7'', ms_body = Some (CalibrationCommandB 5 0 1)\<rparr> (demo_dac NoError, new_client) = (s', c')"
    by fastforce
  from one_reply [OF p] have "cl_sent c' = [(Tcp, MessageV1 \<lparr>ms_id = ''7'', ms_body = Some ErrorMessage\<rparr>)]"
    by (auto simp: callback_of_def handle_calibration_def background_def new_client_def)
  with p show ?thesis by blast
qed

theorem configuration_extracted_witness:
  "\<exists>s' c'. fold (\<lambda>(i, b). process demo_mock_env \<lparr>ms_id = i, ms_body = Some b\<rparr>)
       [(''1'', ConfigCommandB []), (''2'', ConfigCommandB [ConfigItem (''/x'', None)]), (''3'', StartRunCommandB demo_command)] (demo_dac NoError, new_client) = (s', c') \<and>
     fst (handle_extract [] False True s' c') = Inr (ExtractResponse [ConfigItem (''/x'', None)])"
proof -
  let ?ms = "[(''1'', ConfigCommandB []), (''2'', ConfigCommandB [ConfigItem (''/x'', None)]), (''3'', StartRunCommandB demo_command)]"
  obtain s' c' where p: "fold (\<lambda>(i, b). process demo_mock_env \<lparr>ms_id = i, ms_body = Some b\<rparr>) ?ms (demo_dac NoError, new_client) = (s', c')"
    by fastforce
  from configuration_extracted [OF p] have "fst (handle_extract [] False True s' c') = Inr (ExtractResponse [ConfigItem (''/x'', None)])"
    by (simp add: demo_stage)
  with p show ?thesis by blast
qed

end
