(* ===== verification/Simulator.thy ===== *)
theory Simulator
  imports Transmission
begin

text \<open>
  The simulator (sim/config.py, sim/computer.py, sim/protocol/serializer.py): a REDAC with one more
  entity, the simulation settings at the root path, which are sent and read like the configuration
  of a board.

  Settings name the plugins that stand for external circuits and bind their pins to ACL ports; on
  the wire a binding is a pair of plugs with printed paths. The entities of a simulator are boards
  or the settings, so that the transfer of a configuration is another instance of \<open>entity_codec\<close>.
\<close>

section \<open>Settings\<close>

record acl_plugin =
  ap_plugin :: string
  ap_label :: string
  ap_parameters :: "rat list"

record acl_bind =
  ab_acl :: int
  ab_plugin :: string
  ab_pin :: int

record acl_config =
  ac_plugins :: "acl_plugin list"
  ac_inputs :: "acl_bind list"
  ac_outputs :: "acl_bind list"

record sim_config =
  sc_with_limits :: bool
  sc_k0 :: "int option"
  sc_only_module_sinks :: bool
  sc_acl_config :: "acl_config option"

definition new_sim_config :: sim_config where
  "new_sim_config = \<lparr>sc_with_limits = True, sc_k0 = Some 10000, sc_only_module_sinks = False, sc_acl_config = None\<rparr>"

section \<open>Messages\<close>

text \<open>The kind of a plug is an open enumeration; a plug that is not set has no kind.\<close>

record acl_plug =
  pl_kind :: int
  pl_path :: string

abbreviation Device_kind :: int where "Device_kind \<equiv> 0"
abbreviation Plugin_kind :: int where "Plugin_kind \<equiv> 1"

record acl_wire =
  aw_source :: "acl_plug option"
  aw_target :: "acl_plug option"

record pb_sim_config =
  ps_k0 :: "int option"
  ps_with_limits :: bool
  ps_only_module_sinks :: bool
  ps_acl_config :: "(acl_plugin list \<times> acl_wire list) option"

definition plugin_plug :: "acl_bind \<Rightarrow> acl_plug" where
  "plugin_plug b = \<lparr>pl_kind = Plugin_kind, pl_path = ''plugins/'' @ ab_plugin b @ ''/'' @ int_str (ab_pin b)\<rparr>"

definition device_plug :: "acl_bind \<Rightarrow> acl_plug" where
  "device_plug b = \<lparr>pl_kind = Device_kind, pl_path = ''00-00-00-00-00-00/0/'' @ int_str (24 + ab_acl b)\<rparr>"

definition float_plugin :: "pb_wire \<Rightarrow> acl_plugin \<Rightarrow> acl_plugin" where
  "float_plugin w p = p\<lparr>ap_parameters := map (pb_float w) (ap_parameters p)\<rparr>"

definition ser_acl :: "pb_wire \<Rightarrow> acl_config \<Rightarrow> acl_plugin list \<times> acl_wire list" where
  "ser_acl w a =
     (map (float_plugin w) (ac_plugins a),
      map (\<lambda>b. \<lparr>aw_source = Some (plugin_plug b), aw_target = Some (device_plug b)\<rparr>) (ac_inputs a) @
      map (\<lambda>b. \<lparr>aw_source = Some (device_plug b), aw_target = Some (plugin_plug b)\<rparr>) (ac_outputs a))"

text \<open>\<open>if sim_config.k0\<close> also holds 0 back.\<close>

definition ser_sim_config :: "pb_wire \<Rightarrow> sim_config \<Rightarrow> pb_sim_config res" where
  "ser_sim_config w c =
     rbind (case sc_k0 c of
              None \<Rightarrow> Inr None
            | Some k \<Rightarrow> if k = 0 then Inr None else rbind (pb_uint32 w k) (\<lambda>k. Inr (Some k))) (\<lambda>k.
     Inr \<lparr>ps_k0 = k, ps_with_limits = sc_with_limits c, ps_only_module_sinks = sc_only_module_sinks c,
          ps_acl_config = map_option (ser_acl w) (sc_acl_config c)\<rparr>)"

section \<open>Reading\<close>

fun find_label :: "acl_plugin list \<Rightarrow> string \<Rightarrow> string option" where
  "find_label [] s = None"
| "find_label (p # ps) s = (if ap_label p = s then Some (ap_label p) else find_label ps s)"

text \<open>The binding of a plugin plug and a device plug; an empty label counts as not found.\<close>

definition read_bind :: "acl_plugin list \<Rightarrow> string \<Rightarrow> string \<Rightarrow> acl_bind res" where
  "read_bind ps plugin_path device_path =
     (let pl = split_on CHR ''/'' plugin_path; dv = split_on CHR ''/'' device_path in
      if length pl \<ge> 3 \<and> length dv \<ge> 3 then
        rbind (py_int (pl ! 2)) (\<lambda>pin.
        rbind (py_int (dv ! 2)) (\<lambda>port.
        (case find_label ps (pl ! 1) of
           Some name \<Rightarrow> if name = [] then Inl PlainException
             else Inr \<lparr>ab_acl = port - 24, ab_plugin = name, ab_pin = pin\<rparr>
         | None \<Rightarrow> Inl PlainException)))
      else Inl PlainException)"

definition read_wire :: "acl_plugin list \<Rightarrow> acl_wire \<Rightarrow> acl_bind list \<times> acl_bind list \<Rightarrow> (acl_bind list \<times> acl_bind list) res" where
  "read_wire ps wire io =
     (case (aw_source wire, aw_target wire) of
        (Some s, Some t) \<Rightarrow>
          if pl_kind s = Plugin_kind \<and> pl_kind t = Device_kind
          then rbind (read_bind ps (pl_path s) (pl_path t)) (\<lambda>b. Inr (fst io @ [b], snd io))
          else if pl_kind s = Device_kind \<and> pl_kind t = Plugin_kind
          then rbind (read_bind ps (pl_path t) (pl_path s)) (\<lambda>b. Inr (fst io, snd io @ [b]))
          else Inl PlainException
      | _ \<Rightarrow> Inl PlainException)"

definition read_acl :: "acl_plugin list \<times> acl_wire list \<Rightarrow> acl_config res" where
  "read_acl m =
     rbind (rfold (read_wire (fst m)) (snd m) ([], [])) (\<lambda>(ins, outs).
     Inr \<lparr>ac_plugins = fst m, ac_inputs = ins, ac_outputs = outs\<rparr>)"

text \<open>The field \<open>k0\<close> of the message is not read.\<close>

definition des_sim_config :: "pb_sim_config \<Rightarrow> sim_config \<Rightarrow> sim_config res" where
  "des_sim_config m c =
     (let c = c\<lparr>sc_with_limits := ps_with_limits m, sc_only_module_sinks := ps_only_module_sinks m\<rparr> in
      case ps_acl_config m of
        None \<Rightarrow> Inr c
      | Some a \<Rightarrow> rbind (read_acl a) (\<lambda>a. Inr (c\<lparr>sc_acl_config := Some a\<rparr>)))"

section \<open>The computer\<close>

datatype sim_entity = Board config_entity | Settings sim_config
datatype sim_payload = BoardItem "payload option" | SimItem pb_sim_config

text \<open>
  The settings are a class attribute: all simulators of one process share one object. A \<open>simulator\<close> is
  the computer of one process together with that object, so that a sender and a receiver have
  settings of their own only when they are in different processes; two simulators of one process are
  the case where the settings of both are equal.
\<close>

record simulator =
  si_redac :: redac
  si_config :: sim_config

fun ser_sim_entity :: "pb_wire \<Rightarrow> sim_entity \<Rightarrow> sim_payload list res" where
  "ser_sim_entity w (Board e) = rbind (ser_entity w e) (\<lambda>ps. Inr (map BoardItem ps))"
| "ser_sim_entity w (Settings c) = rbind (ser_sim_config w c) (\<lambda>m. Inr [SimItem m])"

text \<open>
  Settings sent to a board become attributes that boards do not otherwise have; a board's
  configuration sent to the root raises like on any entity without the field.
\<close>

fun des_sim_item :: "sim_payload \<Rightarrow> sim_entity \<Rightarrow> sim_entity res" where
  "des_sim_item (BoardItem p) (Board e) = rbind (des_item p e) (\<lambda>e. Inr (Board e))"
| "des_sim_item (BoardItem p) (Settings c) = (case p of None \<Rightarrow> Inr (Settings c) | Some _ \<Rightarrow> Inl AttributeError)"
| "des_sim_item (SimItem m) (Settings c) = rbind (des_sim_config m c) (\<lambda>c. Inr (Settings c))"
| "des_sim_item (SimItem m) (Board e) =
     rbind (case ps_acl_config m of None \<Rightarrow> Inr () | Some a \<Rightarrow> rbind (read_acl a) (\<lambda>_. Inr ())) (\<lambda>_. Inr (Board e))"

fun sim_ignored :: "sim_payload \<Rightarrow> bool" where
  "sim_ignored (BoardItem p) = ignored p"
| "sim_ignored (SimItem m) = False"

text \<open>\<open>[*self.entities, self.sim_config]\<close>, and the dictionary of the entities with the settings at the root.\<close>

definition sim_entities :: "simulator \<Rightarrow> (path \<times> sim_entity) list" where
  "sim_entities s = map (\<lambda>(p, e). (p, Board e)) (traversal (config_entities (si_redac s))) @ [([], Settings (si_config s))]"

definition sim_dict :: "simulator \<Rightarrow> path \<rightharpoonup> sim_entity" where
  "sim_dict s = (map_option Board \<circ> build_entity_path_dict (config_entities (si_redac s)))([] \<mapsto> Settings (si_config s))"

definition sim_serialize ::
    "nat \<Rightarrow> pb_wire \<Rightarrow> simulator \<Rightarrow> routing \<Rightarrow> (string \<times> sim_payload) list res option \<times> routing" where
  "sim_serialize fuel w s rt =
     (case collect (ser_sim_entity w) path_str (sim_entities s) of
        Inl e \<Rightarrow> (Some (Inl e), rt)
      | Inr its \<Rightarrow>
          (case serialize_dependency_info fuel (si_redac s) rt of
             (m, rt) \<Rightarrow> (dbind m (\<lambda>deps. Some (Inr (its @ map (\<lambda>(p, q). (p, BoardItem q)) deps))), rt)))"

definition sim_deserialize :: "(string \<times> sim_payload) list \<Rightarrow> (path \<rightharpoonup> sim_entity) \<Rightarrow> (path \<rightharpoonup> sim_entity) res" where
  "sim_deserialize its d = rfold (apply_to sim_ignored (path_parse redac_schema (\<lambda>_. None)) des_sim_item) its d"

section \<open>Round trip of the bindings\<close>

text \<open>A binding that can be read back: its plugin is one of the labels, not empty and without a slash.\<close>

definition bind_ok :: "acl_plugin list \<Rightarrow> acl_bind \<Rightarrow> bool" where
  "bind_ok ps b \<longleftrightarrow> ab_plugin b \<in> ap_label ` set ps \<and> ab_plugin b \<noteq> [] \<and> CHR ''/'' \<notin> set (ab_plugin b)"

definition acl_ok :: "acl_config \<Rightarrow> bool" where
  "acl_ok a \<longleftrightarrow> (\<forall>b \<in> set (ac_inputs a) \<union> set (ac_outputs a). bind_ok (ac_plugins a) b)"

definition settings_ok :: "sim_config \<Rightarrow> bool" where
  "settings_ok c \<longleftrightarrow> (case sc_k0 c of None \<Rightarrow> True | Some k \<Rightarrow> u32 k) \<and>
     (case sc_acl_config c of None \<Rightarrow> True | Some a \<Rightarrow> acl_ok a)"

text \<open>What arrives: everything but \<open>k0\<close>, and the receiver's plugins stay when none are sent.\<close>

definition settings_received :: "pb_wire \<Rightarrow> sim_config \<Rightarrow> sim_config \<Rightarrow> sim_config" where
  "settings_received w c0 c =
     \<lparr>sc_with_limits = sc_with_limits c, sc_k0 = sc_k0 c0, sc_only_module_sinks = sc_only_module_sinks c,
      sc_acl_config = (case sc_acl_config c of
          None \<Rightarrow> sc_acl_config c0
        | Some a \<Rightarrow> Some (a\<lparr>ac_plugins := map (float_plugin w) (ac_plugins a)\<rparr>))\<rparr>"

lemma find_label_eq: "find_label ps s = (if s \<in> ap_label ` set ps then Some s else None)"
  by (induction ps) auto

lemma labels_float: "ap_label ` set (map (float_plugin w) ps) = ap_label ` set ps"
  by (simp add: image_image float_plugin_def)

lemma split_plugin_path:
  assumes "CHR ''/'' \<notin> set s"
  shows "split_on CHR ''/'' (''plugins/'' @ s @ ''/'' @ int_str i) = [''plugins'', s, int_str i]"
  using assms split_on_append [of "CHR ''/''" s "int_str i"] split_on_append [of "CHR ''/''" "''plugins''" "s @ ''/'' @ int_str i"]
  by (simp add: split_on_no_sep int_str_no_slash)

lemma split_device_path:
  "split_on CHR ''/'' (''00-00-00-00-00-00/0/'' @ int_str i) = [''00-00-00-00-00-00'', ''0'', int_str i]"
  by (simp add: split_on_no_sep int_str_no_slash)

lemma read_bind_printed:
  assumes "bind_ok ps b"
  shows "read_bind ps (pl_path (plugin_plug b)) (pl_path (device_plug b)) = Inr b"
  using assms
  by (simp add: read_bind_def plugin_plug_def device_plug_def split_plugin_path [simplified] split_device_path [simplified]
      find_label_eq bind_ok_def)

lemma plug_kinds [simp]: "pl_kind (plugin_plug b) = Plugin_kind" "pl_kind (device_plug b) = Device_kind"
  by (simp_all add: plugin_plug_def device_plug_def)

lemma read_inputs:
  assumes "\<forall>b \<in> set bs. bind_ok ps b"
  shows "rfold (read_wire ps) (map (\<lambda>b. \<lparr>aw_source = Some (plugin_plug b), aw_target = Some (device_plug b)\<rparr>) bs) (ins, outs) =
    Inr (ins @ bs, outs)"
  using assms by (induction bs arbitrary: ins) (simp_all add: read_wire_def read_bind_printed)

lemma read_outputs:
  assumes "\<forall>b \<in> set bs. bind_ok ps b"
  shows "rfold (read_wire ps) (map (\<lambda>b. \<lparr>aw_source = Some (device_plug b), aw_target = Some (plugin_plug b)\<rparr>) bs) (ins, outs) =
    Inr (ins, outs @ bs)"
  using assms by (induction bs arbitrary: outs) (simp_all add: read_wire_def read_bind_printed)

lemma read_acl_printed:
  assumes "acl_ok a"
  shows "read_acl (ser_acl w a) = Inr (a\<lparr>ac_plugins := map (float_plugin w) (ac_plugins a)\<rparr>)"
proof -
  have ok: "bind_ok (map (float_plugin w) (ac_plugins a)) b" if "b \<in> set (ac_inputs a) \<union> set (ac_outputs a)" for b
    using assms that unfolding acl_ok_def bind_ok_def labels_float by blast
  show ?thesis
    using ok by (simp add: read_acl_def ser_acl_def rfold_append read_inputs read_outputs)
qed

lemma settings_roundtrip:
  assumes "wire_ok w" and "settings_ok c"
  shows "\<exists>m. ser_sim_config w c = Inr m \<and> des_sim_config m c0 = Inr (settings_received w c0 c)"
proof -
  have "\<exists>k. (case sc_k0 c of None \<Rightarrow> Inr None
      | Some k \<Rightarrow> if k = 0 then Inr None else rbind (pb_uint32 w k) (\<lambda>k. Inr (Some k))) = Inr k"
    using assms by (auto simp: settings_ok_def wire_ok_def u32_def split: option.splits)
  then obtain k where k: "ser_sim_config w c =
      Inr \<lparr>ps_k0 = k, ps_with_limits = sc_with_limits c, ps_only_module_sinks = sc_only_module_sinks c,
          ps_acl_config = map_option (ser_acl w) (sc_acl_config c)\<rparr>"
    by (auto simp: ser_sim_config_def)
  show ?thesis
    using assms(2) unfolding k
    by (cases c0) (auto simp: des_sim_config_def settings_ok_def settings_received_def read_acl_printed split: option.splits)
qed

text \<open>The settings and the boards together: a second instance of the transfer of entities.\<close>

fun sim_sendable :: "sim_entity \<Rightarrow> bool" where
  "sim_sendable (Board e) = sendable e"
| "sim_sendable (Settings c) = settings_ok c"

fun sim_same :: "sim_entity \<Rightarrow> sim_entity \<Rightarrow> bool" where
  "sim_same (Board e0) (Board e) = same_board e0 e"
| "sim_same (Settings c0) (Settings c) = True"
| "sim_same _ _ = False"

fun sim_received :: "pb_wire \<Rightarrow> sim_entity \<Rightarrow> sim_entity \<Rightarrow> sim_entity" where
  "sim_received w (Board e0) (Board e) = Board (received w e0 e)"
| "sim_received w (Settings c0) (Settings c) = Settings (settings_received w c0 c)"
| "sim_received w e0 e = e0"

lemma des_board_items: "rfold des_sim_item (map BoardItem ps) (Board e) = rbind (rfold des_item ps e) (\<lambda>e. Inr (Board e))"
proof (induction ps arbitrary: e)
  case (Cons p ps)
  then show ?case by (cases "des_item p e") simp_all
qed simp

interpretation simulator_config: entity_codec path_str "path_parse redac_schema (\<lambda>_. None)" addressable
    "ser_sim_entity w" des_sim_item sim_ignored "\<lambda>e. wire_ok w \<and> sim_sendable e" sim_same "sim_received w" for w
proof unfold_locales
  show "\<exists>ps. ser_sim_entity w e = Inr ps \<and> rfold des_sim_item ps e0 = Inr (sim_received w e0 e)"
    if ok: "wire_ok w \<and> sim_sendable e" and same: "sim_same e0 e" for e e0
  proof (cases e)
    case (Board b)
    with same obtain b0 where b0: "e0 = Board b0" "same_board b0 b" by (cases e0) auto
    then obtain ps where "ser_entity w b = Inr ps" "rfold des_item ps b0 = Inr (received w b0 b)"
      using redac_config.codec [of w b b0] ok Board by auto
    then show ?thesis by (intro exI [of _ "map BoardItem ps"]) (simp add: Board b0 des_board_items)
  next
    case (Settings c)
    with same obtain c0 where c0: "e0 = Settings c0" by (cases e0) auto
    obtain m where "ser_sim_config w c = Inr m" "des_sim_config m c0 = Inr (settings_received w c0 c)"
      using settings_roundtrip [of w c c0] ok Settings by auto
    then show ?thesis by (intro exI [of _ "[SimItem m]"]) (simp add: Settings c0)
  qed
  show "des_sim_item p e' = Inr e'" if a: "sim_ignored p" "ser_sim_entity w e = Inr ps" "p \<in> set ps" for p e ps e'
  proof (cases p)
    case (BoardItem q)
    obtain b qs where b: "e = Board b" "ser_entity w b = Inr qs" "ps = map BoardItem qs"
      using a(2,3) BoardItem by (cases e) (auto simp: rbind_eq_Inr_iff)
    then have "ignored q" "q \<in> set qs"
      using a BoardItem by auto
    then have "q = None"
      using ser_entity_no_dependency [OF b(2)] by (auto simp: ignored_def split: option.splits payload.splits)
    with BoardItem show ?thesis by (cases e') (simp_all add: des_item_def)
  qed (use a(1) in simp)
qed

section \<open>Transfer of a simulator configuration\<close>

lemma sim_apply_ignored: "(\<And>it. it \<in> set its \<Longrightarrow> sim_ignored (snd it)) \<Longrightarrow> sim_deserialize its d = Inr d"
  unfolding sim_deserialize_def by (induction its) (auto simp: apply_to_def)

definition sim_receivable :: "simulator \<Rightarrow> (path \<rightharpoonup> sim_entity) \<Rightarrow> bool" where
  "sim_receivable s d \<longleftrightarrow>
     distinct (map fst (sim_entities s)) \<and>
     (\<forall>(p, e) \<in> set (sim_entities s). canonical_path p \<and> sim_sendable e \<and>
        (case d p of None \<Rightarrow> False | Some e0 \<Rightarrow> sim_same e0 e))"

lemma simulator_applied:
  assumes "wire_ok w" and "sim_receivable s d" and "serialize_dependency_info fuel (si_redac s) rt = (Some (Inr deps), rt')"
  shows "\<exists>its d'. sim_serialize fuel w s rt = (Some (Inr its), rt') \<and> sim_deserialize its d = Inr d' \<and>
    (\<forall>p e. (p, e) \<in> set (sim_entities s) \<longrightarrow> d' p = Some (sim_received w (the (d p)) e)) \<and>
    (\<forall>p. p \<notin> fst ` set (sim_entities s) \<longrightarrow> d' p = d p)"
proof -
  obtain its1 d' where e: "collect (ser_sim_entity w) path_str (sim_entities s) = Inr its1"
      "sim_deserialize its1 d = Inr d'"
      "\<forall>p e. (p, e) \<in> set (sim_entities s) \<longrightarrow> d' p = Some (sim_received w (the (d p)) e)"
      "\<forall>p. p \<notin> fst ` set (sim_entities s) \<longrightarrow> d' p = d p"
    using simulator_config.transfer [of "sim_entities s" w d] assms(1,2)
    by (auto simp: sim_receivable_def addressable_def sim_deserialize_def split: option.splits) blast
  let ?its = "its1 @ map (\<lambda>(p, q). (p, BoardItem q)) deps"
  have "sim_deserialize (map (\<lambda>(p, q). (p, BoardItem q)) deps) d' = Inr d'"
    by (rule sim_apply_ignored) (use dependency_ignored [OF assms(3)] in force)
  then have "sim_deserialize ?its d = Inr d'"
    using e(2) by (simp add: sim_deserialize_def rfold_append)
  moreover have "sim_serialize fuel w s rt = (Some (Inr ?its), rt')"
    using assms(3) e(1) by (simp add: sim_serialize_def dbind_def)
  ultimately show ?thesis
    using e(3,4) by blast
qed

lemma sim_entities_cases:
  "(p, e) \<in> set (sim_entities s) \<longleftrightarrow>
     (\<exists>b. e = Board b \<and> (p, b) \<in> set (traversal (config_entities (si_redac s)))) \<or> p = [] \<and> e = Settings (si_config s)"
  by (auto simp: sim_entities_def)

lemma sim_dict_board:
  "sim_dict r p = Some (Board b) \<Longrightarrow> build_entity_path_dict (config_entities (si_redac r)) p = Some b"
  by (auto simp: sim_dict_def split: if_splits)


text \<open>
  A binding to a plugin that is not among the labels is sent without complaint and only refused by
  the reader.
\<close>

lemma read_bind_unknown:
  assumes "CHR ''/'' \<notin> set (ab_plugin b)"
  shows "read_bind ps (pl_path (plugin_plug b)) (pl_path (device_plug b)) = (if bind_ok ps b then Inr b else Inl PlainException)"
  using assms
  by (simp add: read_bind_def plugin_plug_def device_plug_def split_plugin_path [simplified] split_device_path [simplified]
      find_label_eq bind_ok_def)

lemma rfold_one_error:
  assumes "x \<in> set xs" and "\<And>s. f x s = Inl e" and "\<And>y s e'. y \<in> set xs \<Longrightarrow> f y s = Inl e' \<Longrightarrow> e' = e"
  shows "rfold f xs s = Inl e"
  using assms
proof (induction xs arbitrary: s)
  case (Cons y ys)
  show ?case
  proof (cases "f y s")
    case (Inl e')
    then show ?thesis using Cons.prems(3) [of y s e'] by simp
  next
    case (Inr s')
    then have "x \<in> set ys" using Cons.prems(1,2) by auto
    then have "rfold f ys s' = Inl e"
      by (rule Cons.IH) (use Cons.prems(2,3) in auto)
    with Inr show ?thesis by simp
  qed
qed simp

lemma unknown_plugin_sent:
  assumes "wire_ok w" and "case sc_k0 c of None \<Rightarrow> True | Some k \<Rightarrow> u32 k" and "sc_acl_config c = Some a"
    and "\<forall>b \<in> set (ac_inputs a) \<union> set (ac_outputs a). CHR ''/'' \<notin> set (ab_plugin b)"
    and "b \<in> set (ac_inputs a) \<union> set (ac_outputs a)" and "ab_plugin b \<notin> ap_label ` set (ac_plugins a)"
  shows "\<exists>m. ser_sim_config w c = Inr m \<and> des_sim_config m c0 = Inl PlainException"
proof -
  let ?ps = "map (float_plugin w) (ac_plugins a)"
  have "rfold (read_wire ?ps) (snd (ser_acl w a)) ([], []) = Inl PlainException"
  proof (rule rfold_one_error)
    let ?x = "if b \<in> set (ac_inputs a) then \<lparr>aw_source = Some (plugin_plug b), aw_target = Some (device_plug b)\<rparr>
      else \<lparr>aw_source = Some (device_plug b), aw_target = Some (plugin_plug b)\<rparr>"
    show "?x \<in> set (snd (ser_acl w a))"
      using assms(5) by (auto simp: ser_acl_def)
    show "read_wire ?ps ?x s = Inl PlainException" for s
      using assms(4) [rule_format, OF assms(5)] assms(6) labels_float [of w "ac_plugins a"]
      by (simp add: read_wire_def read_bind_unknown bind_ok_def)
    show "e' = PlainException" if "y \<in> set (snd (ser_acl w a))" "read_wire ?ps y s = Inl e'" for y s e'
      using that assms(4) by (auto simp: ser_acl_def read_wire_def read_bind_unknown split: if_splits)
  qed
  then have "read_acl (ser_acl w a) = Inl PlainException"
    by (simp add: read_acl_def ser_acl_def)
  then show ?thesis
    using assms(1-3) by (auto simp: ser_sim_config_def des_sim_config_def wire_ok_def u32_def split: option.splits)
qed

text \<open>A simulator with one plugin, bound to an input and an output.\<close>

definition demo_settings :: sim_config where
  "demo_settings = new_sim_config\<lparr>sc_k0 := Some 100, sc_only_module_sinks := True, sc_acl_config := Some
     \<lparr>ac_plugins = [\<lparr>ap_plugin = ''noise'', ap_label = ''n0'', ap_parameters = [1 / 2]\<rparr>],
      ac_inputs = [\<lparr>ab_acl = 3, ab_plugin = ''n0'', ab_pin = 0\<rparr>],
      ac_outputs = [\<lparr>ab_acl = 5, ab_plugin = ''n0'', ab_pin = 1\<rparr>]\<rparr>\<rparr>"

definition demo_simulator :: simulator where
  "demo_simulator = \<lparr>si_redac = demo_sender, si_config = demo_settings\<rparr>"

definition idle_simulator :: simulator where
  "idle_simulator = \<lparr>si_redac = demo_receiver, si_config = new_sim_config\<rparr>"

lemma demo_sim_receivable: "sim_receivable demo_simulator (sim_dict idle_simulator)"
  by code_simp

lemma demo_sim_dependencies: "\<exists>deps rt'. serialize_dependency_info 2 (si_redac demo_simulator) new_routing = (Some (Inr deps), rt')"
proof -
  have "(case fst (serialize_dependency_info 2 (si_redac demo_simulator) new_routing) of Some (Inr _) \<Rightarrow> True | _ \<Rightarrow> False)"
    by code_simp
  then show ?thesis
    by (cases "serialize_dependency_info 2 (si_redac demo_simulator) new_routing") (auto split: option.splits sum.splits)
qed


end
