(* ===== verification/Versioning.thy ===== *)
theory Versioning
  imports Prelude
begin

text \<open>
  Versions of stored modules and messages (base/proto/versioning.py) and the files that hold modules
  (base/proto/io.py).

  A converter of the update path is a class: creating an object of an abstract one raises, which the
  loop reports as a missing path. The loop ends only when converters make progress, so it is a
  partial function. The protobuf runtime is a pair of parameters, the bytes of a message and the
  message of some bytes; the file system is a map, errors of the operating system are left out.
\<close>

section \<open>Versions\<close>

datatype version = Version (v_major: int) (v_minor: int) (v_patch: int)

definition is_newer :: "version \<Rightarrow> version \<Rightarrow> bool" where
  "is_newer lhs rhs =
     (if v_major lhs \<noteq> v_major rhs then v_major lhs > v_major rhs
      else if v_minor lhs \<noteq> v_minor rhs then v_minor lhs > v_minor rhs
      else v_patch lhs > v_patch rhs)"

definition is_same :: "version \<Rightarrow> version \<Rightarrow> bool" where
  "is_same lhs rhs \<longleftrightarrow> \<not> is_newer lhs rhs \<and> \<not> is_newer rhs lhs"

text \<open>The comparison is a linear order, so that the library's facts about orders apply to versions.\<close>

instantiation version :: linorder
begin

definition less_version :: "version \<Rightarrow> version \<Rightarrow> bool" where
  "less_version a b \<longleftrightarrow> is_newer b a"

definition less_eq_version :: "version \<Rightarrow> version \<Rightarrow> bool" where
  "less_eq_version a b \<longleftrightarrow> \<not> is_newer a b"

instance
proof
  fix x y z :: version
  show "(x < y) = (x \<le> y \<and> \<not> y \<le> x)"
    by (auto simp: less_version_def less_eq_version_def is_newer_def)
  show "x \<le> x" "x \<le> y \<or> y \<le> x"
    by (auto simp: less_eq_version_def is_newer_def)
  show "x \<le> y \<Longrightarrow> y \<le> z \<Longrightarrow> x \<le> z"
    by (auto simp: less_eq_version_def is_newer_def split: if_splits)
  show "x \<le> y \<Longrightarrow> y \<le> x \<Longrightarrow> x = y"
    by (cases x; cases y) (auto simp: less_eq_version_def is_newer_def split: if_splits)
qed

end

lemma version_less [simp]:
  "Version a b c < Version a' b' c' \<longleftrightarrow> a < a' \<or> a = a' \<and> (b < b' \<or> b = b' \<and> c < c')"
  by (auto simp: less_version_def is_newer_def)

lemma is_newer_less [simp]: "is_newer a b \<longleftrightarrow> b < a"
  by (simp add: less_version_def)

lemma is_same_eq [simp]: "is_same a b \<longleftrightarrow> a = b"
  by (auto simp: is_same_def)

definition current :: version where
  "current = Version 0 1 0"

section \<open>Updates\<close>

datatype message_kind = File | Envelope

record 'b message =
  ms_kind :: message_kind
  ms_version :: version
  ms_body :: 'b

datatype 'b converter = Abstract | Converter "'b message \<Rightarrow> 'b message res"

type_synonym 'b update_table = "message_kind \<rightharpoonup> (version \<times> 'b converter) list"

definition update_path :: "'b update_table" where
  "update_path = [File \<mapsto> [(Version 0 1 0, Abstract)], Envelope \<mapsto> [(Version 0 1 0, Abstract)]]"

definition is_recent :: "'b message \<Rightarrow> bool" where
  "is_recent m \<longleftrightarrow> \<not> is_newer (ms_version m) current \<and> \<not> is_newer current (ms_version m)"

text \<open>The matching converter, created; every failure on the way is one and the same exception.\<close>

fun find_converter :: "(version \<times> 'b converter) list \<Rightarrow> version \<Rightarrow> 'b converter option" where
  "find_converter [] v = None"
| "find_converter ((u, c) # cs) v = (if is_same u v then Some c else find_converter cs v)"

definition converter_for :: "'b update_table \<Rightarrow> 'b message \<Rightarrow> ('b message \<Rightarrow> 'b message res) res" where
  "converter_for path m =
     (case path (ms_kind m) of
        None \<Rightarrow> Inl PlainException
      | Some cs \<Rightarrow>
          (case find_converter cs (ms_version m) of
             None \<Rightarrow> Inl PlainException
           | Some Abstract \<Rightarrow> Inl PlainException
           | Some (Converter f) \<Rightarrow> Inr f))"

partial_function (option) update_loop :: "'b update_table \<Rightarrow> 'b message \<Rightarrow> 'b message res option" where
  "update_loop path cur =
     (if is_newer current (ms_version cur)
      then (case converter_for path cur of
              Inl e \<Rightarrow> Some (Inl e)
            | Inr f \<Rightarrow> (case f cur of Inl e \<Rightarrow> Some (Inl e) | Inr cur \<Rightarrow> update_loop path cur))
      else Some (Inr cur))"

definition update :: "'b message \<Rightarrow> 'b message res option" where
  "update m = update_loop update_path m"

section \<open>Files\<close>

definition ends_with :: "string \<Rightarrow> string \<Rightarrow> bool" where
  "ends_with suf s \<longleftrightarrow> length suf \<le> length s \<and> drop (length s - length suf) s = suf"

definition load_module ::
    "('y \<Rightarrow> 'b message res) \<Rightarrow> (string \<rightharpoonup> 'y) \<Rightarrow> string \<Rightarrow> bool \<Rightarrow> 'b res option" where
  "load_module parse fs path skip_update =
     (if \<not> ends_with ''.apb'' path then Some (Inl PlainException)
      else case (case fs path of None \<Rightarrow> Inl PlainException | Some y \<Rightarrow> parse y) of
             Inl _ \<Rightarrow> Some (Inl PlainException)
           | Inr m \<Rightarrow> if skip_update then Some (Inr (ms_body m))
                     else map_option (map_sum id ms_body) (update m))"

definition store_module ::
    "('b message \<Rightarrow> 'y) \<Rightarrow> 'b \<Rightarrow> string \<Rightarrow> version \<Rightarrow> (string \<rightharpoonup> 'y) \<Rightarrow> (string \<rightharpoonup> 'y)" where
  "store_module serialize md path version fs =
     fs(path \<mapsto> serialize \<lparr>ms_kind = File, ms_version = version, ms_body = md\<rparr>)"

section \<open>The update loop\<close>

text \<open>Converters that make progress: each keeps the kind of a message and makes it newer.\<close>

definition progressive :: "'b update_table \<Rightarrow> bool" where
  "progressive path \<longleftrightarrow>
     (\<forall>m f m'. converter_for path m = Inr f \<longrightarrow> f m = Inr m' \<longrightarrow>
        ms_kind m' = ms_kind m \<and> ms_version m < ms_version m')"

lemma find_converter_mem: "find_converter cs v = Some c \<Longrightarrow> (v, c) \<in> set cs"
  by (induction cs v rule: find_converter.induct) (auto split: if_splits)

definition pending :: "(version \<times> 'b converter) list \<Rightarrow> version \<Rightarrow> version set" where
  "pending cs v = {u \<in> fst ` set cs. v \<le> u}"

lemma pending_shrinks:
  assumes "find_converter cs v = Some c" and "v < v'"
  shows "card (pending cs v') < card (pending cs v)"
proof (rule psubset_card_mono)
  show "finite (pending cs v)" by (simp add: pending_def)
  have "v \<in> pending cs v" "v \<notin> pending cs v'"
    using find_converter_mem [OF assms(1)] assms(2) by (force simp: pending_def)+
  moreover have "pending cs v' \<subseteq> pending cs v"
    using assms(2) by (auto simp: pending_def)
  ultimately show "pending cs v' \<subset> pending cs v" by blast
qed

lemma update_loop_ends:
  assumes "progressive path"
  shows "\<exists>r. update_loop path m = Some r \<and> (\<forall>m'. r = Inr m' \<longrightarrow> current \<le> ms_version m' \<and> ms_kind m' = ms_kind m)"
proof (induction "card (pending (case path (ms_kind m) of None \<Rightarrow> [] | Some cs \<Rightarrow> cs) (ms_version m))"
    arbitrary: m rule: less_induct)
  case less
  show ?case
  proof (cases "current \<le> ms_version m")
    case True
    then show ?thesis by (subst update_loop.simps) (simp add: not_less [symmetric])
  next
    case False
    show ?thesis
    proof (cases "\<exists>f m'. converter_for path m = Inr f \<and> f m = Inr m'")
      case True
      then obtain f m' where f: "converter_for path m = Inr f" "f m = Inr m'" by blast
      then obtain cs where cs: "path (ms_kind m) = Some cs" "find_converter cs (ms_version m) = Some (Converter f)"
        by (auto simp: converter_for_def split: option.splits converter.splits)
      have m': "ms_kind m' = ms_kind m" "ms_version m < ms_version m'"
        using assms [unfolded progressive_def, rule_format, OF f] by blast+
      obtain r where "update_loop path m' = Some r" "\<forall>m'. r = Inr m' \<longrightarrow> current \<le> ms_version m' \<and> ms_kind m' = ms_kind m"
        using less [of m'] pending_shrinks [OF cs(2) m'(2)] unfolding m'(1) cs(1) option.case by blast
      moreover have "update_loop path m = update_loop path m'"
        using False f by (simp add: update_loop.simps [of path m] not_le)
      ultimately show ?thesis by metis
    next
      case none: False
      then show ?thesis
        using False by (auto simp: update_loop.simps [of path m] split: sum.splits)
    qed
  qed
qed

lemma update_path_abstract: "converter_for update_path m = Inl PlainException"
  by (cases "ms_kind m") (simp_all add: converter_for_def update_path_def)

lemma update_eq: "update m = Some (if ms_version m < current then Inl PlainException else Inr m)"
  unfolding update_def by (subst update_loop.simps) (simp add: update_path_abstract)

text \<open>
  Updates end. Whatever converters a table holds, as long as each of them returns a message of
  the same kind and a newer version, the update of every message ends, with an exception or with a
  message of the same kind that is at least of the current version. The table of the code is such a
  table; since its converters cannot be created, it refuses every older message and returns
  all others as they are.
\<close>

theorem update_ends:
  assumes "progressive path"
  shows "(\<exists>r. update_loop path m = Some r \<and> (\<forall>m'. r = Inr m' \<longrightarrow> current \<le> ms_version m' \<and> ms_kind m' = ms_kind m)) \<and>
    progressive (update_path :: 'b update_table) \<and>
    update (n :: 'b message) = Some (if ms_version n < current then Inl PlainException else Inr n)"
  using update_loop_ends [OF assms] by (simp_all add: progressive_def update_path_abstract update_eq)

text \<open>
  Round trip of a file. A module that is stored under a name ending in .apb is loaded again,
  with the update step or without it, and every other file is left as it was. A file written for an
  older version than the current one is only readable when the update is skipped. The hypothesis on
  the protobuf runtime is that it reads back what it wrote.
\<close>

theorem store_load:
  assumes "\<And>m. parse (serialize m) = Inr m" and "ends_with ''.apb'' path"
  shows "load_module parse (store_module serialize md path v fs) path skip =
      Some (if skip \<or> current \<le> v then Inr md else Inl PlainException) \<and>
    (\<forall>other. other \<noteq> path \<longrightarrow> store_module serialize md path v fs other = fs other)"
  using assms by (auto simp: load_module_def store_module_def update_eq not_less)

text \<open>A table with one converter, from 0.0.1 to 0.1.0.\<close>

definition demo_table :: "string update_table" where
  "demo_table = [File \<mapsto> [(Version 0 0 1, Converter (\<lambda>m. Inr (m\<lparr>ms_version := Version 0 1 0\<rparr>)))]]"

definition demo_file :: "version \<Rightarrow> string message" where
  "demo_file v = \<lparr>ms_kind = File, ms_version = v, ms_body = ''items''\<rparr>"

lemma demo_progressive: "progressive demo_table"
  unfolding progressive_def
  by (auto simp: converter_for_def demo_table_def split: if_splits option.splits) (metis version_less zero_less_one)

theorem update_ends_witness:
  "\<exists>r. update_loop demo_table (demo_file (Version 0 0 1)) = Some r \<and>
     (\<forall>m'. r = Inr m' \<longrightarrow> current \<le> ms_version m' \<and> ms_kind m' = File) \<and>
     update (demo_file (Version 0 0 1)) = Some (Inl PlainException)"
  using update_ends [OF demo_progressive, of "demo_file (Version 0 0 1)" "demo_file (Version 0 0 1)"]
  by (auto simp: demo_file_def current_def)

theorem store_load_witness:
  "load_module Inr (store_module id ''items'' ''lorenz.apb'' current Map.empty) ''lorenz.apb'' False = Some (Inr ''items'')"
  using store_load [of Inr id "''lorenz.apb''" "''items''" current Map.empty False]
  by (simp add: ends_with_def)

end
