(* ===== verification/Programs.thy ===== *)
theory Programs
  imports Session
begin

text \<open>
  Hybrid programs (base/hybrid/programs/base.py, recl.py, state.py): the templates in which users write
  a single computation or a loop of runs, evaluations and reconfigurations.

  The methods that a user overrides are the fields of \<open>program_class\<close>; they act on the computer and on
  the user's own attributes, of any types. A program runs one session per computation, so a program
  is a coroutine over the calls of sessions (\<open>Session\<close>). The loop may run forever: it has a number of
  turns as fuel and returns \<open>None\<close> when they are used up. \<open>run_done\<close> also sees \<open>self.runs\<close>, which the other
  callbacks get as an argument; the identifiers of runs that were created but not executed are
  parameters.

  All runs of a loop share the configuration objects of the template run: a callback that changes
  \<open>run.config\<close> in place changes them for the later runs as well, one that assigns a new object to it
  does not. \<open>cb_config\<close> and \<open>cb_daq\<close> are the shared objects, \<open>cb_own_config\<close> and \<open>cb_own_daq\<close> what has been
  assigned instead.
\<close>

section \<open>Programs\<close>

record ('c, 'u) callback =
  cb_computer :: 'c
  cb_user :: 'u
  cb_config :: run_config
  cb_daq :: daq_config
  cb_own_config :: "run_config option"
  cb_own_daq :: "daq_config option"

type_synonym ('c, 'u, 'a) callback_method = "(('c, 'u) callback, 'a) pym"

record ('c, 'u) program_class =
  pc_ignore_errors :: bool
  pc_ignore_run_errors :: bool
  pc_run_config :: "run_config option"
  pc_daq_config :: "daq_config option"
  pc_serialize :: "'c \<Rightarrow> module_item list res"
  pc_set_configuration :: "('c, 'u, unit) callback_method"
  pc_single_done :: "run \<Rightarrow> ('c, 'u, unit) callback_method"
  pc_set_user_variables :: "('c, 'u, unit) callback_method"
  pc_initial_configuration :: "('c, 'u, unit) callback_method"
  pc_next_configuration :: "run list \<Rightarrow> ('c, 'u, unit) callback_method"
  pc_run_done :: "run list \<Rightarrow> run \<Rightarrow> ('c, 'u, bool) callback_method"
  pc_loop_done :: "run list \<Rightarrow> ('c, 'u, unit) callback_method"

text \<open>
  \<open>pg_registered\<close> is \<open>controller.runs\<close>, \<open>pg_config\<close> and \<open>pg_daq\<close> are the configurations of \<open>self.run\<close>.
\<close>

record ('c, 'u) program =
  pg_computer :: 'c
  pg_user :: 'u
  pg_config :: run_config
  pg_daq :: daq_config
  pg_runs :: "run list"
  pg_registered :: "run list"

type_synonym ('c, 'u, 'a) prog = "(('c, 'u) program, 'a) sproc"

definition default_run_config :: run_config where
  "default_run_config = \<lparr>rc_ic_time = 100000, rc_op_time = 2000000, rc_halt_on_overload = False\<rparr>"

definition default_daq_config :: daq_config where
  "default_daq_config = \<lparr>dq_num_channels = 0, dq_sample_rate = 10000, dq_sample_op = True, dq_sample_op_end = True\<rparr>"

text \<open>
  \<open>entrypoint\<close>: the run that was passed or a new one, with the configurations of the class in place of
  its own. A controller always has a computer.
\<close>

definition entrypoint ::
    "('c, 'u) program_class \<Rightarrow> 'c \<Rightarrow> 'u \<Rightarrow> (run_config \<times> daq_config) option \<Rightarrow> run list \<Rightarrow> ('c, 'u) program" where
  "entrypoint cls computer user given registered =
     (let (config, daq) = (case given of None \<Rightarrow> (default_run_config, default_daq_config) | Some r \<Rightarrow> r) in
      \<lparr>pg_computer = computer, pg_user = user,
       pg_config = (case pc_run_config cls of None \<Rightarrow> config | Some c \<Rightarrow> c),
       pg_daq = (case pc_daq_config cls of None \<Rightarrow> daq | Some d \<Rightarrow> d),
       pg_runs = [], pg_registered = registered\<rparr>)"

section \<open>Errors\<close>

definition on_error :: "('c, 'u) program_class \<Rightarrow> py_exn \<Rightarrow> ('c, 'u, unit) prog" where
  "on_error cls e = (if \<not> pc_ignore_errors cls then praise e else pret ())"

definition on_run_error :: "('c, 'u) program_class \<Rightarrow> py_exn \<Rightarrow> ('c, 'u, unit) prog" where
  "on_run_error cls e = (if \<not> pc_ignore_run_errors cls then on_error cls e else pret ())"

section \<open>Callbacks and sessions\<close>

text \<open>
  A callback runs on the program's state. It returns, beside its result, the configuration of
  the run it was given: the shared one unless another has been assigned.
\<close>

definition callback :: "('c, 'u, 'a) callback_method \<Rightarrow> ('c, 'u, 'a \<times> run_config \<times> daq_config) prog" where
  "callback m pg =
     (case m \<lparr>cb_computer = pg_computer pg, cb_user = pg_user pg, cb_config = pg_config pg, cb_daq = pg_daq pg,
              cb_own_config = None, cb_own_daq = None\<rparr> of
        (x, cb) \<Rightarrow>
          Done (map_sum id (\<lambda>a. (a, case cb_own_config cb of None \<Rightarrow> cb_config cb | Some c \<Rightarrow> c,
                                case cb_own_daq cb of None \<Rightarrow> cb_daq cb | Some d \<Rightarrow> d)) x,
                pg\<lparr>pg_computer := cb_computer cb, pg_user := cb_user cb, pg_config := cb_config cb, pg_daq := cb_daq cb\<rparr>))"

text \<open>The session of one computation, filled before it is executed.\<close>

definition build_session ::
    "env \<Rightarrow> ('c, 'u) program_class \<Rightarrow> run_config \<Rightarrow> daq_config \<Rightarrow> ('c, 'u) program \<Rightarrow> session res" where
  "build_session en cls config daq pg =
     (case sbind (lift_res (pc_serialize cls (pg_computer pg))) (\<lambda>m.
           sbind (set_module_raw m) (\<lambda>_.
           sbind (session_calibrate en [] False True True) (\<lambda>_.
           session_run \<lparr>rq_config = config, rq_daq = daq, rq_entities = None\<rparr>))) (new_session (pg_registered pg)) of
        (Inl e, s) \<Rightarrow> Inl e | (Inr _, s) \<Rightarrow> Inr s)"

text \<open>\<open>await session.execute()\<close> returns the runs of the session.\<close>

definition execute_session :: "env \<Rightarrow> session \<Rightarrow> ('c, 'u, run list) prog" where
  "execute_session en s pg =
     io_bind (run_pipeline en s) (\<lambda>(x, s'). Done (map_sum id (\<lambda>_. se_runs s') x, pg\<lparr>pg_registered := se_registered s'\<rparr>))"

text \<open>\<open>try: results = ... except Exception: ... else: ...\<close>; a cancellation passes.\<close>

definition try_else ::
    "('c, 'u, 'a) prog \<Rightarrow> (py_exn \<Rightarrow> ('c, 'u, 'b) prog) \<Rightarrow> ('a \<Rightarrow> ('c, 'u, 'b) prog) \<Rightarrow> ('c, 'u, 'b) prog" where
  "try_else m h k pg =
     io_bind (m pg) (\<lambda>(x, pg). case x of
         Inl e \<Rightarrow> if e = CancelledError then praise e pg else h e pg
       | Inr a \<Rightarrow> k a pg)"

section \<open>A single run\<close>

text \<open>
  After an ignored error the program goes on with the run it was created with, which has not been
  executed.
\<close>

definition single_start :: "env \<Rightarrow> ('c, 'u) program_class \<Rightarrow> string \<Rightarrow> ('c, 'u, unit) prog" where
  "single_start en cls template_id =
     pbind (callback (pc_set_configuration cls)) (\<lambda>(_, config, daq).
     pbind (plift (eval_st (build_session en cls config daq))) (\<lambda>s.
     pbind (try_else (execute_session en s)
       (\<lambda>e. pbind (on_run_error cls e) (\<lambda>_. pret None))
       (\<lambda>results. pret (case results of [] \<Rightarrow> None | r # _ \<Rightarrow> Some r))) (\<lambda>finished.
     pbind (callback (pc_single_done cls
       (case finished of None \<Rightarrow> new_run template_id \<lparr>rq_config = config, rq_daq = daq, rq_entities = None\<rparr> | Some r \<Rightarrow> r)))
       (\<lambda>_. pret ()))))"

section \<open>Run, evaluate, reconfigure\<close>

definition configure :: "('c, 'u) program_class \<Rightarrow> ('c, 'u, run_config \<times> daq_config) prog" where
  "configure cls pg =
     pbind (callback (if pg_runs pg = [] then pc_initial_configuration cls else pc_next_configuration cls (pg_runs pg)))
       (\<lambda>(_, config, daq). pret (config, daq)) pg"

text \<open>After a session: the run is recorded and judged; \<open>True\<close> means that the loop goes on.\<close>

definition record_run :: "('c, 'u) program_class \<Rightarrow> run \<Rightarrow> ('c, 'u, bool) prog" where
  "record_run cls r =
     pbind (plift (modify (\<lambda>pg. pg\<lparr>pg_runs := pg_runs pg @ [r]\<rparr>))) (\<lambda>_.
     (\<lambda>pg. pbind (callback (pc_run_done cls (pg_runs pg) r)) (\<lambda>(go, _). pret go) pg))"

definition turn_step :: "env \<Rightarrow> ('c, 'u) program_class \<Rightarrow> string \<Rightarrow> ('c, 'u, bool) prog" where
  "turn_step en cls new_id =
     pbind (configure cls) (\<lambda>(config, daq).
     pbind (plift (eval_st (build_session en cls config daq))) (\<lambda>s.
     try_else (execute_session en s)
       (\<lambda>e. pbind (on_run_error cls e) (\<lambda>_. pret True))
       (\<lambda>results. record_run cls
          (case results of r # _ \<Rightarrow> r | [] \<Rightarrow> new_run new_id \<lparr>rq_config = config, rq_daq = daq, rq_entities = None\<rparr>))))"

fun turns :: "nat \<Rightarrow> env \<Rightarrow> ('c, 'u) program_class \<Rightarrow> (nat \<Rightarrow> string) \<Rightarrow> ('c, 'u, unit option) prog" where
  "turns 0 en cls ids = pret None"
| "turns (Suc n) en cls ids = pbind (turn_step en cls (ids n)) (\<lambda>go. if go then turns n en cls ids else pret (Some ()))"

definition multiple_start :: "nat \<Rightarrow> env \<Rightarrow> ('c, 'u) program_class \<Rightarrow> (nat \<Rightarrow> string) \<Rightarrow> ('c, 'u, unit option) prog" where
  "multiple_start fuel en cls ids =
     pbind (callback (pc_set_user_variables cls)) (\<lambda>_.
     pbind (turns fuel en cls ids) (\<lambda>ended.
     case ended of
       None \<Rightarrow> pret None
     | Some _ \<Rightarrow> (\<lambda>pg. pbind (callback (pc_loop_done cls (pg_runs pg))) (\<lambda>_. pret (Some ())) pg)))"

section \<open>State of the previous run\<close>

text \<open>
  \<open>StateInheritingRuns\<close>: the final values of the previous run are looked up in the computer, whose
  entities \<open>ents\<close> lists with whether they have an initial condition. A final value is a number, so that
  \<open>value[0]\<close> raises as soon as one belongs to an integrator.
\<close>

definition state_next_configuration ::
    "('c \<Rightarrow> (path \<times> bool) list) \<Rightarrow> (run list \<Rightarrow> ('c, 'u, unit) callback_method) \<Rightarrow> run list \<Rightarrow> ('c, 'u, unit) callback_method" where
  "state_next_configuration ents next_configuration previous cb =
     (if previous = [] then (Inl IndexError, cb)
      else if list_ex (\<lambda>(p, has_ic). has_ic \<and> rn_final (rr_data (last previous)) p \<noteq> None) (ents (cb_computer cb))
      then (Inl IndexError, cb)
      else next_configuration previous cb)"

section \<open>What a method leaves alone\<close>

text \<open>\<open>stays f m\<close>: whatever happens, \<open>m\<close> does not change the part \<open>f\<close> of its state. One rule per constructor.\<close>

definition stays :: "('s \<Rightarrow> 'v) \<Rightarrow> ('c, 'r, 's, 'a) proc \<Rightarrow> bool" where
  "stays f m \<longleftrightarrow> (\<forall>s l x s'. exchanges (m s) l (x, s') \<longrightarrow> f s' = f s)"

named_theorems stays_intro \<open>one rule per constructor of methods\<close>

lemma staysD: "stays f m \<Longrightarrow> exchanges (m s) l (x, s') \<Longrightarrow> f s' = f s"
  unfolding stays_def by blast

lemma stays_basic [stays_intro]: "stays f (pret a)" "stays f (praise e)" "stays f (pcall c)"
  by (auto simp: stays_def trace_iffs)

lemma stays_plift [stays_intro]: "(\<And>s. f (snd (m s)) = f s) \<Longrightarrow> stays f (plift m)"
  unfolding stays_def trace_plift by (metis snd_conv)

lemma stays_pbind [stays_intro]: "stays f m \<Longrightarrow> (\<And>a. stays f (g a)) \<Longrightarrow> stays f (pbind m g)"
  unfolding stays_def trace_pbind by metis

lemma stays_pcatch [stays_intro]: "stays f m \<Longrightarrow> (\<And>e. stays f (h e)) \<Longrightarrow> stays f (pcatch m h)"
  unfolding stays_def trace_pcatch by metis

lemma stays_pfinally [stays_intro]: "stays f m \<Longrightarrow> stays f h \<Longrightarrow> stays f (pfinally m h)"
  unfolding stays_def trace_pfinally by metis

lemma stays_pfor_members: "(\<And>x. x \<in> set xs \<Longrightarrow> stays f (g x)) \<Longrightarrow> stays f (pfor xs g)"
  by (induction xs) (auto intro!: stays_intro)

lemma stays_pfor [stays_intro]: "(\<And>x. stays f (g x)) \<Longrightarrow> stays f (pfor xs g)"
  by (rule stays_pfor_members)

lemma stays_if [stays_intro]: "stays f m \<Longrightarrow> stays f n \<Longrightarrow> stays f (if b then m else n)"
  by simp

lemma stays_cases [stays_intro]:
  "stays f m \<Longrightarrow> (\<And>y. stays f (g y)) \<Longrightarrow> stays f (case o' of None \<Rightarrow> m | Some y \<Rightarrow> g y)"
  "(\<And>a b. stays f (h a b)) \<Longrightarrow> stays f (case p of (a, b) \<Rightarrow> h a b)"
  by (simp_all split: option.splits prod.splits)

lemma stays_native [stays_intro]: "stays f (perform k)" "stays f (native c q)"
  unfolding native_def perform_def by (auto intro!: stays_intro)

lemma stays_requests [stays_intro]:
  "stays f (raise_on_error r)" "stays f (as_result g c k)" "stays f (simple_request c k)" "stays f (set_module_request c m)"
  "stays f (overload_status_request c)"
  unfolding raise_on_error_def as_result_def simple_request_def set_module_request_def overload_status_request_def
  by (auto intro!: stays_intro split: result.splits)

lemma stays_need_control [stays_intro]: "stays f m \<Longrightarrow> stays f (need_control c m)"
  by (simp add: need_control_def stays_intro)

lemma stays_send_all [stays_intro]: "stays f (send_all cmd cs)"
  by (induction cs) (auto intro!: stays_intro)

text \<open>The execution of a run changes nothing of the session but the runs registered with the controller.\<close>

definition own :: "(session \<Rightarrow> 'v) \<Rightarrow> bool" where
  "own f \<longleftrightarrow> (\<forall>s rs. f (s\<lparr>se_registered := rs\<rparr>) = f s)"

lemma own_fields [simp]: "own se_runs" "own se_executed" "own se_pipeline"
  by (simp_all add: own_def)

lemma own_change: "own f \<Longrightarrow> f (change_run g s) = f s"
  by (simp add: own_def change_run_def)

lemma stays_run_parts [stays_intro]:
  assumes "own f"
  shows "stays f (wait_for ctp st)" "stays f (query_overload c)" "stays f (collect_data en)"
    "stays f (callbacks k ctp)" "stays f (gather cmd cs)"
  unfolding wait_for_def query_overload_def collect_data_def callbacks_def gather_def Let_def
  by (auto intro!: stays_intro simp: wait_run_def modify_def eval_st_def own_change [OF assms] split: prod.splits option.splits)

lemma stays_execute_run: "own f \<Longrightarrow> stays f (execute_run en rq)"
  unfolding execute_run_def run_body_def
  by (auto intro!: stays_intro simp: modify_def eval_st_def own_change split: prod.splits) (simp_all add: own_def)

lemma stays_configuration: "stays f (execute_set_config en m)" "stays f (execute_calibrate en a b c d)"
  unfolding execute_set_config_def execute_calibrate_def Let_def by (auto intro!: stays_intro)

lemma stays_execute_reset: "stays f (execute_reset en k y ov ci)"
  unfolding execute_reset_def by (auto intro!: stays_intro)

section \<open>One computation\<close>

abbreviation filled_session :: "run list \<Rightarrow> module_item list list \<Rightarrow> string \<Rightarrow> run_request \<Rightarrow> session" where
  "filled_session rs ms leader rq \<equiv>
     (new_session rs)\<lparr>se_pipeline := map SetConfigCommand ms @ [CalibrateCommand leader False True True, RunCommand rq]\<rparr>"

lemma build_session_filled:
  assumes "build_session en cls config daq pg = Inr s"
  shows "\<exists>m leader. pc_serialize cls (pg_computer pg) = Inr m \<and>
    s = filled_session (pg_registered pg) [m] leader \<lparr>rq_config = config, rq_daq = daq, rq_entities = None\<rparr>"
  using assms
  by (auto simp: build_session_def sbind_def lift_res_def set_module_raw_def session_calibrate_def session_run_def eval_st_def
      ret_def modify_def append_command_def new_session_def split: sum.splits prod.splits if_splits)

text \<open>
  What a returned run rests on: every connection accepted the modules, after that the run was started,
  with its identifier, on the connection of every carrier, and then a message reported DONE for every
  carrier.
\<close>

definition executed_with :: "env \<Rightarrow> module_item list list \<Rightarrow> call_log \<Rightarrow> run \<Rightarrow> bool" where
  "executed_with en ms l r \<longleftrightarrow>
     (\<exists>l1 l2. l = l1 @ l2 \<and>
        (\<forall>m \<in> set ms. \<forall>c \<in> set (en_order en). (OnChannel (dc_id c) (SetModule m), RBool True) \<in> set l1) \<and>
        involved_paths (rr_tracker r) = map fst (mg_connections (ct_manager (en_controller en))) \<and>
        involved_paths (rr_tracker r) \<noteq> [] \<and> all_reached DONE (rr_tracker r) \<and>
        started_and_done (ct_manager (en_controller en)) (rr_id r) (involved_paths (rr_tracker r)) l2)"

lemma executed_with_append:
  assumes "executed_with en ms l r"
  shows "executed_with en ms (l0 @ l @ l1) r"
proof -
  obtain la lb where *: "l = la @ lb"
      "\<forall>m \<in> set ms. \<forall>c \<in> set (en_order en). (OnChannel (dc_id c) (SetModule m), RBool True) \<in> set la"
      "involved_paths (rr_tracker r) = map fst (mg_connections (ct_manager (en_controller en)))"
      "involved_paths (rr_tracker r) \<noteq> []" "all_reached DONE (rr_tracker r)"
      "started_and_done (ct_manager (en_controller en)) (rr_id r) (involved_paths (rr_tracker r)) lb"
    using assms unfolding executed_with_def by blast
  have "l0 @ l @ l1 = (l0 @ la) @ (lb @ l1)" by (simp add: *(1))
  moreover have "\<forall>m \<in> set ms. \<forall>c \<in> set (en_order en). (OnChannel (dc_id c) (SetModule m), RBool True) \<in> set (l0 @ la)"
    using *(2) by auto
  moreover have "started_and_done (ct_manager (en_controller en)) (rr_id r) (involved_paths (rr_tracker r)) (lb @ l1)"
    using started_and_done_append [OF *(6), of "[]" l1] by simp
  ultimately show ?thesis
    unfolding executed_with_def using *(3-5) by blast
qed

lemma set_config_accepted:
  assumes "exchanges (execute_set_config en m s) l (Inr (), s')" and "c \<in> set (en_order en)"
  shows "(OnChannel (dc_id c) (SetModule m), RBool True) \<in> set l"
proof -
  have "\<exists>a \<in> set l. a = (OnChannel (dc_id c) (SetModule m), RBool True)"
    using assms(1) [unfolded execute_set_config_def] assms(2)
  proof (rule pfor_success)
    fix s l s'
    assume a: "exchanges (need_control c (pbind (set_module_request c m) raise_on_error) s) l (Inr (), s')"
    then have "dc_control c" by (auto simp: need_control_def trace_praise split: if_splits)
    with a obtain r where "l = [(OnChannel (dc_id c) (SetModule m), r)]"
        "checked (\<lambda>r. if r = RBool True then Success else Failure) r = Inr ()"
      by (auto simp: need_control_def set_module_request_def trace_checked)
    then show "\<exists>a \<in> set l. a = (OnChannel (dc_id c) (SetModule m), RBool True)"
      by (simp add: checked_module)
  qed
  then show ?thesis by blast
qed

text \<open>The configurations at the head of a pipeline, then the rest of it.\<close>

lemma execute_config_command: "execute_command en (SetConfigCommand m) = execute_set_config en m"
  by (simp add: execute_command_def fun_eq_iff)

lemma pipeline_split:
  assumes "exchanges (pfor (map SetConfigCommand ms @ cs) (execute_command en) s) l (Inr (), s')"
  shows "\<exists>l1 l2 s1. l = l1 @ l2 \<and> exchanges (pfor cs (execute_command en) s1) l2 (Inr (), s') \<and> se_runs s1 = se_runs s \<and>
    (\<forall>m \<in> set ms. \<forall>c \<in> set (en_order en). (OnChannel (dc_id c) (SetModule m), RBool True) \<in> set l1)"
  using assms
proof (induction ms arbitrary: s l)
  case Nil
  then show ?case by (intro exI [of _ "[]"] exI [of _ l] exI [of _ s]) simp
next
  case (Cons m ms)
  then obtain la lb sa where first: "l = la @ lb" "exchanges (execute_set_config en m s) la (Inr (), sa)"
      "exchanges (pfor (map SetConfigCommand ms @ cs) (execute_command en) sa) lb (Inr (), s')"
    by (auto simp: trace_pbind execute_config_command)
  obtain l1 l2 s1 where rest: "lb = l1 @ l2" "exchanges (pfor cs (execute_command en) s1) l2 (Inr (), s')" "se_runs s1 = se_runs sa"
      "\<forall>m \<in> set ms. \<forall>c \<in> set (en_order en). (OnChannel (dc_id c) (SetModule m), RBool True) \<in> set l1"
    using Cons.IH [OF first(3)] by blast
  have "se_runs sa = se_runs s"
    by (rule staysD [OF stays_configuration(1) first(2)])
  moreover have "\<forall>k \<in> set (m # ms). \<forall>c \<in> set (en_order en). (OnChannel (dc_id c) (SetModule k), RBool True) \<in> set (la @ l1)"
    using rest(4) set_config_accepted [OF first(2)] by auto
  ultimately show ?case
    using first(1) rest(1-3) by (intro exI [of _ "la @ l1"] exI [of _ l2] exI [of _ s1]) simp
qed

lemma pfor_append_success:
  assumes "exchanges (pfor (xs @ ys) f s) l (Inr (), s')"
  shows "\<exists>l1 l2 s1. l = l1 @ l2 \<and> exchanges (pfor xs f s) l1 (Inr (), s1) \<and> exchanges (pfor ys f s1) l2 (Inr (), s')"
  using assms
proof (induction xs arbitrary: s l)
  case Nil
  then show ?case by (intro exI [of _ "[]"] exI [of _ l] exI [of _ s]) (simp add: trace_pret)
next
  case (Cons x xs)
  then obtain la lb sa where first: "l = la @ lb" "exchanges (f x s) la (Inr (), sa)" "exchanges (pfor (xs @ ys) f sa) lb (Inr (), s')"
    by (auto simp: trace_pbind)
  from Cons.IH [OF this(3)] obtain l1 l2 s1 where "lb = l1 @ l2" "exchanges (pfor xs f sa) l1 (Inr (), s1)" "exchanges (pfor ys f s1) l2 (Inr (), s')"
    by blast
  with first(1,2) show ?case
    by (intro exI [of _ "la @ l1"] exI [of _ l2] exI [of _ s1]) (auto simp: trace_pbind)
qed

text \<open>A pipeline with one run at its end, after the configurations and commands that leave the runs alone.\<close>

lemma pipeline_result:
  assumes "exchanges (pfor (map SetConfigCommand ms @ cs @ [RunCommand rq]) (execute_command en) s) l (Inr (), s')"
    and "\<And>c. c \<in> set cs \<Longrightarrow> stays se_runs (execute_command en c)" and "se_runs s = []"
    and "set (en_order en) = get_unique_connections (ct_manager (en_controller en))" and "rq_entities rq = None"
  shows "\<exists>r. se_runs s' = [r] \<and> executed_with en ms l r"
proof -
  from pipeline_split [OF assms(1)] obtain l1 l4 s1 where config: "l = l1 @ l4" "se_runs s1 = []"
      "exchanges (pfor (cs @ [RunCommand rq]) (execute_command en) s1) l4 (Inr (), s')"
      "\<forall>m \<in> set ms. \<forall>c \<in> set (en_order en). (OnChannel (dc_id c) (SetModule m), RBool True) \<in> set l1"
    using assms(3) by auto
  from pfor_append_success [OF config(3)] obtain l2 l3 s2 s3 where ex: "exchanges (pfor cs (execute_command en) s1) l2 (Inr (), s2)"
      "exchanges (execute_run en rq s2) l3 (Inr (), s3)" "l4 = l2 @ l3" "s' = s3\<lparr>se_runs := se_runs s3 @ [current_run s3]\<rparr>"
    by (auto simp: trace_iffs execute_command_def modify_def)
  have "se_runs s2 = []"
    using staysD [OF stays_pfor_members [OF assms(2)] ex(1)] config(2) by simp
  then have "se_runs s3 = []"
    using staysD [OF stays_execute_run ex(2), of se_runs] by simp
  then have runs: "se_runs s' = [current_run s3]"
    by (simp add: ex(4))
  have inv: "involved en rq = map fst (mg_connections (ct_manager (en_controller en)))"
    by (simp add: involved_def assms(5))
  note res = execute_run_result [OF ex(2) assms(4)]
  have paths: "involved_paths (rr_tracker (current_run s3)) = involved en rq"
    using res by (elim conjE)
  have "executed_with en ms l (current_run s3)"
    unfolding executed_with_def paths
  proof (intro exI conjI)
    show "l = (l1 @ l2) @ l3" by (simp add: config(1) ex(3))
    show "\<forall>m \<in> set ms. \<forall>c \<in> set (en_order en). (OnChannel (dc_id c) (SetModule m), RBool True) \<in> set (l1 @ l2)"
      using config(4) by auto
  qed (rule inv, (insert res, elim conjE, assumption)+)
  with runs show ?thesis by blast
qed

lemma session_result:
  assumes "exchanges (run_pipeline en (filled_session rs ms leader rq)) l (Inr (), s')"
    and "set (en_order en) = get_unique_connections (ct_manager (en_controller en))" and "rq_entities rq = None"
  shows "\<exists>r. se_runs s' = [r] \<and> executed_with en ms l r"
proof (rule pipeline_result [OF _ _ _ assms(2,3)])
  show "exchanges (pfor (map SetConfigCommand ms @ [CalibrateCommand leader False True True] @ [RunCommand rq])
      (execute_command en) ((filled_session rs ms leader rq)\<lparr>se_executed := True\<rparr>)) l (Inr (), s')"
    using assms(1) by (simp add: run_pipeline_def new_session_def)
qed (auto simp: execute_command_def stays_configuration new_session_def)

section \<open>The loop\<close>

lemma callback_trace:
  "exchanges (callback m pg) l (x, pg') \<Longrightarrow> l = [] \<and> pg_runs pg' = pg_runs pg"
  by (auto simp: callback_def split: prod.splits)

lemma configure_trace:
  "exchanges (configure cls pg) l (x, pg') \<Longrightarrow> l = [] \<and> pg_runs pg' = pg_runs pg"
  unfolding configure_def by (auto simp: trace_iffs dest!: callback_trace split: prod.splits)

lemma execute_session_trace:
  "exchanges (execute_session en s pg) l (x, pg') \<longleftrightarrow>
     (\<exists>y s'. exchanges (run_pipeline en s) l (y, s') \<and> x = map_sum id (\<lambda>_. se_runs s') y \<and> pg' = pg\<lparr>pg_registered := se_registered s'\<rparr>)"
  unfolding execute_session_def trace_step by auto blast

text \<open>A session that returns holds one run, executed on the serialization of the computer it was built from.\<close>

lemma built_session_result:
  assumes "exchanges (run_pipeline en s) l (Inr (), s')" and "build_session en cls config daq pg = Inr s"
    and "set (en_order en) = get_unique_connections (ct_manager (en_controller en))"
  shows "\<exists>r m. se_runs s' = [r] \<and> pc_serialize cls (pg_computer pg) = Inr m \<and> executed_with en [m] l r"
proof -
  obtain m leader where m: "pc_serialize cls (pg_computer pg) = Inr m"
      "s = filled_session (pg_registered pg) [m] leader \<lparr>rq_config = config, rq_daq = daq, rq_entities = None\<rparr>"
    using build_session_filled [OF assms(2)] by blast
  then show ?thesis
    using session_result [OF assms(1) [unfolded m(2)] assms(3)] m(1) by auto
qed

lemma on_run_error_trace:
  "exchanges (on_run_error cls e pg) l (x, pg') \<longleftrightarrow>
     l = [] \<and> pg' = pg \<and> x = (if pc_ignore_errors cls \<or> pc_ignore_run_errors cls then Inr () else Inl e)"
  by (auto simp: on_run_error_def on_error_def trace_iffs)

lemma try_else_trace:
  "exchanges (try_else m h k pg) l (x, pg') \<longleftrightarrow>
     (\<exists>l1 l2 y pg1. l = l1 @ l2 \<and> exchanges (m pg) l1 (y, pg1) \<and>
        (case y of Inl e \<Rightarrow> if e = CancelledError then l2 = [] \<and> x = Inl e \<and> pg' = pg1 else exchanges (h e pg1) l2 (x, pg')
         | Inr a \<Rightarrow> exchanges (k a pg1) l2 (x, pg')))"
  unfolding try_else_def trace_step by (auto simp: trace_praise split: sum.splits) blast+

lemma record_run_trace:
  assumes "exchanges (record_run cls r pg) l (x, pg')"
  shows "l = [] \<and> pg_runs pg' = pg_runs pg @ [r] \<and>
    (\<forall>go. x = Inr go \<longrightarrow> (\<exists>c. exchanges (callback (pc_run_done cls (pg_runs pg @ [r]) r) (pg\<lparr>pg_runs := pg_runs pg @ [r]\<rparr>)) []
       (Inr (go, c), pg')))"
  using assms unfolding record_run_def by (auto simp: trace_iffs modify_def dest: callback_trace)

lemma callback_result: "exchanges (callback f pg) l (Inr (a, c), pg') \<Longrightarrow> \<exists>cb. fst (f cb) = Inr a"
  by (auto simp: callback_def map_sum_def split: prod.splits sum.splits) (metis fst_conv)

text \<open>
  The protocol of a program, turn by turn on its own state. A turn configures the computer, builds a
  session from it and executes it. \<open>computed\<close>: the session returned the run \<open>r\<close>, which was executed on the
  serialization of the computer as this turn has configured it; \<open>pg2\<close> is the state with the run
  recorded. \<open>session_failed\<close>: the session raised; the computer stays as this turn has configured it.
\<close>

definition computed ::
    "env \<Rightarrow> ('c, 'u) program_class \<Rightarrow> ('c, 'u) program \<Rightarrow> call_log \<Rightarrow> run \<Rightarrow> ('c, 'u) program \<Rightarrow> bool" where
  "computed en cls pg l r pg2 \<longleftrightarrow>
     (\<exists>config daq pg1 s s' m.
        exchanges (configure cls pg) [] (Inr (config, daq), pg1) \<and>
        build_session en cls config daq pg1 = Inr s \<and> exchanges (run_pipeline en s) l (Inr (), s') \<and> se_runs s' = [r] \<and>
        pc_serialize cls (pg_computer pg1) = Inr m \<and> executed_with en [m] l r \<and>
        pg2 = pg1\<lparr>pg_registered := se_registered s', pg_runs := pg_runs pg @ [r]\<rparr>)"

definition session_failed ::
    "env \<Rightarrow> ('c, 'u) program_class \<Rightarrow> ('c, 'u) program \<Rightarrow> call_log \<Rightarrow> ('c, 'u) program \<Rightarrow> bool" where
  "session_failed en cls pg l pg2 \<longleftrightarrow>
     (\<exists>config daq pg1 s s' e.
        exchanges (configure cls pg) [] (Inr (config, daq), pg1) \<and>
        build_session en cls config daq pg1 = Inr s \<and> exchanges (run_pipeline en s) l (Inl e, s') \<and>
        pg2 = pg1\<lparr>pg_registered := se_registered s'\<rparr>)"

text \<open>
  \<open>program_history en cls pg l rs\<close>: from the state \<open>pg\<close> on, the calls \<open>l\<close> are those of consecutive turns, and
  \<open>rs\<close> are the runs these turns have recorded, in order. After a recorded run the loop goes on from the
  state that \<open>run_done\<close> leaves when it asks for more; after a failed session only when errors are ignored.
\<close>

inductive program_history ::
    "env \<Rightarrow> ('c, 'u) program_class \<Rightarrow> ('c, 'u) program \<Rightarrow> call_log \<Rightarrow> run list \<Rightarrow> bool" for en cls where
  ended: "program_history en cls pg [] []"
| failed: "session_failed en cls pg l pg2 \<Longrightarrow> program_history en cls pg l []"
| last: "computed en cls pg l r pg2 \<Longrightarrow> program_history en cls pg l [r]"
| more: "computed en cls pg l1 r pg2 \<Longrightarrow>
    exchanges (callback (pc_run_done cls (pg_runs pg2) r) pg2) [] (Inr (True, c), pg3) \<Longrightarrow>
    program_history en cls pg3 l2 rs \<Longrightarrow> program_history en cls pg (l1 @ l2) (r # rs)"
| ignored: "session_failed en cls pg l1 pg2 \<Longrightarrow> pc_ignore_errors cls \<or> pc_ignore_run_errors cls \<Longrightarrow>
    program_history en cls pg2 l2 rs \<Longrightarrow> program_history en cls pg (l1 @ l2) rs"

text \<open>One turn raises and records nothing, or skips an ignored error, or records exactly one more run.\<close>

lemma turn_outcome:
  assumes "exchanges (turn_step en cls new_id pg) l (x, pg')"
    and "set (en_order en) = get_unique_connections (ct_manager (en_controller en))"
  obtains (raised) e where "x = Inl e" "pg_runs pg' = pg_runs pg" "program_history en cls pg l []"
  | (skipped) "x = Inr True" "session_failed en cls pg l pg'" "pc_ignore_errors cls \<or> pc_ignore_run_errors cls" "pg_runs pg' = pg_runs pg"
  | (recorded) r pg2 where "computed en cls pg l r pg2" "pg_runs pg' = pg_runs pg @ [r]" "pg_runs pg2 = pg_runs pg'"
      "\<And>go. x = Inr go \<Longrightarrow> \<exists>c. exchanges (callback (pc_run_done cls (pg_runs pg2) r) pg2) [] (Inr (go, c), pg')"
proof (cases "\<exists>l1 l2 config daq pg1 s. l = l1 @ l2 \<and> exchanges (configure cls pg) l1 (Inr (config, daq), pg1) \<and>
    build_session en cls config daq pg1 = Inr s \<and>
    exchanges (try_else (execute_session en s) (\<lambda>e. pbind (on_run_error cls e) (\<lambda>_. pret True))
      (\<lambda>results. record_run cls
         (case results of r # _ \<Rightarrow> r | [] \<Rightarrow> new_run new_id \<lparr>rq_config = config, rq_daq = daq, rq_entities = None\<rparr>)) pg1) l2 (x, pg')")
  case False
  then have "l = [] \<and> pg_runs pg' = pg_runs pg \<and> isl x"
    using assms(1) unfolding turn_step_def
    by (auto simp: trace_iffs eval_st_def dest: configure_trace split: sum.splits)
  then show thesis using raised program_history.ended by (cases x) auto
next
  case True
  then obtain l1 l2 config daq pg1 s where l: "l = l1 @ l2" and conf: "exchanges (configure cls pg) l1 (Inr (config, daq), pg1)"
    and s: "build_session en cls config daq pg1 = Inr s"
    and tried: "exchanges (try_else (execute_session en s) (\<lambda>e. pbind (on_run_error cls e) (\<lambda>_. pret True))
      (\<lambda>results. record_run cls
         (case results of r # _ \<Rightarrow> r | [] \<Rightarrow> new_run new_id \<lparr>rq_config = config, rq_daq = daq, rq_entities = None\<rparr>)) pg1) l2 (x, pg')"
    by blast
  have pg1: "l1 = []" "pg_runs pg1 = pg_runs pg" using configure_trace [OF conf] by auto
  note conf = conf [unfolded pg1(1)]
  obtain l3 l4 y s' where y: "l2 = l3 @ l4" "exchanges (run_pipeline en s) l3 (y, s')"
    and rest: "case map_sum id (\<lambda>_. se_runs s') y of
        Inl e \<Rightarrow> if e = CancelledError then l4 = [] \<and> x = Inl e \<and> pg' = pg1\<lparr>pg_registered := se_registered s'\<rparr>
          else exchanges (pbind (on_run_error cls e) (\<lambda>_. pret True) (pg1\<lparr>pg_registered := se_registered s'\<rparr>)) l4 (x, pg')
      | Inr rs \<Rightarrow> exchanges (record_run cls (case rs of r # _ \<Rightarrow> r
          | [] \<Rightarrow> new_run new_id \<lparr>rq_config = config, rq_daq = daq, rq_entities = None\<rparr>) (pg1\<lparr>pg_registered := se_registered s'\<rparr>)) l4 (x, pg')"
    using tried unfolding try_else_trace execute_session_trace by blast
  let ?pg = "pg1\<lparr>pg_registered := se_registered s'\<rparr>"
  show thesis
  proof (cases y)
    case (Inl e)
    then have "l4 = [] \<and> pg' = ?pg \<and> (isl x \<or> x = Inr True \<and> (pc_ignore_errors cls \<or> pc_ignore_run_errors cls))"
      using rest by (auto simp: trace_iffs on_run_error_trace split: if_splits)
    then have *: "l = l3" "pg' = ?pg" "isl x \<or> x = Inr True \<and> (pc_ignore_errors cls \<or> pc_ignore_run_errors cls)"
      using l y(1) pg1(1) by auto
    have sf: "session_failed en cls pg l pg'"
      unfolding session_failed_def *(1,2) using conf s y(2) Inl by blast
    then show thesis
      using raised skipped *(2,3) pg1(2) sf program_history.failed [OF sf] by (auto simp: isl_def)
  next
    case (Inr u)
    then have ex: "exchanges (run_pipeline en s) l3 (Inr (), s')" using y(2) by simp
    obtain r m where r: "se_runs s' = [r]" "pc_serialize cls (pg_computer pg1) = Inr m" "executed_with en [m] l3 r"
      using built_session_result [OF ex s assms(2)] by blast
    have "exchanges (record_run cls r ?pg) l4 (x, pg')"
      using rest by (simp add: Inr r(1))
    note rec = record_run_trace [OF this]
    let ?pg2 = "?pg\<lparr>pg_runs := pg_runs pg @ [r]\<rparr>"
    have "computed en cls pg l3 r ?pg2"
      unfolding computed_def using conf s ex r by blast
    moreover have "l = l3" using l y(1) pg1(1) rec by simp
    ultimately show thesis
      using recorded [of r ?pg2] rec pg1(2) by simp
  qed
qed

lemma turns_outcome:
  assumes "exchanges (turns n en cls ids pg) l (x, pg')"
    and "set (en_order en) = get_unique_connections (ct_manager (en_controller en))"
  shows "\<exists>rs. pg_runs pg' = pg_runs pg @ rs \<and> length rs \<le> n \<and> program_history en cls pg l rs"
  using assms(1)
proof (induction n arbitrary: l pg)
  case 0
  then show ?case by (simp add: trace_iffs program_history.ended)
next
  case (Suc n)
  then consider e where "x = Inl e" "exchanges (turn_step en cls (ids n) pg) l (Inl e, pg')"
    | l1 l2 go pg1 where "l = l1 @ l2" "exchanges (turn_step en cls (ids n) pg) l1 (Inr go, pg1)"
        "exchanges ((if go then turns n en cls ids else pret (Some ())) pg1) l2 (x, pg')"
    unfolding turns.simps trace_pbind by blast
  then show ?case
  proof cases
    case 1
    from 1(2) assms(2) show ?thesis
    proof (cases rule: turn_outcome)
      case (recorded r pg2)
      then show ?thesis by (intro exI [of _ "[r]"]) (simp add: program_history.last)
    qed auto
  next
    case 2
    have later: "\<exists>rs. pg_runs pg' = pg_runs pg1 @ rs \<and> length rs \<le> n \<and> program_history en cls pg1 l2 rs" if go
      using 2(3) that Suc.IH [of pg1 l2] by simp
    have stop: "l2 = []" "pg' = pg1" if "\<not> go"
      using 2(3) that by (simp_all add: trace_pret)
    from 2(2) assms(2) show ?thesis
    proof (cases rule: turn_outcome)
      case skipped
      then show ?thesis
        using later program_history.ignored [OF skipped(2,3)] by (auto simp: 2(1))
    next
      case (recorded r pg2)
      obtain c where c: "exchanges (callback (pc_run_done cls (pg_runs pg2) r) pg2) [] (Inr (go, c), pg1)"
        using recorded(4) by blast
      show ?thesis
      proof (cases go)
        case True
        with later obtain rs where "pg_runs pg' = pg_runs pg1 @ rs" "length rs \<le> n" "program_history en cls pg1 l2 rs"
          by blast
        with program_history.more [OF recorded(1), of c pg1 l2 rs] c recorded(2) True show ?thesis
          by (intro exI [of _ "r # rs"]) (simp add: 2(1))
      next
        case False
        with stop recorded(1,2) show ?thesis
          by (intro exI [of _ "[r]"]) (simp add: 2(1) program_history.last)
      qed
    qed simp
  qed
qed

lemma turns_end:
  assumes "exchanges (turns n en cls ids pg) l (x, pg')"
    and "set (en_order en) = get_unique_connections (ct_manager (en_controller en))"
    and "\<not> pc_ignore_errors cls" "\<not> pc_ignore_run_errors cls"
    and "\<And>rs r cb. N \<le> length rs \<Longrightarrow> fst (pc_run_done cls rs r cb) \<noteq> Inr True"
    and "N \<le> length (pg_runs pg) + n" "0 < n"
  shows "x \<noteq> Inr None"
  using assms(1,6,7)
proof (induction n arbitrary: l pg)
  case (Suc n)
  then consider e where "x = Inl e" "exchanges (turn_step en cls (ids n) pg) l (Inl e, pg')"
    | l1 l2 go pg1 where "l = l1 @ l2" "exchanges (turn_step en cls (ids n) pg) l1 (Inr go, pg1)"
        "exchanges ((if go then turns n en cls ids else pret (Some ())) pg1) l2 (x, pg')"
    unfolding turns.simps trace_pbind by blast
  then show ?case
  proof cases
    case 2
    show ?thesis
    proof (cases go)
      case True
      from 2(2) assms(2) obtain r cb where r: "pg_runs pg1 = pg_runs pg @ [r]" "fst (pc_run_done cls (pg_runs pg1) r cb) = Inr True"
      proof (cases rule: turn_outcome)
        case skipped
        then show thesis using assms(3,4) by simp
      next
        case (recorded r pg2)
        then show thesis using callback_result [of "pc_run_done cls (pg_runs pg2) r" pg2 "[]" True] True that [of r] by metis
      qed simp
      then have "\<not> N \<le> length (pg_runs pg1)" using assms(5) by blast
      with Suc.prems(2) r(1) have "0 < n" "N \<le> length (pg_runs pg1) + n" by auto
      moreover have "exchanges (turns n en cls ids pg1) l2 (x, pg')" using 2(3) True by simp
      ultimately show ?thesis using Suc.IH by blast
    qed (use 2(3) in \<open>auto simp: trace_pret\<close>)
  qed simp
qed simp

lemma multiple_start_trace:
  assumes "exchanges (multiple_start n en cls ids pg) l (x, pg')"
  obtains e where "x = Inl e" "l = []" "pg_runs pg' = pg_runs pg"
  | pg1 y pg2 a where "exchanges (turns n en cls ids pg1) l (y, pg2)" "pg_runs pg1 = pg_runs pg" "pg_runs pg' = pg_runs pg2"
      "x = Inr None \<Longrightarrow> y = Inr None" "exchanges (callback (pc_set_user_variables cls) pg) [] (Inr a, pg1)"
  using assms unfolding multiple_start_def trace_pbind
proof (elim disjE exE conjE)
  fix e assume "x = Inl e" "exchanges (callback (pc_set_user_variables cls) pg) l (Inl e, pg')"
  then show thesis using callback_trace that(1) by blast
next
  fix l1 l2 a pg1 e
  assume "l = l1 @ l2" "exchanges (callback (pc_set_user_variables cls) pg) l1 (Inr a, pg1)" "x = Inl e"
    "exchanges (turns n en cls ids pg1) l2 (Inl e, pg')"
  then show thesis using callback_trace [of "pc_set_user_variables cls" pg l1 "Inr a" pg1] that(2) [of pg1 "Inl e" pg' a] by auto
next
  fix l1 l2 a pg1 l3 l4 b pg2
  assume *: "l = l1 @ l2" "exchanges (callback (pc_set_user_variables cls) pg) l1 (Inr a, pg1)"
    "l2 = l3 @ l4" "exchanges (turns n en cls ids pg1) l3 (Inr b, pg2)"
    "exchanges ((case b of None \<Rightarrow> pret None | Some u \<Rightarrow>
       \<lambda>pg. pbind (callback (pc_loop_done cls (pg_runs pg))) (\<lambda>_. pret (Some ())) pg) pg2) l4 (x, pg')"
  then have "l4 = [] \<and> pg_runs pg' = pg_runs pg2 \<and> (x = Inr None \<longrightarrow> b = None)"
    by (cases b) (auto simp: trace_iffs dest: callback_trace)
  then show thesis
    using * callback_trace [OF *(2)] that(2) [of pg1 "Inr b" pg2 a] by auto
qed

text \<open>
  C31. The runs of a program have been executed. However a run-evaluate-reconfigure program ends, and
  whatever the user's methods and the devices do: unless \<open>set_user_variables\<close> raises, and then no call is made
  and no run recorded, the calls are those of consecutive turns from the state it leaves, and the recorded
  runs are those of these turns in order. In each of them the computer was configured on the state of
  the program at that time, a session built from it returned the run, all connections accepted in that
  session the serialization of the computer as configured in this turn, the run was then started under its
  identifier on the connection of every carrier, and after that a message reported DONE for every carrier.
  The program never records more runs than it takes turns.
\<close>

theorem program_runs_executed:
  assumes "exchanges (multiple_start n en cls ids (entrypoint cls computer user given registered)) l (x, pg')"
    and "set (en_order en) = get_unique_connections (ct_manager (en_controller en))"
  shows "length (pg_runs pg') \<le> n \<and>
    (l = [] \<and> pg_runs pg' = [] \<or>
     (\<exists>a pg1. exchanges (callback (pc_set_user_variables cls) (entrypoint cls computer user given registered)) [] (Inr a, pg1) \<and>
        program_history en cls pg1 l (pg_runs pg')))"
proof -
  have none: "pg_runs (entrypoint cls computer user given registered) = []"
    by (simp add: entrypoint_def split: prod.splits)
  from assms(1) show ?thesis
  proof (cases rule: multiple_start_trace)
    case (2 pg1 y pg2 a)
    then have "length (pg_runs pg') \<le> n \<and> program_history en cls pg1 l (pg_runs pg')"
      using turns_outcome [OF 2(1) assms(2)] by (auto simp: none)
    with 2(5) show ?thesis by blast
  qed (simp add: none)
qed

text \<open>
  C39. The loop ends. When errors are not ignored and \<open>run_done\<close> does not ask for more once \<open>N\<close> runs are
  recorded, \<open>N\<close> turns are enough for every program: it never runs out of them, so it returns or raises.
\<close>

theorem program_ends:
  assumes "exchanges (multiple_start N en cls ids (entrypoint cls computer user given registered)) l (x, pg')"
    and "set (en_order en) = get_unique_connections (ct_manager (en_controller en))"
    and "\<not> pc_ignore_errors cls" and "\<not> pc_ignore_run_errors cls" and "0 < N"
    and "\<And>rs r cb. N \<le> length rs \<Longrightarrow> fst (pc_run_done cls rs r cb) \<noteq> Inr True"
  shows "x = Inr (Some ()) \<or> (\<exists>e. x = Inl e)"
proof -
  have "x \<noteq> Inr None"
    using assms(1)
  proof (cases rule: multiple_start_trace)
    case (2 pg1 y pg2 a)
    show ?thesis
      using turns_end [OF 2(1) assms(2-4), of N] 2(4) assms(5,6) by auto
  qed simp
  then show ?thesis by (cases x) (auto intro: option.exhaust)
qed

text \<open>A single run: unless errors are ignored, a program that returns has passed on a run that was executed.\<close>

lemma single_run_executed:
  assumes "exchanges (single_start en cls template_id pg) l (Inr (), pg')"
    and "set (en_order en) = get_unique_connections (ct_manager (en_controller en))"
    and "\<not> pc_ignore_errors cls" and "\<not> pc_ignore_run_errors cls"
  shows "\<exists>r a pg1 m pg2 y. exchanges (callback (pc_set_configuration cls) pg) [] (Inr a, pg1) \<and>
    pc_serialize cls (pg_computer pg1) = Inr m \<and> executed_with en [m] l r \<and>
    exchanges (callback (pc_single_done cls r) pg2) [] (Inr y, pg')"
proof -
  obtain l1 l2 config daq pg1 s l3 l4 finished pg2 y where l: "l = l1 @ l2" "l2 = l3 @ l4"
    and c: "exchanges (callback (pc_set_configuration cls) pg) l1 (Inr ((), config, daq), pg1)"
    and s: "build_session en cls config daq pg1 = Inr s"
    and t: "exchanges (try_else (execute_session en s) (\<lambda>e. pbind (on_run_error cls e) (\<lambda>_. pret None))
       (\<lambda>results. pret (case results of [] \<Rightarrow> None | r # _ \<Rightarrow> Some r)) pg1) l3 (Inr finished, pg2)"
    and d: "exchanges (callback (pc_single_done cls (case finished of None \<Rightarrow>
       new_run template_id \<lparr>rq_config = config, rq_daq = daq, rq_entities = None\<rparr> | Some r \<Rightarrow> r)) pg2) l4 (Inr y, pg')"
    using assms(1) unfolding single_start_def
    by (auto simp: trace_iffs eval_st_def split: prod.splits) (metis (no_types, lifting))
  obtain l5 l6 z pg3 where z: "l3 = l5 @ l6" "exchanges (execute_session en s pg1) l5 (z, pg3)"
      "case z of Inl e \<Rightarrow> if e = CancelledError then l6 = [] \<and> Inr finished = Inl e \<and> pg2 = pg3
         else exchanges (pbind (on_run_error cls e) (\<lambda>_. pret None) pg3) l6 (Inr finished, pg2)
       | Inr rs \<Rightarrow> exchanges (pret (case rs of [] \<Rightarrow> None | r # _ \<Rightarrow> Some r) pg3) l6 (Inr finished, pg2)"
    using t unfolding try_else_trace by blast
  then obtain rs where "exchanges (execute_session en s pg1) l3 (Inr rs, pg3)"
      "finished = (case rs of [] \<Rightarrow> None | r # _ \<Rightarrow> Some r)"
    using assms(3,4) by (cases z) (auto simp: trace_iffs on_run_error_trace split: if_splits)
  then obtain w s' where "exchanges (run_pipeline en s) l3 (w, s')" "Inr rs = map_sum id (\<lambda>_. se_runs s') w"
      "finished = (case rs of [] \<Rightarrow> None | r # _ \<Rightarrow> Some r)"
    unfolding execute_session_trace by blast
  then have "exchanges (run_pipeline en s) l3 (Inr (), s')" "finished = (case se_runs s' of [] \<Rightarrow> None | r # _ \<Rightarrow> Some r)"
    by (cases w; simp)+
  then obtain r m where "finished = Some r" "pc_serialize cls (pg_computer pg1) = Inr m" "executed_with en [m] l3 r"
    using built_session_result [OF _ s assms(2)] by force
  moreover have "l1 = []" "l4 = []" using callback_trace [OF c] callback_trace [OF d] by auto
  ultimately show ?thesis
    using c d l by (intro exI [of _ r] exI [of _ "((), config, daq)"] exI [of _ pg1] exI [of _ m] exI [of _ pg2] exI [of _ y]) simp
qed

section \<open>Ignored errors\<close>

text \<open>
  When errors are ignored, a failed session is repeated with nothing changed: as long as the
  sessions fail, the loop goes on, for any number of turns.
\<close>

lemma silent_pbind:
  "exchanges (m s) [] (Inr a, s1) \<Longrightarrow> exchanges (f a s1) [] y \<Longrightarrow> exchanges (pbind m f s) [] y"
  by (cases y) (auto simp: trace_pbind)

lemma turns_repeat:
  assumes "\<And>i pg. pg_runs pg = [] \<Longrightarrow> \<exists>pg'. exchanges (turn_step en cls i pg) [] (Inr True, pg') \<and> pg_runs pg' = []"
    and "pg_runs pg = []"
  shows "\<exists>pg'. exchanges (turns n en cls ids pg) [] (Inr None, pg')"
  using assms(2)
proof (induction n arbitrary: pg)
  case (Suc n)
  obtain pg1 where pg1: "exchanges (turn_step en cls (ids n) pg) [] (Inr True, pg1)" "pg_runs pg1 = []"
    using assms(1) Suc.prems by blast
  from Suc.IH [OF pg1(2)] obtain pg' where "exchanges (turns n en cls ids pg1) [] (Inr None, pg')" by blast
  then show ?case
    unfolding turns.simps by (intro exI) (rule silent_pbind [where m = "turn_step en cls (ids n)", OF pg1(1)], simp)
qed (auto simp: trace_pret)

lemma run_pipeline_no_control:
  assumes "en_order en = c # cs" and "\<not> dc_control c"
  shows "run_pipeline en (filled_session rs (m # ms) leader rq) =
    Done (Inl NotImplementedError, (filled_session rs (m # ms) leader rq)\<lparr>se_executed := True\<rparr>)"
  using assms
  by (simp add: run_pipeline_def new_session_def execute_command_def execute_set_config_def need_control_def pbind_def praise_def)

text \<open>
  A program that ignores errors, on a controller whose connections have no control channel: no
  number of turns is enough.
\<close>

lemma ignored_errors_repeat:
  assumes "pc_ignore_errors cls \<or> pc_ignore_run_errors cls" and "en_order en = c # cs" and "\<not> dc_control c"
    and "py_get (ct_carriers (en_controller en)) 0 = Inr carrier" and "path_to_mac (spec_path carrier) = Inr mac"
    and "\<And>computer. \<exists>m. pc_serialize cls computer = Inr m"
    and "\<And>cb. \<exists>cb'. pc_initial_configuration cls cb = (Inr (), cb')"
    and "\<And>cb. \<exists>cb'. pc_set_user_variables cls cb = (Inr (), cb')"
  shows "\<exists>pg'. exchanges (multiple_start n en cls ids (entrypoint cls computer user given registered)) [] (Inr None, pg')"
proof -
  have turn: "\<exists>pg'. exchanges (turn_step en cls i pg) [] (Inr True, pg') \<and> pg_runs pg' = []" if none: "pg_runs pg = []" for i pg
  proof -
    obtain config daq pg1 where c: "configure cls pg = Done (Inr (config, daq), pg1)" "pg_runs pg1 = []"
      using assms(7) [of "\<lparr>cb_computer = pg_computer pg, cb_user = pg_user pg, cb_config = pg_config pg, cb_daq = pg_daq pg,
              cb_own_config = None, cb_own_daq = None\<rparr>"] none
      by (auto simp: configure_def callback_def pbind_def pret_def)
    obtain m where "pc_serialize cls (pg_computer pg1) = Inr m" using assms(6) by blast
    let ?s = "filled_session (pg_registered pg1) [m] mac \<lparr>rq_config = config, rq_daq = daq, rq_entities = None\<rparr>"
    have build: "build_session en cls config daq pg1 = Inr ?s"
      using \<open>pc_serialize cls (pg_computer pg1) = Inr m\<close>
      by (simp add: build_session_def sbind_def lift_res_def set_module_raw_def session_calibrate_def session_run_def eval_st_def
          ret_def modify_def append_command_def new_session_def assms(4,5))
    have "execute_session en ?s pg1 = Done (Inl NotImplementedError, pg1)"
      unfolding execute_session_def run_pipeline_no_control [OF assms(2,3)] by (simp add: new_session_def)
    moreover have "on_run_error cls NotImplementedError pg1 = Done (Inr (), pg1)"
      using assms(1) by (auto simp: on_run_error_def on_error_def pret_def)
    ultimately have "turn_step en cls i pg = Done (Inr True, pg1)"
      unfolding turn_step_def pbind_def [of "configure cls"] c(1)
      by (simp only: io_bind.simps prod.case sum.case pbind_def [of "plift _"] plift_def eval_st_def build try_else_def)
        (simp add: pbind_def pret_def)
    then show ?thesis using c(2) by simp
  qed
  define pg where "pg = entrypoint cls computer user given registered"
  have none: "pg_runs pg = []" by (simp add: pg_def entrypoint_def split: prod.splits)
  obtain a pg1 where pg1: "exchanges (callback (pc_set_user_variables cls) pg) [] (Inr a, pg1)"
    using assms(8) [of "\<lparr>cb_computer = pg_computer pg, cb_user = pg_user pg, cb_config = pg_config pg, cb_daq = pg_daq pg,
              cb_own_config = None, cb_own_daq = None\<rparr>"]
    by (auto simp: callback_def)
  obtain pg' where "exchanges (turns n en cls ids pg1) [] (Inr None, pg')"
    using turns_repeat [OF turn, of pg1 n ids] callback_trace [OF pg1] none by auto
  then have "exchanges (pbind (turns n en cls ids) (case_option (pret None)
      (\<lambda>_ pg. pbind (callback (pc_loop_done cls (pg_runs pg))) (\<lambda>_. pret (Some ())) pg)) pg1) [] (Inr None, pg')"
    by (rule silent_pbind) (simp add: trace_pret)
  then show ?thesis
    unfolding multiple_start_def pg_def [symmetric] 
    by (intro exI) (rule silent_pbind [where m = "callback (pc_set_user_variables cls)", OF pg1])
qed

text \<open>
  Programs that inherit state: as soon as a final value of the previous run belongs to an integrator
  the reconfiguration raises; otherwise the computer reaches the user's method as it is.
\<close>

lemma state_not_inherited:
  assumes "previous \<noteq> []"
  shows "state_next_configuration ents f previous cb =
    (if \<exists>p. (p, True) \<in> set (ents (cb_computer cb)) \<and> rn_final (rr_data (last previous)) p \<noteq> None
     then (Inl IndexError, cb) else f previous cb)"
  using assms by (auto simp: state_next_configuration_def list_ex_iff)

section \<open>Witnesses\<close>

text \<open>A program that asks for no further run, on the proxy with two carriers.\<close>

definition demo_program :: "(unit, unit) program_class" where
  "demo_program =
     \<lparr>pc_ignore_errors = False, pc_ignore_run_errors = False, pc_run_config = None, pc_daq_config = None,
      pc_serialize = (\<lambda>_. Inr []), pc_set_configuration = ret (), pc_single_done = (\<lambda>_. ret ()),
      pc_set_user_variables = ret (), pc_initial_configuration = ret (), pc_next_configuration = (\<lambda>_. ret ()),
      pc_run_done = (\<lambda>_ _. ret False), pc_loop_done = (\<lambda>_. ret ())\<rparr>"

abbreviation demo_start :: "(unit, unit) program" where
  "demo_start \<equiv> entrypoint demo_program () () None []"

definition demo_play :: "(call_log \<times> unit option res \<times> (unit, unit) program) option" where
  "demo_play = play (multiple_start 1 demo_env demo_program (\<lambda>_. ''x'') demo_start)
     [RBool True, RNone, RNone, RNone, RNone, demo_messages 4, demo_messages 2, RStatus False [], RBlobs [], RNone]"

lemma demo_play_returns: "case demo_play of None \<Rightarrow> False | Some (l, x, pg) \<Rightarrow> x = Inr (Some ()) \<and> map rr_id (pg_runs pg) = [''r'']"
  by code_simp

lemma demo_program_trace:
  "\<exists>l pg'. exchanges (multiple_start 1 demo_env demo_program (\<lambda>_. ''x'') demo_start) l (Inr (Some ()), pg') \<and> map rr_id (pg_runs pg') = [''r'']"
proof -
  obtain l pg' where "demo_play = Some (l, Inr (Some ()), pg')" "map rr_id (pg_runs pg') = [''r'']"
    using demo_play_returns by (auto split: option.splits)
  then show ?thesis
    unfolding demo_play_def by (intro exI [of _ l] exI [of _ pg'] conjI) (rule play_exchanges)
qed

lemma demo_order_complete: "set (en_order demo_env) = get_unique_connections (ct_manager (en_controller demo_env))"
  by (simp add: demo_connections demo_order)

theorem program_runs_executed_witness:
  "\<exists>l pg' pg1. exchanges (multiple_start 1 demo_env demo_program (\<lambda>_. ''x'') demo_start) l (Inr (Some ()), pg') \<and>
     map rr_id (pg_runs pg') = [''r''] \<and> program_history demo_env demo_program pg1 l (pg_runs pg')"
proof -
  obtain l pg' where ex: "exchanges (multiple_start 1 demo_env demo_program (\<lambda>_. ''x'') demo_start) l (Inr (Some ()), pg')"
      "map rr_id (pg_runs pg') = [''r'']"
    using demo_program_trace by (elim exE conjE)
  from ex(2) have "pg_runs pg' \<noteq> []" by auto
  with program_runs_executed [OF ex(1) demo_order_complete]
  obtain pg1 where "program_history demo_env demo_program pg1 l (pg_runs pg')"
    by (elim conjE disjE exE) simp_all
  with ex show ?thesis
    by (intro exI [of _ l] exI [of _ pg'] exI [of _ pg1] conjI)
qed

theorem program_ends_witness:
  "\<exists>l x pg'. exchanges (multiple_start 1 demo_env demo_program (\<lambda>_. ''x'') demo_start) l (x, pg') \<and>
     (x = Inr (Some ()) \<or> (\<exists>e. x = Inl e))"
proof -
  obtain l pg' where ex: "exchanges (multiple_start 1 demo_env demo_program (\<lambda>_. ''x'') demo_start) l (Inr (Some ()), pg')"
    using demo_program_trace by (elim exE conjE)
  have "Inr (Some ()) = (Inr (Some ()) :: unit option res) \<or> (\<exists>e. Inr (Some ()) = (Inl e :: unit option res))"
    by (rule program_ends [OF ex demo_order_complete]) (simp_all add: demo_program_def ret_def)
  with ex show ?thesis by (intro exI [of _ l] exI [of _ "Inr (Some ())"] exI [of _ pg'] conjI)
qed

end
