(* ===== verification/Scheduling.thy ===== *)
theory Scheduling
  imports Programs
begin

text \<open>
  Several tasks that execute sessions of one controller (\<open>Session.execute\<close> in redac/session.py and the
  lock of base/hybrid/controller.py). A task waits for the lock, then exchanges the calls of its
  pipeline one by one with the devices, while other tasks take their own steps, and releases the
  lock at the end. A task that waits may be cancelled or run into its timeout; while it holds the
  lock, both reach it as the outcome of a call.

  Two tasks may execute the same session object: \<open>obj t\<close> is the session of task \<open>t\<close>.
\<close>

section \<open>Tasks\<close>

datatype task = Waiting | Holding "(call, reply, unit res \<times> session) io" | Ended "unit res"

record system =
  sy_sessions :: "nat \<Rightarrow> session"
  sy_registered :: "run list"
  sy_tasks :: "nat \<Rightarrow> task"
  sy_owner :: "nat option"
  sy_log :: "(nat \<times> call \<times> reply) list"

definition new_system :: "(nat \<Rightarrow> session) \<Rightarrow> run list \<Rightarrow> system" where
  "new_system sessions registered =
     \<lparr>sy_sessions = sessions, sy_registered = registered, sy_tasks = (\<lambda>_. Waiting), sy_owner = None, sy_log = []\<rparr>"

text \<open>The session as the holder of the lock finds it: the runs of the controller are shared.\<close>

definition entered :: "system \<Rightarrow> nat \<Rightarrow> session" where
  "entered S o' = (sy_sessions S o')\<lparr>se_registered := sy_registered S\<rparr>"

definition set_task :: "nat \<Rightarrow> task \<Rightarrow> system \<Rightarrow> system" where
  "set_task t k S = S\<lparr>sy_tasks := (sy_tasks S)(t := k)\<rparr>"

inductive sys_step :: "env \<Rightarrow> (nat \<Rightarrow> nat) \<Rightarrow> system \<Rightarrow> system \<Rightarrow> bool" for en obj where
  acquire: "sy_owner S = None \<Longrightarrow> sy_tasks S t = Waiting \<Longrightarrow>
    sys_step en obj S ((set_task t (Holding (run_pipeline en (entered S (obj t)))) S)\<lparr>sy_owner := Some t\<rparr>)"
| exchange: "sy_tasks S t = Holding (Await c f) \<Longrightarrow>
    sys_step en obj S ((set_task t (Holding (f r)) S)\<lparr>sy_log := sy_log S @ [(t, c, r)]\<rparr>)"
| release: "sy_tasks S t = Holding (Done (x, s)) \<Longrightarrow>
    sys_step en obj S ((set_task t (Ended x) S)\<lparr>sy_owner := None, sy_sessions := (sy_sessions S)(obj t := s),
      sy_registered := se_registered s\<rparr>)"
| give_up: "sy_tasks S t = Waiting \<Longrightarrow> e \<in> {CancelledError, TimeoutError} \<Longrightarrow>
    sys_step en obj S (set_task t (Ended (Inl e)) S)"

section \<open>Serial executions\<close>

text \<open>What remains of a coroutine after some exchanges.\<close>

fun rest_after :: "('c, 'r, 'a) io \<Rightarrow> ('c \<times> 'r) list \<Rightarrow> ('c, 'r, 'a) io option" where
  "rest_after m [] = Some m"
| "rest_after (Done a) (_ # _) = None"
| "rest_after (Await c f) ((c', r) # l) = (if c' = c then rest_after (f r) l else None)"

lemma rest_after_done: "rest_after m l = Some (Done a) \<longleftrightarrow> exchanges m l a"
  by (induction m l rule: rest_after.induct) (auto split: list.splits elim: io.exhaust, metis exchanges.simps(1) exchanges.simps(2) io.exhaust list.simps(4))

lemma rest_after_snoc: "rest_after m l = Some (Await c f) \<Longrightarrow> rest_after m (l @ [(c, r)]) = Some (f r)"
  by (induction m l rule: rest_after.induct) (auto split: if_splits)

text \<open>
  \<open>serial\<close>: the executions of a history one after the other, each from the sessions and runs that the
  one before has left.
\<close>

type_synonym history = "(nat \<times> call_log \<times> unit res) list"

inductive serial :: "env \<Rightarrow> (nat \<Rightarrow> nat) \<Rightarrow> (nat \<Rightarrow> session) \<Rightarrow> run list \<Rightarrow> history \<Rightarrow> (nat \<Rightarrow> session) \<Rightarrow> run list \<Rightarrow> bool"
  for en obj S0 R0 where
  serial_Nil: "serial en obj S0 R0 [] S0 R0"
| serial_snoc: "serial en obj S0 R0 h S R \<Longrightarrow> exchanges (run_pipeline en ((S (obj t))\<lparr>se_registered := R\<rparr>)) l (x, s) \<Longrightarrow>
    serial en obj S0 R0 (h @ [(t, l, x)]) (S(obj t := s)) (se_registered s)"

definition flatten :: "history \<Rightarrow> (nat \<times> call \<times> reply) list" where
  "flatten h = concat (map (\<lambda>(t, l, x). map (Pair t) l) h)"

lemma flatten_simps [simp]: "flatten [] = []" "flatten (h @ [(t, l, x)]) = flatten h @ map (Pair t) l"
  by (simp_all add: flatten_def)

lemma in_flatten: "(t, c, r) \<in> set (flatten h) \<longleftrightarrow> (\<exists>l x. (t, l, x) \<in> set h \<and> (c, r) \<in> set l)"
  by (force simp: flatten_def)

section \<open>A session is executed once\<close>

lemma stays_upload: "stays f (execute_upload en binary sha)"
  unfolding execute_upload_def upload_phases_def upload_to_def abort_on_def reconnect_after_def reconnect_request_def update_begin_def
  by (auto intro!: stays_intro)

lemma stays_command: "stays se_executed (execute_command en cmd)"
  unfolding execute_command_def
  by (auto intro!: stays_intro stays_configuration stays_upload stays_execute_reset stays_execute_run simp: modify_def split: command.split)

lemma pipeline_executed: "exchanges (run_pipeline en s) l (x, s') \<Longrightarrow> se_executed s'"
  using staysD [OF stays_pfor [of se_executed "execute_command en"], OF stays_command]
  by (fastforce simp: run_pipeline_def trace_iffs split: if_splits)

lemma pipeline_twice: "se_executed s \<Longrightarrow> run_pipeline en s = Done (Inl RuntimeError, s)"
  by (simp add: run_pipeline_def praise_def)

lemma serial_executed: "serial en obj S0 R0 h S R \<Longrightarrow> (t, l, x) \<in> set h \<Longrightarrow> se_executed (S (obj t))"
  by (induction rule: serial.induct) (auto dest: pipeline_executed)

abbreviation refused :: "call_log \<Rightarrow> unit res \<Rightarrow> bool" where
  "refused l x \<equiv> l = [] \<and> x = Inl RuntimeError"

lemma serial_once:
  "serial en obj S0 R0 h S R \<Longrightarrow> (t, l, x) \<in> set h \<Longrightarrow> (u, k, y) \<in> set h \<Longrightarrow> t \<noteq> u \<Longrightarrow> obj t = obj u \<Longrightarrow>
    refused l x \<or> refused k y"
proof (induction rule: serial.induct)
  case (serial_snoc h S R v m z s)
  have "refused m z" if "(w, n, q) \<in> set h" "obj w = obj v" for w n q
    using serial_snoc.hyps(2) serial_executed [OF serial_snoc.hyps(1) that(1)] that(2) by (simp add: pipeline_twice)
  then show ?case
    using serial_snoc.IH serial_snoc.prems by auto
qed simp

section \<open>The invariant\<close>

text \<open>
  What has happened is a serial history and, under the lock, a part of one execution. Tasks that have
  ended are in the history or have given up.
\<close>

definition in_progress :: "env \<Rightarrow> (nat \<Rightarrow> nat) \<Rightarrow> system \<Rightarrow> call_log \<Rightarrow> bool" where
  "in_progress en obj S l \<longleftrightarrow>
     (case sy_owner S of
        None \<Rightarrow> l = [] \<and> (\<forall>t m. sy_tasks S t \<noteq> Holding m)
      | Some t \<Rightarrow> rest_after (run_pipeline en (entered S (obj t))) l \<noteq> None \<and>
          (\<forall>u m. sy_tasks S u = Holding m \<longleftrightarrow> u = t \<and> rest_after (run_pipeline en (entered S (obj t))) l = Some m))"

definition ended :: "history \<Rightarrow> system \<Rightarrow> bool" where
  "ended h S \<longleftrightarrow> distinct (map fst h) \<and> (\<forall>t l x. (t, l, x) \<in> set h \<longrightarrow> sy_tasks S t = Ended x) \<and>
     (\<forall>t x. sy_tasks S t = Ended x \<longrightarrow> (\<exists>l. (t, l, x) \<in> set h) \<or> x \<in> {Inl CancelledError, Inl TimeoutError})"

definition tagged :: "nat option \<Rightarrow> call_log \<Rightarrow> (nat \<times> call \<times> reply) list" where
  "tagged w l = (case w of None \<Rightarrow> [] | Some t \<Rightarrow> map (Pair t) l)"

definition sys_inv :: "env \<Rightarrow> (nat \<Rightarrow> nat) \<Rightarrow> (nat \<Rightarrow> session) \<Rightarrow> run list \<Rightarrow> system \<Rightarrow> bool" where
  "sys_inv en obj S0 R0 S \<longleftrightarrow>
     (\<exists>h l. serial en obj S0 R0 h (sy_sessions S) (sy_registered S) \<and> ended h S \<and> in_progress en obj S l \<and>
        sy_log S = flatten h @ tagged (sy_owner S) l)"

lemma ended_fresh: "ended h S \<Longrightarrow> sy_tasks S t = Holding m \<Longrightarrow> (t, l, x) \<notin> set h"
  by (auto simp: ended_def)

lemma sys_inv_new: "sys_inv en obj S0 R0 (new_system S0 R0)"
  unfolding sys_inv_def
  by (rule exI [of _ "[]"]) (auto simp: new_system_def ended_def in_progress_def tagged_def intro: serial_Nil)

lemma entered_task [simp]:
  "entered (set_task t k S) = entered S" "entered (S\<lparr>sy_owner := w\<rparr>) = entered S" "entered (S\<lparr>sy_log := lg\<rparr>) = entered S"
  by (simp_all add: entered_def set_task_def fun_eq_iff)

lemma sys_inv_step: "sys_step en obj S S' \<Longrightarrow> sys_inv en obj S0 R0 S \<Longrightarrow> sys_inv en obj S0 R0 S'"
proof (induction rule: sys_step.induct)
  case (acquire S t)
  then obtain h where "serial en obj S0 R0 h (sy_sessions S) (sy_registered S)" "ended h S" "in_progress en obj S []"
      "sy_log S = flatten h"
    unfolding sys_inv_def by (auto simp: in_progress_def tagged_def)
  with acquire.hyps show ?case
    unfolding sys_inv_def
    by (intro exI [of _ h] exI [of _ "[]"]) (auto simp: set_task_def ended_def in_progress_def tagged_def entered_def)
next
  case (exchange S t c f r)
  then obtain h l where inv: "serial en obj S0 R0 h (sy_sessions S) (sy_registered S)" "ended h S" "in_progress en obj S l"
      "sy_log S = flatten h @ tagged (sy_owner S) l"
    unfolding sys_inv_def by blast
  from inv(3) exchange.hyps have own: "sy_owner S = Some t" "rest_after (run_pipeline en (entered S (obj t))) l = Some (Await c f)"
    by (auto simp: in_progress_def split: option.splits)
  show ?case
    unfolding sys_inv_def
    using inv exchange.hyps own rest_after_snoc [OF own(2), of r] ended_fresh [OF inv(2) exchange.hyps]
    by (intro exI [of _ h] exI [of _ "l @ [(c, r)]"]) (auto simp: set_task_def ended_def in_progress_def tagged_def entered_def)
next
  case (release S t x s)
  then obtain h l where inv: "serial en obj S0 R0 h (sy_sessions S) (sy_registered S)" "ended h S" "in_progress en obj S l"
      "sy_log S = flatten h @ tagged (sy_owner S) l"
    unfolding sys_inv_def by blast
  from inv(3) release.hyps have own: "sy_owner S = Some t" "exchanges (run_pipeline en (entered S (obj t))) l (x, s)"
    by (auto simp: in_progress_def rest_after_done [symmetric] split: option.splits)
  have fresh: "t \<notin> fst ` set h" "\<And>l x. (t, l, x) \<notin> set h"
    using ended_fresh [OF inv(2) release.hyps] by auto
  show ?case
    unfolding sys_inv_def
    using serial_snoc [OF inv(1) own(2) [unfolded entered_def]] inv release.hyps own(1) fresh
    by (intro exI [of _ "h @ [(t, l, x)]"] exI [of _ "[]"])
      (auto simp: set_task_def ended_def in_progress_def tagged_def)
next
  case (give_up S t e)
  then obtain h l where "serial en obj S0 R0 h (sy_sessions S) (sy_registered S)" "ended h S" "in_progress en obj S l"
      "sy_log S = flatten h @ tagged (sy_owner S) l"
    unfolding sys_inv_def by blast
  moreover from this(3) give_up.hyps(1) have "sy_owner S \<noteq> Some t"
    by (force simp: in_progress_def)
  ultimately show ?case
    unfolding sys_inv_def using give_up.hyps
    by (intro exI [of _ h] exI [of _ l]) (auto simp: set_task_def ended_def in_progress_def entered_def split: option.splits)
qed

lemma sys_inv_reachable: "(sys_step en obj)\<^sup>*\<^sup>* (new_system S0 R0) S \<Longrightarrow> sys_inv en obj S0 R0 S"
  by (induction rule: rtranclp_induct) (auto intro: sys_inv_new sys_inv_step)

section \<open>Tasks that share a controller\<close>

lemma part_once:
  assumes "serial en obj S0 R0 h (sy_sessions S) (sy_registered S)" "in_progress en obj S l" "sy_owner S = Some t"
    and "(u, k, y) \<in> set h" "obj u = obj t"
  shows "l = []"
proof -
  have "se_executed (entered S (obj t))"
    using serial_executed [OF assms(1,4)] assms(5) by (simp add: entered_def)
  then show ?thesis
    using assms(2,3) by (cases l) (auto simp: pipeline_twice in_progress_def)
qed

text \<open>The other direction: the holder of the lock can always finish, with every execution its pipeline has.\<close>

definition finished :: "(nat \<Rightarrow> nat) \<Rightarrow> nat \<Rightarrow> call_log \<Rightarrow> unit res \<Rightarrow> session \<Rightarrow> system \<Rightarrow> system" where
  "finished obj t l x s S =
     (set_task t (Ended x) S)\<lparr>sy_owner := None, sy_sessions := (sy_sessions S)(obj t := s), sy_registered := se_registered s,
       sy_log := sy_log S @ map (Pair t) l\<rparr>"

lemma holder_finishes:
  "sy_tasks S t = Holding m \<Longrightarrow> exchanges m l (x, s) \<Longrightarrow> (sys_step en obj)\<^sup>*\<^sup>* S (finished obj t l x s S)"
proof (induction m arbitrary: S l)
  case (Done a)
  then show ?case
    using release [of S t x s en obj] by (auto simp: finished_def set_task_def)
next
  case (Await c f)
  then obtain r k where l: "l = (c, r) # k" "exchanges (f r) k (x, s)"
    unfolding trace_Await by blast
  let ?S = "(set_task t (Holding (f r)) S)\<lparr>sy_log := sy_log S @ [(t, c, r)]\<rparr>"
  have "(sys_step en obj)\<^sup>*\<^sup>* ?S (finished obj t k x s ?S)"
    by (rule Await.IH [OF rangeI _ l(2)]) (simp add: set_task_def)
  moreover have "finished obj t k x s ?S = finished obj t l x s S"
    by (simp add: finished_def set_task_def l(1))
  ultimately show ?case
    using exchange [OF Await.prems(1), of en obj r] by (simp add: converse_rtranclp_into_rtranclp)
qed

lemma runs_alone:
  assumes "sy_owner S = None" "sy_tasks S t = Waiting" "exchanges (run_pipeline en (entered S (obj t))) l (x, s)"
  shows "(sys_step en obj)\<^sup>*\<^sup>* S (finished obj t l x s S)"
proof -
  let ?S = "(set_task t (Holding (run_pipeline en (entered S (obj t)))) S)\<lparr>sy_owner := Some t\<rparr>"
  have "(sys_step en obj)\<^sup>*\<^sup>* ?S (finished obj t l x s ?S)"
    by (rule holder_finishes [OF _ assms(3)]) (simp add: set_task_def)
  moreover have "finished obj t l x s ?S = finished obj t l x s S"
    by (simp add: finished_def set_task_def)
  ultimately show ?thesis
    using acquire [OF assms(1,2), of en obj] by (simp add: converse_rtranclp_into_rtranclp)
qed

text \<open>
  C14. Tasks that execute sessions of one controller do not interleave. Whatever the order in which they
  take the lock, exchange calls, are cancelled or time out, the calls made so far are those of complete
  executions one after the other, each starting from the runs and sessions that the one before has left,
  followed by the calls of the one task that holds the lock. Every task that has ended without giving up has the
  result of its execution.
\<close>

theorem sessions_serialised:
  assumes "(sys_step en obj)\<^sup>*\<^sup>* (new_system S0 R0) S"
  shows "\<exists>h l. serial en obj S0 R0 h (sy_sessions S) (sy_registered S) \<and>
    sy_log S = flatten h @ (case sy_owner S of None \<Rightarrow> [] | Some t \<Rightarrow> map (Pair t) l) \<and>
    (\<forall>t m. sy_tasks S t = Holding m \<longleftrightarrow> sy_owner S = Some t \<and> rest_after (run_pipeline en (entered S (obj t))) l = Some m) \<and>
    (\<forall>t x. sy_tasks S t = Ended x \<longrightarrow> (\<exists>l. (t, l, x) \<in> set h) \<or> x \<in> {Inl CancelledError, Inl TimeoutError}) \<and>
    (\<forall>t l x. (t, l, x) \<in> set h \<longrightarrow> sy_tasks S t = Ended x) \<and> distinct (map fst h)"
proof -
  obtain h l where inv: "serial en obj S0 R0 h (sy_sessions S) (sy_registered S)" "ended h S" "in_progress en obj S l"
      "sy_log S = flatten h @ tagged (sy_owner S) l"
    using sys_inv_reachable [OF assms] unfolding sys_inv_def by blast
  then show ?thesis
    by (intro exI [of _ h] exI [of _ l]) (auto simp: ended_def in_progress_def tagged_def split: option.splits)
qed

text \<open>
  C37. A session is executed once: of two tasks that execute the same session object at most one ever
  makes a call, and at most one returns normally.
\<close>

theorem session_once:
  assumes "(sys_step en obj)\<^sup>*\<^sup>* (new_system S0 R0) S" "obj t = obj u" "t \<noteq> u"
  shows "\<not> ((\<exists>c r. (t, c, r) \<in> set (sy_log S)) \<and> (\<exists>c r. (u, c, r) \<in> set (sy_log S))) \<and>
    \<not> (sy_tasks S t = Ended (Inr ()) \<and> sy_tasks S u = Ended (Inr ()))"
proof
  obtain h l where inv: "serial en obj S0 R0 h (sy_sessions S) (sy_registered S)" "ended h S" "in_progress en obj S l"
      "sy_log S = flatten h @ tagged (sy_owner S) l"
    using sys_inv_reachable [OF assms(1)] unfolding sys_inv_def by blast
  have once: "refused m x \<or> refused k y" if "(t, m, x) \<in> set h" "(u, k, y) \<in> set h" for m x k y
    by (rule serial_once [OF inv(1) that assms(3,2)])
  have log: "(\<exists>m x. (v, m, x) \<in> set h \<and> m \<noteq> []) \<or> sy_owner S = Some v \<and> l \<noteq> []" if "(v, c, r) \<in> set (sy_log S)" for v c r
    using that by (cases "sy_owner S") (auto simp: inv(4) in_flatten tagged_def dest: length_pos_if_in_set)
  have holder: "l = []" if "(v, k, y) \<in> set h" "sy_owner S = Some w" "obj v = obj w" for v k y w
    by (rule part_once [OF inv(1,3) that(2,1,3)])
  show "\<not> ((\<exists>c r. (t, c, r) \<in> set (sy_log S)) \<and> (\<exists>c r. (u, c, r) \<in> set (sy_log S)))"
    using log [of t] log [of u] once holder assms(2,3) by (metis option.inject)
  show "\<not> (sy_tasks S t = Ended (Inr ()) \<and> sy_tasks S u = Ended (Inr ()))"
    using once inv(2) unfolding ended_def by blast
qed

text \<open>
  The lock is never stuck: as long as calls return, a task that waits can still obtain it.
\<close>

lemma lock_obtainable:
  assumes "(sys_step en obj)\<^sup>*\<^sup>* (new_system S0 R0) S" "sy_tasks S u = Waiting"
  shows "\<exists>S'. (sys_step en obj)\<^sup>*\<^sup>* S S' \<and> sy_owner S' = Some u"
proof -
  have "\<exists>S'. (sys_step en obj)\<^sup>*\<^sup>* S S' \<and> sy_owner S' = None \<and> sy_tasks S' u = Waiting"
  proof (cases "sy_owner S")
    case (Some t)
    then obtain m where m: "sy_tasks S t = Holding m"
      using sys_inv_reachable [OF assms(1)] unfolding sys_inv_def in_progress_def by auto
    obtain l x s where "exchanges m l (x, s)"
      using trace_total [of m "\<lambda>_. RNone"] by (metis surj_pair)
    from holder_finishes [OF m this, of en obj] m assms(2) show ?thesis
      by (intro exI [of _ "finished obj t l x s S"]) (auto simp: finished_def set_task_def)
  qed (use assms(2) in auto)
  then obtain S' where "(sys_step en obj)\<^sup>*\<^sup>* S S'" "sy_owner S' = None" "sy_tasks S' u = Waiting" by blast
  from this(1) acquire [OF this(2,3), of en obj] show ?thesis
    by (intro exI [of _ "(set_task u (Holding (run_pipeline en (entered S' (obj u)))) S')\<lparr>sy_owner := Some u\<rparr>"] conjI)
      (rule rtranclp.rtrancl_into_rtrancl, simp_all)
qed

section \<open>Two tasks and one session\<close>

definition demo_sessions :: "nat \<Rightarrow> session" where
  "demo_sessions = (\<lambda>_. append_command (SetConfigCommand []) (new_session []))"

abbreviation demo_call :: "call \<times> reply" where
  "demo_call \<equiv> (OnChannel 0 (SetModule []), RBool True)"

definition demo_system :: system where
  "demo_system =
     \<lparr>sy_sessions = demo_sessions(0 := (demo_sessions 0)\<lparr>se_executed := True\<rparr>), sy_registered = [],
      sy_tasks = (\<lambda>_. Waiting)(0 := Ended (Inr ()), 1 := Ended (Inl RuntimeError)), sy_owner = None, sy_log = [(0, demo_call)]\<rparr>"

lemma demo_first: "exchanges (run_pipeline demo_env (demo_sessions 0)) [demo_call] (Inr (), (demo_sessions 0)\<lparr>se_executed := True\<rparr>)"
  by (simp add: run_pipeline_def demo_sessions_def append_command_def new_session_def execute_command_def execute_set_config_def demo_order
      trace_iffs need_control_def set_module_request_def checked_eq checked_def result_of_def raised_def)

lemma demo_reached: "(sys_step demo_env (\<lambda>_. 0))\<^sup>*\<^sup>* (new_system demo_sessions []) demo_system"
proof -
  let ?T = "finished (\<lambda>_. 0) 0 [demo_call] (Inr ()) ((demo_sessions 0)\<lparr>se_executed := True\<rparr>) (new_system demo_sessions [])"
  have "(sys_step demo_env (\<lambda>_. 0))\<^sup>*\<^sup>* (new_system demo_sessions []) ?T"
    by (rule runs_alone) (use demo_first in \<open>simp_all add: new_system_def entered_def demo_sessions_def append_command_def new_session_def\<close>)
  moreover have "(sys_step demo_env (\<lambda>_. 0))\<^sup>*\<^sup>* ?T (finished (\<lambda>_. 0) 1 [] (Inl RuntimeError) (entered ?T 0) ?T)"
    by (rule runs_alone) (simp_all add: pipeline_twice entered_def finished_def set_task_def new_system_def)
  moreover have "finished (\<lambda>_. 0) 1 [] (Inl RuntimeError) (entered ?T 0) ?T = demo_system"
    by (simp add: finished_def entered_def set_task_def new_system_def demo_system_def demo_sessions_def append_command_def new_session_def)
  ultimately show ?thesis by (simp add: rtranclp_trans)
qed

theorem session_once_witness:
  "(sys_step demo_env (\<lambda>_. 0))\<^sup>*\<^sup>* (new_system demo_sessions []) demo_system \<and> sy_log demo_system = [(0, demo_call)] \<and>
   \<not> (sy_tasks demo_system 0 = Ended (Inr ()) \<and> sy_tasks demo_system 1 = Ended (Inr ()))"
  using session_once [OF demo_reached, of 0 1] demo_reached by (simp add: demo_system_def)

theorem sessions_serialised_witness:
  "\<exists>h. serial demo_env (\<lambda>_. 0) demo_sessions [] h (sy_sessions demo_system) (sy_registered demo_system) \<and>
     flatten h = [(0, demo_call)] \<and> (\<exists>l. (1, l, Inl RuntimeError) \<in> set h)"
proof -
  have "sy_owner demo_system = None" "sy_log demo_system = [(0, demo_call)]" "sy_tasks demo_system 1 = Ended (Inl RuntimeError)"
    by (simp_all add: demo_system_def)
  with sessions_serialised [OF demo_reached] show ?thesis by fastforce
qed

end
