(* ===== verification/Wrapper.thy ===== *)
theory Wrapper
  imports Circuit Programs "HOL-Library.Sublist"
begin

text \<open>
  The wrapper that most users of a LUCIDAC see (lucipy/computer.py): it finds the devices, creates a
  circuit for each of them and runs all circuits in one session. Under it the controller of
  lucidac/controller.py, which refuses a device without a new carrier.

  The network is a parameter: what each address answers (\<open>endpoint\<close> of \<open>Connections\<close>), the devices that a
  search finds, and the order in which the set of unique connections is iterated. A circuit is used as it is
  when a run starts. Host names are ASCII; what \<open>urlparse\<close> does with brackets is a parameter.
\<close>

section \<open>Endpoints\<close>

text \<open>\<open>s.partition(c)\<close> and \<open>s.rpartition(c)[2]\<close>.\<close>

definition before :: "char set \<Rightarrow> string \<Rightarrow> string" where
  "before cs s = takeWhile (\<lambda>c. c \<notin> cs) s"

definition after :: "char \<Rightarrow> string \<Rightarrow> string option" where
  "after c s = (case dropWhile (\<lambda>x. x \<noteq> c) s of [] \<Rightarrow> None | _ # r \<Rightarrow> Some r)"

definition after_last :: "char \<Rightarrow> string \<Rightarrow> string" where
  "after_last c s = rev (takeWhile (\<lambda>x. x \<noteq> c) (rev s))"

definition is_alpha :: "char \<Rightarrow> bool" where
  "is_alpha c \<longleftrightarrow> 97 \<le> (of_char (lower_char c) :: nat) \<and> (of_char (lower_char c) :: nat) \<le> 122"

definition scheme_char :: "char \<Rightarrow> bool" where
  "scheme_char c \<longleftrightarrow> is_alpha c \<or> is_digit c \<or> c \<in> {CHR ''+'', CHR ''-'', CHR ''.''}"

text \<open>The schemes whose paths have parameters after a semicolon.\<close>

definition uses_params :: "string list" where
  "uses_params = [[], ''ftp'', ''hdl'', ''prospero'', ''http'', ''https'', ''shttp'', ''rtsp'', ''rtspu'', ''sip'', ''sips'',
     ''mms'', ''sftp'', ''tel'']"

definition split_scheme :: "string \<Rightarrow> string \<times> string" where
  "split_scheme s =
     (case after CHR '':'' s of
        None \<Rightarrow> ([], s)
      | Some r \<Rightarrow>
          let scheme = before {CHR '':''} s in
          if scheme \<noteq> [] \<and> is_alpha (hd scheme) \<and> list_all scheme_char scheme then (map lower_char scheme, r) else ([], s))"

text \<open>\<open>urlparse(s)\<close>: the network location and the path, without query and fragment.\<close>

definition urlparse :: "string \<Rightarrow> string \<times> string" where
  "urlparse s =
     (let t = filter (\<lambda>c. c \<notin> {CHR 0x09, CHR 0x0A, CHR 0x0D}) (dropWhile (\<lambda>c. (of_char c :: nat) \<le> 32) s);
          (scheme, r) = split_scheme t;
          (netloc, r) = (if take 2 r = ''//''
            then (before {CHR ''/'', CHR ''?'', CHR ''#''} (drop 2 r), dropWhile (\<lambda>c. c \<notin> {CHR ''/'', CHR ''?'', CHR ''#''}) (drop 2 r))
            else ([], r));
          path = before {CHR ''?'', CHR ''#''} r
      in (netloc, if scheme \<in> set uses_params \<and> CHR '';'' \<in> set path
                 then before {CHR '';''} path else path))"

text \<open>\<open>url.hostname\<close> and \<open>url.port\<close>; the zone after a percent sign keeps its case.\<close>

definition url_hostname :: "string \<Rightarrow> string" where
  "url_hostname netloc =
     (let host = before {CHR '':''} (after_last CHR ''@'' netloc) in
      map lower_char (before {CHR ''%''} host) @ dropWhile (\<lambda>c. c \<noteq> CHR ''%'') host)"

definition url_port :: "string \<Rightarrow> int option res" where
  "url_port netloc =
     (case after CHR '':'' (after_last CHR ''@'' netloc) of
        None \<Rightarrow> Inr None
      | Some p \<Rightarrow>
          if p = [] then Inr None
          else if list_all is_digit p
          then rbind (py_int p) (\<lambda>n. if n \<le> 65535 then Inr (Some n) else Inl ValueError)
          else Inl ValueError)"

text \<open>\<open>url.port or self.default_port\<close> treats port 0 like a missing one.\<close>

definition parse_endpoint :: "(string \<Rightarrow> (string \<times> int option) res) \<Rightarrow> string \<Rightarrow> (string \<times> int) res" where
  "parse_endpoint bracketed endpoint =
     (let (netloc, path) = urlparse (if sublist ''://'' endpoint then endpoint else ''tcp://'' @ endpoint) in
      rbind (if CHR ''['' \<in> set netloc \<or> CHR '']'' \<in> set netloc then bracketed netloc
             else rbind (url_port netloc) (\<lambda>p. Inr (url_hostname netloc, p))) (\<lambda>(hostname, port).
      if hostname @ path = [] then Inl ValueError
      else Inr (hostname @ path, case port of None \<Rightarrow> 5732 | Some n \<Rightarrow> if n = 0 then 5732 else n)))"

definition resolve_endpoints ::
    "string list \<Rightarrow> string option \<Rightarrow> bool \<Rightarrow> (string \<times> int \<times> string) list res \<Rightarrow> string list res" where
  "resolve_endpoints hosts environment in_loop search =
     (if hosts \<noteq> [] then Inr hosts
      else case environment of
        Some endpoint \<Rightarrow> Inr [endpoint]
      | None \<Rightarrow>
          if in_loop then Inl ValueError
          else case search of
            Inl e \<Rightarrow> Inl (if e = TimeoutError \<or> e = RuntimeError then ValueError else e)
          | Inr devices \<Rightarrow>
              if devices = [] then Inl ValueError
              else Inr (map (\<lambda>(host, port, name). ''tcp://'' @ host @ '':'' @ int_str port) devices))"

section \<open>The wrapper\<close>

text \<open>\<open>lw_registered\<close> are the runs of the controller.\<close>

record wrapper =
  lw_controller :: "controller option"
  lw_endpoints :: "(string \<times> int) list"
  lw_circuits :: "int \<rightharpoonup> circuit"
  lw_daq_config :: daq_config
  lw_run_config :: run_config
  lw_device_indices :: "int list"
  lw_registered :: "run list"

type_synonym 'a wrap = "(wrapper, 'a) sproc"

definition new_wrapper :: "(string \<Rightarrow> (string \<times> int option) res) \<Rightarrow> string list res \<Rightarrow> wrapper res" where
  "new_wrapper bracketed endpoints =
     rbind endpoints (\<lambda>es.
     rbind (rmap (parse_endpoint bracketed) es) (\<lambda>hps.
     Inr \<lparr>lw_controller = None, lw_endpoints = hps, lw_circuits = Map.empty, lw_daq_config = default_daq_config,
          lw_run_config = default_run_config, lw_device_indices = map int [0..<length es], lw_registered = []\<rparr>))"

text \<open>The world around it: answers of the network, identifiers, and orders of iteration.\<close>

record world =
  wd_network :: "string \<times> int \<Rightarrow> endpoint"
  wd_circuit_id :: "int \<Rightarrow> cid"
  wd_order :: "controller \<Rightarrow> device_connection list"
  wd_run_id :: "nat \<Rightarrow> string"

definition wrapper_env :: "world \<Rightarrow> controller \<Rightarrow> env" where
  "wrapper_env wd c = \<lparr>en_controller = c, en_order = wd_order wd c, en_run_id = wd_run_id wd\<rparr>"

text \<open>\<open>Controller.add_device\<close> of a LUCIDAC.\<close>

definition lucidac_add_device :: "endpoint \<Rightarrow> (controller, unit) pym" where
  "lucidac_add_device ep =
     sbind get_st (\<lambda>c0.
     sbind (controller_add_device ep) (\<lambda>_.
     sbind get_st (\<lambda>c.
     guard (length (mg_connections (ct_manager c0)) + 1 \<le> length (mg_connections (ct_manager c))) PlainException)))"

definition on_controller :: "(controller, 'a) pym \<Rightarrow> (wrapper, 'a) pym" where
  "on_controller m w =
     (case lw_controller w of
        None \<Rightarrow> (Inl AttributeError, w)
      | Some c \<Rightarrow> (case m c of (x, c) \<Rightarrow> (x, w\<lparr>lw_controller := Some c\<rparr>)))"

definition carrier_mac :: "int \<Rightarrow> (controller, string) pym" where
  "carrier_mac idx = eval_st (\<lambda>c. rbind (py_get (ct_carriers c) idx) (\<lambda>x. path_to_mac (spec_path x)))"

definition fresh_circuit :: "world \<Rightarrow> int \<Rightarrow> (wrapper, circuit) pym" where
  "fresh_circuit wd idx =
     sbind (on_controller (carrier_mac idx)) (\<lambda>mac.
     sbind (lift_res (new_circuit (wd_circuit_id wd idx) mac)) (\<lambda>ci.
     sbind (modify (\<lambda>w. w\<lparr>lw_circuits := (lw_circuits w)(idx \<mapsto> ci)\<rparr>)) (\<lambda>_.
     ret ci)))"

definition default_circuit :: "world \<Rightarrow> int \<Rightarrow> (wrapper, unit) pym" where
  "default_circuit wd idx w =
     (if lw_circuits w idx = None then sbind (fresh_circuit wd idx) (\<lambda>_. ret ()) w else ret () w)"

definition set_indices :: "(wrapper, unit) pym" where
  "set_indices = modify (\<lambda>w. w\<lparr>lw_device_indices :=
     (case lw_controller w of None \<Rightarrow> [] | Some c \<Rightarrow> map int [0..<length (ct_carriers c)])\<rparr>)"

definition connect_devices :: "world \<Rightarrow> (wrapper, unit) pym" where
  "connect_devices wd =
     sbind (modify (\<lambda>w. w\<lparr>lw_controller := Some new_controller\<rparr>)) (\<lambda>_.
     sbind get_st (\<lambda>w.
     sbind (for_each (lw_endpoints w) (\<lambda>hp. on_controller (lucidac_add_device (wd_network wd hp)))) (\<lambda>_.
     sbind set_indices (\<lambda>_.
     sbind get_st (\<lambda>w.
     for_each (lw_device_indices w) (default_circuit wd))))))"

text \<open>\<open>controller.reset()\<close> passes over connections without a control channel.\<close>

definition controller_reset :: "bool \<Rightarrow> bool \<Rightarrow> bool \<Rightarrow> bool \<Rightarrow> device_connection list \<Rightarrow> ('s, unit) sproc" where
  "controller_reset keep sync overload circuit order =
     pfor order (\<lambda>c. if dc_control c then pbind (reset_request c keep sync overload circuit) raise_on_error else pret ())"

abbreviation default_reset :: "device_connection list \<Rightarrow> ('s, unit) sproc" where
  "default_reset \<equiv> controller_reset True True False False"

definition ensure_controller :: "world \<Rightarrow> unit wrap" where
  "ensure_controller wd w =
     (if lw_controller w \<noteq> None then pret () w
      else pbind (plift (connect_devices wd)) (\<lambda>_ w.
             default_reset (case lw_controller w of None \<Rightarrow> [] | Some c \<Rightarrow> wd_order wd c) w) w)"

section \<open>Circuits\<close>

definition create_circuit :: "world \<Rightarrow> bool \<Rightarrow> int option \<Rightarrow> circuit wrap" where
  "create_circuit wd in_loop device_index =
     pbind (\<lambda>w. if lw_controller w = None then (if in_loop then praise RuntimeError else ensure_controller wd) w else pret () w) (\<lambda>_.
     pbind (plift (on_controller (eval_st (\<lambda>c. Inr (int (length (ct_carriers c))))))) (\<lambda>n.
     let idx = (case device_index of None \<Rightarrow> 0 | Some i \<Rightarrow> i) in
     if idx < 0 \<or> n \<le> idx then praise IndexError
     else plift (fresh_circuit wd idx)))"

definition set_circuit :: "circuit \<Rightarrow> wrapper \<Rightarrow> wrapper" where
  "set_circuit ci w = w\<lparr>lw_circuits := (lw_circuits w) ++ map_of (map (\<lambda>idx. (idx, ci)) (lw_device_indices w))\<rparr>"

definition set_daq :: "daq_config \<Rightarrow> wrapper \<Rightarrow> wrapper" where
  "set_daq d w = w\<lparr>lw_daq_config := d\<rparr>"

definition set_run :: "run_config \<Rightarrow> wrapper \<Rightarrow> wrapper" where
  "set_run r w = w\<lparr>lw_run_config := r\<rparr>"

section \<open>Running\<close>

definition count_adc_channels :: "circuit \<Rightarrow> int" where
  "count_adc_channels ci = int (length (filter (\<lambda>ch. ch \<noteq> None) (ci_adc_config ci)))"

definition deduced_daq :: "circuit \<Rightarrow> daq_config \<Rightarrow> daq_config" where
  "deduced_daq first d =
     (if dq_num_channels d = 0 \<and> count_adc_channels first > 0 then d\<lparr>dq_num_channels := count_adc_channels first\<rparr> else d)"

definition first_circuit :: "wrapper \<Rightarrow> circuit res" where
  "first_circuit w =
     rbind (py_get (lw_device_indices w) 0) (\<lambda>i. case lw_circuits w i of None \<Rightarrow> Inl KeyError | Some ci \<Rightarrow> Inr ci)"

definition circuit_module :: "(circuit \<Rightarrow> module_item list res) \<Rightarrow> wrapper \<Rightarrow> int \<Rightarrow> module_item list res" where
  "circuit_module ser w idx = (case lw_circuits w idx of None \<Rightarrow> Inl RuntimeError | Some ci \<Rightarrow> ser ci)"

text \<open>The pipeline: the configuration of every device, a calibration, the run.\<close>

definition wrapper_session ::
    "world \<Rightarrow> (circuit \<Rightarrow> module_item list res) \<Rightarrow> daq_config \<Rightarrow> controller \<Rightarrow> wrapper \<Rightarrow> session res" where
  "wrapper_session wd ser daq c w =
     (case sbind (for_each (lw_device_indices w) (\<lambda>idx. sbind (lift_res (circuit_module ser w idx)) set_module_raw)) (\<lambda>_.
           sbind (session_calibrate (wrapper_env wd c) [] False True True) (\<lambda>_.
           session_run \<lparr>rq_config = lw_run_config w, rq_daq = daq, rq_entities = None\<rparr>)) (new_session (lw_registered w)) of
        (Inl e, _) \<Rightarrow> Inl e | (Inr _, s) \<Rightarrow> Inr s)"

definition execute_wrapped :: "env \<Rightarrow> session \<Rightarrow> run list wrap" where
  "execute_wrapped en s w =
     io_bind (run_pipeline en s) (\<lambda>(x, s'). Done (map_sum id (\<lambda>_. se_runs s') x, w\<lparr>lw_registered := se_registered s'\<rparr>))"

definition lucipy_run :: "world \<Rightarrow> (circuit \<Rightarrow> module_item list res) \<Rightarrow> run option wrap" where
  "lucipy_run wd ser =
     pbind (ensure_controller wd) (\<lambda>_.
     pbind (plift (eval_st first_circuit)) (\<lambda>first.
     pbind (plift (eval_st (\<lambda>w. case lw_controller w of None \<Rightarrow> Inl AttributeError | Some c \<Rightarrow> Inr c))) (\<lambda>c.
     pbind (plift (eval_st (\<lambda>w. wrapper_session wd ser (deduced_daq first (lw_daq_config w)) c w))) (\<lambda>s.
     pbind (execute_wrapped (wrapper_env wd c) s) (\<lambda>runs.
     pret (case runs of [] \<Rightarrow> None | r # _ \<Rightarrow> Some r))))))"

definition run_blocking :: "world \<Rightarrow> (circuit \<Rightarrow> module_item list res) \<Rightarrow> bool \<Rightarrow> run option wrap" where
  "run_blocking wd ser in_loop = (if in_loop then praise RuntimeError else lucipy_run wd ser)"

text \<open>\<open>close\<close>: after an error while stopping, the controller stays.\<close>

definition close :: "stopping \<Rightarrow> device_connection list \<Rightarrow> (wrapper, unit) pym" where
  "close st us w =
     (if lw_controller w = None then ret () w
      else sbind (on_controller (controller_stop st us))
        (\<lambda>_. modify (\<lambda>w. w\<lparr>lw_controller := None\<rparr>)) w)"

text \<open>
  \<open>__del__\<close> stops the channels of every connection without the event loop; it gives the channels it has
  tried to stop (\<open>True\<close> for data). An error leaves out the rest of that connection and is dropped.
\<close>

definition del_connection :: "stopping \<Rightarrow> device_connection \<Rightarrow> (nat \<times> bool) list" where
  "del_connection st c =
     (if dc_data c then [(dc_id c, True)] else []) @
     (if dc_control c \<and> (dc_data c \<longrightarrow> fst (st c) = Inr ()) then [(dc_id c, False)] else [])"

definition wrapper_del :: "stopping \<Rightarrow> device_connection list \<Rightarrow> wrapper \<Rightarrow> (nat \<times> bool) list \<times> wrapper" where
  "wrapper_del st us w =
     (if lw_controller w = None then ([], w) else (concat (map (del_connection st) us), w\<lparr>lw_controller := None\<rparr>))"

section \<open>Shortcuts of the controller\<close>

text \<open>
  The deprecated methods of redac/controller.py: each fills a new session and executes it. Their state are
  the runs of the controller. \<open>ser\<close> serializes a computer, \<open>again\<close> reads a module into a copy of the
  controller's computer and serializes that.
\<close>

definition on_session :: "env \<Rightarrow> (session, unit) pym \<Rightarrow> (run list, run list) sproc" where
  "on_session en fill rs =
     (case fill (new_session rs) of
        (Inl e, _) \<Rightarrow> praise e rs
      | (Inr _, s) \<Rightarrow> io_bind (run_pipeline en s) (\<lambda>(x, s'). Done (map_sum id (\<lambda>_. se_runs s') x, se_registered s')))"

definition forward_set_config ::
    "(module_item list \<Rightarrow> module_item list res) \<Rightarrow> env \<Rightarrow> module_item list \<Rightarrow> (run list, run list) sproc" where
  "forward_set_config again en m = on_session en (sbind (lift_res (again m)) set_module_raw)"

definition set_computer :: "('c \<Rightarrow> module_item list res) \<Rightarrow> env \<Rightarrow> 'c \<Rightarrow> (run list, unit) sproc" where
  "set_computer ser en computer = pbind (on_session en (sbind (lift_res (ser computer)) set_module_raw)) (\<lambda>_. pret ())"

definition start_and_await_run :: "env \<Rightarrow> run option \<Rightarrow> (run list, run option) sproc" where
  "start_and_await_run en run =
     (let leader = (case mg_connections (ct_manager (en_controller en)) of [] \<Rightarrow> [] | (p, _) # _ \<Rightarrow> path_str p);
          rq = (case run of
            None \<Rightarrow> \<lparr>rq_config = default_run_config, rq_daq = default_daq_config, rq_entities = None\<rparr>
          | Some r \<Rightarrow> \<lparr>rq_config = rr_config r, rq_daq = rr_daq r, rq_entities = None\<rparr>)
      in pbind (on_session en (sbind (session_calibrate en leader False True True) (\<lambda>_. session_run rq))) (\<lambda>runs.
         pret (case runs of [] \<Rightarrow> run | r # _ \<Rightarrow> Some r)))"

section \<open>Reading endpoints\<close>

text \<open>A host name that a URL can carry as it is.\<close>

definition plain_host :: "string \<Rightarrow> bool" where
  "plain_host h \<longleftrightarrow> h \<noteq> [] \<and>
     list_all (\<lambda>c. 32 < (of_char c :: nat) \<and>
       c \<notin> {CHR '':'', CHR ''/'', CHR ''?'', CHR ''#'', CHR ''@'', CHR ''['', CHR '']'', CHR ''%''}) h"

lemma plain_host_char:
  "plain_host h \<Longrightarrow> c \<in> set h \<Longrightarrow> 32 < (of_char c :: nat) \<and>
     c \<notin> {CHR '':'', CHR ''/'', CHR ''?'', CHR ''#'', CHR ''@'', CHR ''['', CHR '']'', CHR ''%''}"
  by (auto simp: plain_host_def list_all_iff)

lemma before_all: "set s \<inter> cs = {} \<Longrightarrow> before cs s = s"
  by (auto simp: before_def takeWhile_eq_all_conv)

lemma before_stop: "set s \<inter> cs = {} \<Longrightarrow> c \<in> cs \<Longrightarrow> before cs (s @ c # t) = s"
  by (induction s) (auto simp: before_def)

lemma after_last_none: "c \<notin> set s \<Longrightarrow> after_last c s = s"
  unfolding after_last_def by (subst takeWhile_eq_all_conv [THEN iffD2]) auto

lemma after_none: "c \<notin> set s \<Longrightarrow> after c s = None"
  by (simp add: after_def dropWhile_eq_Nil_conv split: list.splits) (metis (mono_tags, lifting) dropWhile_eq_Nil_conv list.distinct(1))

lemma after_some: "c \<notin> set s \<Longrightarrow> after c (s @ c # t) = Some t"
  by (induction s) (auto simp: after_def)

text \<open>A location of graphic characters without path.\<close>

lemma urlparse_location:
  assumes "\<And>c. c \<in> set loc \<Longrightarrow> 32 < (of_char c :: nat) \<and> c \<notin> {CHR ''/'', CHR ''?'', CHR ''#''}"
  shows "urlparse (''tcp://'' @ loc) = (loc, [])"
proof -
  have keep: "filter (\<lambda>c. c \<noteq> CHR 0x09 \<and> c \<noteq> CHR 0x0A \<and> c \<noteq> CHR 0x0D) loc = loc"
    by (rule filter_True) (use assms in \<open>force simp: of_char_def\<close>)
  have scheme: "split_scheme (''tcp://'' @ loc) = (''tcp'', ''//'' @ loc)"
    by (simp add: split_scheme_def after_def before_def is_alpha_def scheme_char_def lower_char_def of_char_def)
  have cut: "takeWhile (\<lambda>c. c \<noteq> CHR ''/'' \<and> c \<noteq> CHR ''?'' \<and> c \<noteq> CHR ''#'') loc = loc"
      "dropWhile (\<lambda>c. c \<noteq> CHR ''/'' \<and> c \<noteq> CHR ''?'' \<and> c \<noteq> CHR ''#'') loc = []"
    using assms by (auto simp: takeWhile_eq_all_conv dropWhile_eq_Nil_conv)
  show ?thesis
    by (simp add: urlparse_def keep scheme [simplified] before_def cut Let_def)
qed

lemma digits_not_special: "c \<in> set (nat_str n) \<Longrightarrow> 32 < (of_char c :: nat) \<and>
     c \<notin> {CHR '':'', CHR ''/'', CHR ''?'', CHR ''#'', CHR ''@'', CHR ''['', CHR '']'', CHR ''%''}"
  using nat_str_digits [of c n] by (auto simp: is_digit_def of_char_def)

lemma py_int_nat_str: "py_int (nat_str n) = Inr (int n)"
  using py_int_int_str [of "int n"] by (simp add: int_str_def)

lemma location_parts:
  assumes "plain_host h"
  shows "url_hostname (h @ '':'' @ nat_str n) = map lower_char h" and "url_hostname h = map lower_char h"
    and "url_port (h @ '':'' @ nat_str n) = (if n \<le> 65535 then Inr (Some (int n)) else Inl ValueError)" and "url_port h = Inr None"
proof -
  note h = plain_host_char [OF assms]
  have at: "after_last CHR ''@'' (h @ CHR '':'' # nat_str n) = h @ CHR '':'' # nat_str n" "after_last CHR ''@'' h = h"
    using h digits_not_special by (intro after_last_none; fastforce)+
  have colon: "before {CHR '':''} (h @ CHR '':'' # nat_str n) = h" "before {CHR '':''} h = h" "CHR '':'' \<notin> set h"
    using h before_stop [of h "{CHR '':''}" "CHR '':''"] before_all [of h "{CHR '':''}"] by fastforce+
  have zone: "before {CHR ''%''} h = h" "dropWhile (\<lambda>c. c \<noteq> CHR ''%'') h = []"
    using h before_all [of h "{CHR ''%''}"] by (fastforce simp: dropWhile_eq_Nil_conv)+
  show "url_hostname (h @ '':'' @ nat_str n) = map lower_char h" "url_hostname h = map lower_char h"
    by (simp_all add: url_hostname_def at colon zone)
  have "list_all is_digit (nat_str n)"
    using nat_str_digits by (simp add: list_all_iff)
  then show "url_port (h @ '':'' @ nat_str n) = (if n \<le> 65535 then Inr (Some (int n)) else Inl ValueError)"
    by (simp add: url_port_def at after_some [OF colon(3)] py_int_nat_str)
  show "url_port h = Inr None"
    by (simp add: url_port_def at after_none [OF colon(3)])
qed

lemma no_scheme:
  assumes "CHR ''/'' \<notin> set s"
  shows "\<not> sublist ''://'' s"
  using assms by (auto simp: sublist_def)

lemma parse_location:
  assumes "\<And>c. c \<in> set loc \<Longrightarrow> 32 < (of_char c :: nat) \<and> c \<notin> {CHR ''/'', CHR ''?'', CHR ''#'', CHR ''['', CHR '']''}"
    and "url_hostname loc = host" and "host \<noteq> []"
  shows "parse_endpoint b (''tcp://'' @ loc) =
      rbind (url_port loc) (\<lambda>p. Inr (host, case p of None \<Rightarrow> 5732 | Some n \<Rightarrow> if n = 0 then 5732 else n))"
    and "parse_endpoint b loc = parse_endpoint b (''tcp://'' @ loc)"
proof -
  have u: "urlparse (''tcp://'' @ loc) = (loc, [])"
    using assms(1) by (intro urlparse_location) blast
  have s: "sublist ''://'' (''tcp://'' @ loc)"
    by (auto simp: sublist_def intro: exI [of _ "''tcp''"])
  have br: "\<not> (CHR ''['' \<in> set loc \<or> CHR '']'' \<in> set loc)"
    using assms(1) by blast
  have "\<not> sublist ''://'' loc"
    using assms(1) by (intro no_scheme) blast
  then show "parse_endpoint b loc = parse_endpoint b (''tcp://'' @ loc)"
    using s by (simp add: parse_endpoint_def)
  show "parse_endpoint b (''tcp://'' @ loc) =
      rbind (url_port loc) (\<lambda>p. Inr (host, case p of None \<Rightarrow> 5732 | Some n \<Rightarrow> if n = 0 then 5732 else n))"
    unfolding parse_endpoint_def if_P [OF s] u Let_def prod.case if_not_P [OF br] assms(2)
    using assms(3) by (cases "url_port loc") simp_all
qed

text \<open>
  Endpoints. A host name with or without a port, with the scheme tcp or without one, is read as
  that host, in lower case, and that port; a missing port and port 0 stand for 5732, and a port above
  65535 is refused.
\<close>

theorem endpoint_parsed:
  assumes "plain_host h"
  shows "parse_endpoint b h = Inr (map lower_char h, 5732) \<and>
    parse_endpoint b (''tcp://'' @ h) = Inr (map lower_char h, 5732) \<and>
    parse_endpoint b (h @ '':'' @ nat_str n) = parse_endpoint b (''tcp://'' @ h @ '':'' @ nat_str n) \<and>
    parse_endpoint b (''tcp://'' @ h @ '':'' @ nat_str n) =
      (if n \<le> 65535 then Inr (map lower_char h, if n = 0 then 5732 else int n) else Inl ValueError)"
proof -
  note h = plain_host_char [OF assms] and parts = location_parts [OF assms]
  have ne: "map lower_char h \<noteq> []" using assms by (simp add: plain_host_def)
  have one: "32 < (of_char c :: nat) \<and> c \<notin> {CHR ''/'', CHR ''?'', CHR ''#'', CHR ''['', CHR '']''}" if "c \<in> set h" for c
    using h [OF that] by blast
  have two: "32 < (of_char c :: nat) \<and> c \<notin> {CHR ''/'', CHR ''?'', CHR ''#'', CHR ''['', CHR '']''}"
    if "c \<in> set (h @ '':'' @ nat_str n)" for c
  proof -
    have colon: "32 < (of_char CHR '':'' :: nat)" by (simp add: of_char_def)
    consider "c \<in> set h" | "c = CHR '':''" | "c \<in> set (nat_str n)" using \<open>c \<in> _\<close> by auto
    then show ?thesis
    proof cases
      case 1
      then show ?thesis by (rule one)
    next
      case 3
      then show ?thesis using digits_not_special [of c n] by blast
    qed (use colon in simp)
  qed
  have "parse_endpoint b (''tcp://'' @ h) = Inr (map lower_char h, 5732)"
    using parse_location(1) [OF one parts(2) ne] by (simp only: parts(4) rbind_simps option.case)
  moreover have "parse_endpoint b (''tcp://'' @ h @ '':'' @ nat_str n) =
      (if n \<le> 65535 then Inr (map lower_char h, if n = 0 then 5732 else int n) else Inl ValueError)"
  proof -
    have port: "url_port (h @ '':'' @ nat_str n) = (if n \<le> 65535 then Inr (Some (int n)) else Inl ValueError)"
      by (rule parts(3))
    show ?thesis
      using parse_location(1) [OF two parts(1) ne] port by (cases "n \<le> 65535") simp_all
  qed
  ultimately show ?thesis
    using parse_location(2) [OF one parts(2) ne] parse_location(2) [OF two parts(1) ne] by (simp only: simp_thms)
qed

theorem endpoint_parsed_witness:
  "parse_endpoint (\<lambda>_. Inl ValueError) ''LUCIDAC-1.local:5733'' = Inr (''lucidac-1.local'', 5733)"
proof -
  have d: "digit_char 5 = CHR ''5''" "digit_char 7 = CHR ''7''" "digit_char 3 = CHR ''3''"
    by code_simp+
  have n: "nat_str 5733 = ''5733''"
    by (simp add: nat_str.simps d)
  have l: "map lower_char ''LUCIDAC-1.local'' = ''lucidac-1.local''" and p: "plain_host ''LUCIDAC-1.local''"
    by code_simp+
  show ?thesis
    using endpoint_parsed [OF p, of "\<lambda>_. Inl ValueError" 5733] unfolding n l by simp
qed

section \<open>Starting\<close>

text \<open>From the first assignment on there is a controller, whatever fails afterwards.\<close>

lemma keeps_on_controller [keeps_intro]: "keeps (\<lambda>w. lw_controller w \<noteq> None) (on_controller m)"
  by (auto simp: triple_def on_controller_def split: option.splits prod.splits sum.splits)

lemma sbind_modify: "sbind (modify f) g s = g () (f s)"
  by (simp add: sbind_def modify_def)

lemma keeps_fresh_circuit [keeps_intro]: "keeps (\<lambda>w. lw_controller w \<noteq> None) (fresh_circuit wd idx)"
  unfolding fresh_circuit_def by (intro keeps_intro) simp

lemma keeps_default_circuit [keeps_intro]: "keeps (\<lambda>w. lw_controller w \<noteq> None) (default_circuit wd idx)"
proof -
  have "keeps (\<lambda>w. lw_controller w \<noteq> None) (sbind (fresh_circuit wd idx) (\<lambda>_. ret ()))"
    by (intro keeps_intro)
  then show ?thesis by (simp add: triple_def default_circuit_def ret_def)
qed

lemma connect_devices_controller: "lw_controller (snd (connect_devices wd w)) \<noteq> None"
proof -
  let ?I = "\<lambda>w. lw_controller w \<noteq> None"
  have "keeps ?I (sbind get_st (\<lambda>w.
     sbind (for_each (lw_endpoints w) (\<lambda>hp. on_controller (lucidac_add_device (wd_network wd hp)))) (\<lambda>_.
     sbind set_indices (\<lambda>_. sbind get_st (\<lambda>w. for_each (lw_device_indices w) (default_circuit wd))))))"
    unfolding set_indices_def by (intro keeps_intro) simp
  from keepsD [OF this, of "w\<lparr>lw_controller := Some new_controller\<rparr>"] show ?thesis
    unfolding connect_devices_def sbind_modify by simp
qed

lemma stays_reset: "stays f (controller_reset keep sync overload circuit order)"
  unfolding controller_reset_def by (intro stays_intro)

lemma ensure_trace:
  "exchanges (ensure_controller wd w) l (x, w') \<longleftrightarrow>
     (if lw_controller w \<noteq> None then l = [] \<and> x = Inr () \<and> w' = w
      else case connect_devices wd w of
        (Inl e, w1) \<Rightarrow> l = [] \<and> x = Inl e \<and> w' = w1
      | (Inr _, w1) \<Rightarrow> exchanges (default_reset (case lw_controller w1 of None \<Rightarrow> [] | Some c \<Rightarrow> wd_order wd c) w1) l (x, w'))"
  by (auto simp: ensure_controller_def trace_iffs split: prod.splits sum.splits)

lemma ensured: "exchanges (ensure_controller wd w) l (x, w') \<Longrightarrow> lw_controller w' \<noteq> None"
  unfolding ensure_trace
  using connect_devices_controller [of wd w] staysD [OF stays_reset, where f = lw_controller and x = x and s' = w']
  by (fastforce split: if_splits prod.splits sum.splits)

text \<open>
  C38. A start is not repeated, not even a failed one. However a call of \<open>_ensure_controller\<close> ends, it leaves
  a controller behind, also when a device could not be added or anything else has failed half-way. The
  next call therefore has exactly one behaviour: it returns at once, without any call to a device, and
  leaves the wrapper as it is. After a failed start it thus neither adds the missing devices nor resets
  anything, although the docstring makes a call a no-op only when the controller is already initialised.
\<close>

theorem failed_start_not_repeated:
  assumes "exchanges (ensure_controller wd w) l (x, w1)"
  shows "lw_controller w1 \<noteq> None \<and>
    (exchanges (ensure_controller wd w1) l2 (y, w2) \<longleftrightarrow> l2 = [] \<and> y = Inr () \<and> w2 = w1)"
  using ensured [OF assms] unfolding ensure_trace [of wd w1] by simp

section \<open>A run of all circuits\<close>

text \<open>After a start every carrier has its circuit, and circuits that were set before are kept.\<close>

lemma default_circuit_Inr:
  assumes "default_circuit wd idx w = (Inr (), w')"
  shows "lw_circuits w' idx \<noteq> None \<and> (\<forall>i ci. lw_circuits w i = Some ci \<longrightarrow> lw_circuits w' i = Some ci) \<and>
    lw_device_indices w' = lw_device_indices w \<and> lw_controller w' = lw_controller w"
  using assms
  by (auto simp: default_circuit_def fresh_circuit_def sbind_Inr_iff modify_def ret_def lift_res_def carrier_mac_def eval_st_def
      on_controller_def split: if_splits option.splits sum.splits)

lemma default_circuits_Inr:
  assumes "for_each is (default_circuit wd) w = (Inr (), w')"
  shows "(\<forall>i \<in> set is. lw_circuits w' i \<noteq> None) \<and> (\<forall>i ci. lw_circuits w i = Some ci \<longrightarrow> lw_circuits w' i = Some ci) \<and>
    lw_device_indices w' = lw_device_indices w \<and> lw_controller w' = lw_controller w"
  using assms
proof (induction "is" arbitrary: w)
  case (Cons i "is")
  then obtain w1 where w1: "default_circuit wd i w = (Inr (), w1)" "for_each is (default_circuit wd) w1 = (Inr (), w')"
    by (auto simp: sbind_Inr_iff)
  note step = default_circuit_Inr [OF w1(1)] and IH = Cons.IH [OF w1(2)]
  from step obtain ci where "lw_circuits w1 i = Some ci" by auto
  with IH have "lw_circuits w' i = Some ci" by blast
  with step IH show ?case by auto
qed (simp add: ret_def)

lemma connect_devices_Inr:
  assumes "connect_devices wd w = (Inr (), w')"
  shows "\<exists>c. lw_controller w' = Some c \<and> lw_device_indices w' = map int [0..<length (ct_carriers c)] \<and>
    (\<forall>i \<in> set (lw_device_indices w'). lw_circuits w' i \<noteq> None)"
proof -
  obtain w1 where w1: "for_each (lw_endpoints w) (\<lambda>hp. on_controller (lucidac_add_device (wd_network wd hp)))
      (w\<lparr>lw_controller := Some new_controller\<rparr>) = (Inr (), w1)"
    and w': "for_each (lw_device_indices (snd (set_indices w1))) (default_circuit wd) (snd (set_indices w1)) = (Inr (), w')"
    using assms unfolding connect_devices_def sbind_modify by (auto simp: sbind_Inr_iff get_st_def set_indices_def modify_def)
  have "keeps (\<lambda>w. lw_controller w \<noteq> None)
      (for_each (lw_endpoints w) (\<lambda>hp. on_controller (lucidac_add_device (wd_network wd hp))))"
    by (intro keeps_intro)
  from keepsD [OF this, of "w\<lparr>lw_controller := Some new_controller\<rparr>"] obtain c where "lw_controller w1 = Some c"
    by (auto simp: w1)
  then show ?thesis
    using default_circuits_Inr [OF w'] by (auto simp: set_indices_def modify_def)
qed

lemma set_module_step:
  "sbind (lift_res x) set_module_raw s = (Inr (), s') \<longleftrightarrow> (\<exists>m. x = Inr m \<and> s' = append_command (SetConfigCommand m) s)"
  by (auto simp: sbind_Inr_iff lift_res_def set_module_raw_def modify_def)

lemma set_modules_Inr:
  assumes "for_each is (\<lambda>idx. sbind (lift_res (f idx)) set_module_raw) s = (Inr (), s')"
  shows "\<exists>ms. rmap f is = Inr ms \<and> s' = s\<lparr>se_pipeline := se_pipeline s @ map SetConfigCommand ms\<rparr>"
  using assms
proof (induction "is" arbitrary: s)
  case (Cons i "is")
  then obtain m s1 where m: "f i = Inr m" "s1 = append_command (SetConfigCommand m) s"
      "for_each is (\<lambda>idx. sbind (lift_res (f idx)) set_module_raw) s1 = (Inr (), s')"
    by (auto simp: sbind_Inr_iff [of _ "\<lambda>_. for_each _ _"] set_module_step)
  with Cons.IH [OF m(3)] show ?case by (auto simp: append_command_def)
qed (auto simp: ret_def)

lemma wrapper_session_filled:
  assumes "wrapper_session wd ser daq c w = Inr s"
  shows "\<exists>ms leader. rmap (circuit_module ser w) (lw_device_indices w) = Inr ms \<and>
    s = filled_session (lw_registered w) ms leader \<lparr>rq_config = lw_run_config w, rq_daq = daq, rq_entities = None\<rparr>"
proof -
  let ?m = "sbind (for_each (lw_device_indices w) (\<lambda>idx. sbind (lift_res (circuit_module ser w idx)) set_module_raw)) (\<lambda>_.
           sbind (session_calibrate (wrapper_env wd c) [] False True True) (\<lambda>_.
           session_run \<lparr>rq_config = lw_run_config w, rq_daq = daq, rq_entities = None\<rparr>))"
  have "?m (new_session (lw_registered w)) = (Inr (), s)"
    using assms by (auto simp: wrapper_session_def split: prod.splits sum.splits)
  then obtain s1 where s1: "for_each (lw_device_indices w) (\<lambda>idx. sbind (lift_res (circuit_module ser w idx)) set_module_raw)
      (new_session (lw_registered w)) = (Inr (), s1)"
    and s: "sbind (session_calibrate (wrapper_env wd c) [] False True True) (\<lambda>_.
       session_run \<lparr>rq_config = lw_run_config w, rq_daq = daq, rq_entities = None\<rparr>) s1 = (Inr (), s)"
    by (auto simp: sbind_Inr_iff)
  obtain leader where "s = append_command (RunCommand \<lparr>rq_config = lw_run_config w, rq_daq = daq, rq_entities = None\<rparr>)
      (append_command (CalibrateCommand leader False True True) s1)"
    using s by (auto simp: sbind_Inr_iff session_calibrate_def session_run_def modify_def eval_st_def split: if_splits sum.splits)
  then show ?thesis
    using set_modules_Inr [OF s1] by (auto simp: append_command_def new_session_def)
qed

text \<open>
  C15. A run of the wrapper. Whatever the devices answer: when \<open>_run\<close> returns, it returns a run; every
  device index of the wrapper has a circuit, every connection has accepted the configurations of all
  these circuits in this call, after that the run was started on the connection of every carrier, and
  then a message reported DONE for every carrier. When the wrapper was not connected before, its
  indices are those of the carriers it has found; a wrapper that was connected keeps the indices it has.
\<close>

theorem wrapper_run_executed:
  assumes "exchanges (lucipy_run wd ser w) l (Inr r, w')"
    and "\<And>c. set (wd_order wd c) = get_unique_connections (ct_manager c)"
  shows "\<exists>c ms run. lw_controller w' = Some c \<and> r = Some run \<and>
    rmap (circuit_module ser w') (lw_device_indices w') = Inr ms \<and> executed_with (wrapper_env wd c) ms l run \<and>
    (lw_controller w = None \<longrightarrow> lw_device_indices w' = map int [0..<length (ct_carriers c)])"
proof -
  obtain l1 l2 w1 first c s rs where en: "exchanges (ensure_controller wd w) l1 (Inr (), w1)" "l = l1 @ l2"
    and c: "lw_controller w1 = Some c" and s: "wrapper_session wd ser (deduced_daq first (lw_daq_config w1)) c w1 = Inr s"
    and ex: "exchanges (execute_wrapped (wrapper_env wd c) s w1) l2 (Inr rs, w')" and r: "r = (case rs of [] \<Rightarrow> None | r # _ \<Rightarrow> Some r)"
    using assms(1) unfolding lucipy_run_def
    by (auto simp: trace_iffs eval_st_def split: option.splits sum.splits) metis
  obtain s' where s': "exchanges (run_pipeline (wrapper_env wd c) s) l2 (Inr (), s')" "rs = se_runs s'"
      "w' = w1\<lparr>lw_registered := se_registered s'\<rparr>"
    using ex unfolding execute_wrapped_def trace_step
    by (elim exE conjE, case_tac x) (auto simp: trace_pret)
  obtain ms leader where ms: "rmap (circuit_module ser w1) (lw_device_indices w1) = Inr ms"
      "s = filled_session (lw_registered w1) ms leader
         \<lparr>rq_config = lw_run_config w1, rq_daq = deduced_daq first (lw_daq_config w1), rq_entities = None\<rparr>"
    using wrapper_session_filled [OF s] by blast
  obtain run where run: "se_runs s' = [run]" "executed_with (wrapper_env wd c) ms l2 run"
    using session_result [OF s'(1) [unfolded ms(2)]] assms(2) [of c] by (auto simp: wrapper_env_def)
  have "executed_with (wrapper_env wd c) ms l run"
    using executed_with_append [OF run(2), of l1 "[]"] by (simp add: en(2))
  moreover have "circuit_module ser w' = circuit_module ser w1"
    by (simp add: s'(3) circuit_module_def fun_eq_iff)
  moreover have "lw_device_indices w1 = map int [0..<length (ct_carriers c)]" if none: "lw_controller w = None"
  proof -
    obtain w0 where w0: "connect_devices wd w = (Inr (), w0)" "exchanges (default_reset
        (case lw_controller w0 of None \<Rightarrow> [] | Some c \<Rightarrow> wd_order wd c) w0) l1 (Inr (), w1)"
      using en(1) none unfolding ensure_trace by (auto split: prod.splits sum.splits)
    show ?thesis
      using connect_devices_Inr [OF w0(1)] staysD [OF stays_reset w0(2), of lw_device_indices]
        staysD [OF stays_reset w0(2), of lw_controller] c by auto
  qed
  ultimately show ?thesis
    using c ms(1) r run(1) s'(2,3) by (intro exI [of _ c] exI [of _ ms] exI [of _ run]) simp
qed

section \<open>What the shortcuts do\<close>

lemma on_session_Inr:
  assumes "exchanges (on_session en fill rs) l (Inr runs, rs')"
  shows "\<exists>s s'. fill (new_session rs) = (Inr (), s) \<and> exchanges (run_pipeline en s) l (Inr (), s') \<and> runs = se_runs s' \<and> rs' = se_registered s'"
proof (cases "fill (new_session rs)")
  case (Pair x s)
  with assms obtain y s' where "x = Inr ()" "exchanges (run_pipeline en s) l (y, s')" "map_sum id (\<lambda>_. se_runs s') y = Inr runs"
      "rs' = se_registered s'"
    by (cases x) (auto simp: on_session_def trace_step trace_praise)
  with Pair show ?thesis by (cases y) auto
qed

lemma set_computer_accepted:
  assumes "exchanges (set_computer ser en computer rs) l (Inr (), rs')"
  shows "\<exists>m. ser computer = Inr m \<and> (\<forall>c \<in> set (en_order en). (OnChannel (dc_id c) (SetModule m), RBool True) \<in> set l)"
proof -
  obtain s s' where s: "sbind (lift_res (ser computer)) set_module_raw (new_session rs) = (Inr (), s)"
      "exchanges (run_pipeline en s) l (Inr (), s')"
    using assms unfolding set_computer_def by (auto simp: trace_pbind trace_pret dest!: on_session_Inr)
  obtain m where m: "ser computer = Inr m" "s = append_command (SetConfigCommand m) (new_session rs)"
    using s(1) by (auto simp: set_module_step)
  have "exchanges (pfor (map SetConfigCommand [m] @ []) (execute_command en) (s\<lparr>se_executed := True\<rparr>)) l (Inr (), s')"
    using s(2) m(2) by (simp add: run_pipeline_def append_command_def new_session_def)
  from pipeline_split [OF this] show ?thesis using m(1) by fastforce
qed

text \<open>
  \<open>start_and_await_run\<close>: when it returns, it returns a run that was started on every carrier and reported
  DONE by every carrier in this call.
\<close>

lemma await_run_executed:
  assumes "exchanges (start_and_await_run en arg rs) l (Inr r, rs')"
    and "set (en_order en) = get_unique_connections (ct_manager (en_controller en))"
  shows "\<exists>run. r = Some run \<and> executed_with en [] l run"
proof -
  let ?leader = "case mg_connections (ct_manager (en_controller en)) of [] \<Rightarrow> [] | (p, _) # _ \<Rightarrow> path_str p"
  define rq where "rq = (case arg of
      None \<Rightarrow> \<lparr>rq_config = default_run_config, rq_daq = default_daq_config, rq_entities = None\<rparr>
    | Some r \<Rightarrow> \<lparr>rq_config = rr_config r, rq_daq = rr_daq r, rq_entities = None\<rparr>)"
  have entities: "rq_entities rq = None" by (simp add: rq_def split: option.splits)
  obtain runs s s' where s: "sbind (session_calibrate en ?leader False True True) (\<lambda>_. session_run rq) (new_session rs) = (Inr (), s)"
      "exchanges (run_pipeline en s) l (Inr (), s')" "runs = se_runs s'" "r = (case runs of [] \<Rightarrow> arg | r # _ \<Rightarrow> Some r)"
    using assms(1) unfolding start_and_await_run_def Let_def rq_def [symmetric] trace_pbind trace_pret
    by (auto dest!: on_session_Inr)
  obtain leader where "s = filled_session rs [] leader rq"
    using s(1) by (auto simp: sbind_Inr_iff session_calibrate_def session_run_def modify_def eval_st_def ret_def append_command_def
        new_session_def split: if_splits sum.splits)
  from session_result [OF s(2) [unfolded this] assms(2) entities] s(3,4) show ?thesis by auto
qed

section \<open>Witnesses\<close>

text \<open>Two addresses: a proxy with two carriers, and one where nothing answers.\<close>

definition demo_world :: world where
  "demo_world =
     \<lparr>wd_network = (\<lambda>(host, port). if host = ''proxy'' then demo_endpoint [''/00-00'', ''/00-01'']
        else (demo_endpoint [])\<lparr>ep_module := Inl TimeoutError\<rparr>),
      wd_circuit_id = nat, wd_order = (\<lambda>c. remdups (map snd (mg_connections (ct_manager c)))), wd_run_id = (\<lambda>_. ''r'')\<rparr>"

definition demo_wrapper :: "string \<Rightarrow> wrapper" where
  "demo_wrapper host =
     \<lparr>lw_controller = None, lw_endpoints = [(host, 5732)], lw_circuits = Map.empty, lw_daq_config = default_daq_config,
      lw_run_config = default_run_config, lw_device_indices = [0], lw_registered = []\<rparr>"

theorem failed_start_not_repeated_witness:
  "\<exists>w1. exchanges (ensure_controller demo_world (demo_wrapper ''nowhere'')) [] (Inl TimeoutError, w1) \<and>
     lw_controller w1 \<noteq> None \<and> exchanges (ensure_controller demo_world w1) [] (Inr (), w1)"
proof -
  have "(case play (ensure_controller demo_world (demo_wrapper ''nowhere'')) [] of
      Some ([], Inl e, w1) \<Rightarrow> e = TimeoutError | _ \<Rightarrow> False)"
    by code_simp
  then obtain w1 where "play (ensure_controller demo_world (demo_wrapper ''nowhere'')) [] = Some ([], Inl TimeoutError, w1)"
    by (auto split: option.splits prod.splits list.splits sum.splits)
  then have ex: "exchanges (ensure_controller demo_world (demo_wrapper ''nowhere'')) [] (Inl TimeoutError, w1)"
    by (rule play_exchanges)
  then show ?thesis
    using failed_start_not_repeated [OF ex, of "[]" "Inr ()" w1] by (intro exI [of _ w1]) simp
qed

text \<open>The user has set a circuit and the number of channels before the first run.\<close>

abbreviation demo_user :: "circuit \<Rightarrow> wrapper" where
  "demo_user ci \<equiv> set_daq (default_daq_config\<lparr>dq_num_channels := 2\<rparr>) ((demo_wrapper ''proxy'')\<lparr>lw_circuits := (\<lambda>_. Some ci)\<rparr>)"

abbreviation demo_replies :: "reply list" where
  "demo_replies \<equiv> [RNone, RBool True, RBool True, RNone, RNone, RNone, RNone, demo_messages 4, demo_messages 2,
     RStatus False [], RBlobs [], RNone]"

lemma demo_user_runs:
  "(case play (lucipy_run demo_world (\<lambda>_. Inr []) (demo_user ci)) demo_replies of
     Some (l, Inr (Some r), w') \<Rightarrow> rr_id r = ''r'' \<and> lw_device_indices w' = [0, 1] | _ \<Rightarrow> False)"
  by code_simp

theorem wrapper_run_executed_witness:
  "\<exists>l r w' c ms. exchanges (lucipy_run demo_world (\<lambda>_. Inr []) (demo_user (projr (new_circuit 0 ''00-00'')))) l (Inr (Some r), w') \<and>
     rr_id r = ''r'' \<and> lw_device_indices w' = [0, 1] \<and> executed_with (wrapper_env demo_world c) ms l r"
proof -
  let ?w = "demo_user (projr (new_circuit 0 ''00-00''))"
  obtain l r w' where p: "play (lucipy_run demo_world (\<lambda>_. Inr []) ?w) demo_replies = Some (l, Inr (Some r), w')"
      "rr_id r = ''r''" "lw_device_indices w' = [0, 1]"
    using demo_user_runs [of "projr (new_circuit 0 ''00-00'')"] by (auto split: option.splits prod.splits sum.splits)
  have ex: "exchanges (lucipy_run demo_world (\<lambda>_. Inr []) ?w) l (Inr (Some r), w')"
    using p(1) by (rule play_exchanges)
  have "set (wd_order demo_world c) = get_unique_connections (ct_manager c)" for c
    by (simp add: demo_world_def get_unique_connections_def)
  from wrapper_run_executed [OF ex this] obtain c ms where "executed_with (wrapper_env demo_world c) ms l r"
    by auto
  with ex p(2,3) show ?thesis
    by (intro exI [of _ l] exI [of _ r] exI [of _ w'] exI [of _ c] exI [of _ ms] conjI)
qed

end
