(* ===== verification/Backends.thy ===== *)
theory Backends
  imports Wrapper
begin

text \<open>
  The command \<open>pybrid proxy\<close>: the lists of backends it reads (cli/dac/backend.py) and what it hands to the
  native proxy (\<open>proxy\<close> in cli/dac/commands.py).

  The grammar of backend lists is a string that the library Lark interprets. Its trees are datatypes here,
  with the text that a tree stands for; the parser is a parameter that returns some tree of its
  input (\<open>parser_ok\<close>). A comment takes the rest of its line. The visitor of the code is a function
  of the tree. \<open>read_text\<close> is a reader without a grammar, which cuts lines at their separators.
\<close>

section \<open>The grammar\<close>

definition integer_token :: "string \<Rightarrow> bool" where
  "integer_token s \<longleftrightarrow> s \<noteq> [] \<and> list_all is_digit s"

definition label_char :: "char \<Rightarrow> bool" where
  "label_char c \<longleftrightarrow> is_alpha c \<or> is_digit c"

definition label_token :: "string \<Rightarrow> bool" where
  "label_token s \<longleftrightarrow> s \<noteq> [] \<and> is_alpha (hd s) \<and> list_all (\<lambda>c. label_char c \<or> c = CHR ''-'') s \<and> label_char (last s)"

text \<open>\<open>ip\<close>: four groups of one to three integers.\<close>

datatype host_node = Hostname "string list" | Ip "string list list"

type_synonym loc_node = "string option \<times> string"

datatype pin_node = IntegerPin string | LabelPin string

datatype def_node =
    CarrierDef host_node "string option" "loc_node option"
  | LegacyCarrierDef host_node "string option" "loc_node option"
  | WireDef "loc_node \<times> pin_node" "loc_node \<times> pin_node"

datatype line_node = Line "def_node option" "string option" bool

fun wf_host :: "host_node \<Rightarrow> bool" where
  "wf_host (Hostname ls) \<longleftrightarrow> ls \<noteq> [] \<and> list_all label_token ls"
| "wf_host (Ip gs) \<longleftrightarrow> length gs = 4 \<and> list_all (\<lambda>g. 1 \<le> length g \<and> length g \<le> 3 \<and> list_all integer_token g) gs"

definition wf_loc :: "loc_node \<Rightarrow> bool" where
  "wf_loc l \<longleftrightarrow> pred_option integer_token (fst l) \<and> integer_token (snd l)"

fun wf_pin :: "pin_node \<Rightarrow> bool" where
  "wf_pin (IntegerPin s) \<longleftrightarrow> integer_token s"
| "wf_pin (LabelPin s) \<longleftrightarrow> label_token s"

fun wf_def :: "def_node \<Rightarrow> bool" where
  "wf_def (CarrierDef h p l) \<longleftrightarrow> wf_host h \<and> pred_option integer_token p \<and> pred_option wf_loc l"
| "wf_def (LegacyCarrierDef h p l) \<longleftrightarrow> wf_host h \<and> pred_option integer_token p \<and> pred_option wf_loc l"
| "wf_def (WireDef (a, x) (b, y)) \<longleftrightarrow> wf_loc a \<and> wf_pin x \<and> wf_loc b \<and> wf_pin y"

fun wf_line :: "line_node \<Rightarrow> bool" where
  "wf_line (Line d c _) \<longleftrightarrow> pred_option wf_def d \<and> pred_option (list_all (\<lambda>x. x \<noteq> CHR 0x0D \<and> x \<noteq> CHR 0x0A)) c"

fun host_text :: "host_node \<Rightarrow> string" where
  "host_text (Hostname ls) = join_with CHR ''.'' ls"
| "host_text (Ip gs) = join_with CHR ''.'' (map concat gs)"

definition opt_text :: "string \<Rightarrow> ('a \<Rightarrow> string) \<Rightarrow> 'a option \<Rightarrow> string" where
  "opt_text sep f x = (case x of None \<Rightarrow> [] | Some a \<Rightarrow> sep @ f a)"

definition endpoint_text :: "host_node \<Rightarrow> string option \<Rightarrow> string" where
  "endpoint_text h p = host_text h @ opt_text '':'' id p"

definition loc_text :: "loc_node \<Rightarrow> string" where
  "loc_text l = (case fst l of None \<Rightarrow> [] | Some s \<Rightarrow> s @ ''/'') @ snd l"

fun pin_text :: "pin_node \<Rightarrow> string" where
  "pin_text (IntegerPin s) = s"
| "pin_text (LabelPin s) = s"

definition wire_loc_text :: "loc_node \<times> pin_node \<Rightarrow> string" where
  "wire_loc_text a = loc_text (fst a) @ ''/'' @ pin_text (snd a)"

fun def_text :: "def_node \<Rightarrow> string" where
  "def_text (CarrierDef h p l) = ''carrier '' @ endpoint_text h p @ opt_text '' '' loc_text l"
| "def_text (LegacyCarrierDef h p l) = endpoint_text h p @ opt_text ''/'' loc_text l"
| "def_text (WireDef a b) = ''wire '' @ wire_loc_text a @ '' '' @ wire_loc_text b"

fun line_text :: "line_node \<Rightarrow> string" where
  "line_text (Line d c crlf) =
     (case d of None \<Rightarrow> [] | Some d \<Rightarrow> def_text d) @ opt_text ''#'' id c @ (if crlf then [CHR 0x0D] else []) @ [CHR 0x0A]"

definition lines_text :: "line_node list \<Rightarrow> string" where
  "lines_text ls = concat (map line_text ls)"

definition grammatical :: "string \<Rightarrow> line_node list \<Rightarrow> bool" where
  "grammatical s ls \<longleftrightarrow> ls \<noteq> [] \<and> list_all wf_line ls \<and> lines_text ls = s"

section \<open>The visitor\<close>

record carrier_spec =
  bs_host :: string
  bs_port :: int
  bs_stack :: "int option"
  bs_carrier :: "int option"

record wire_spec =
  wi_source_carrier :: int
  wi_source_pin :: pin
  wi_target_carrier :: int
  wi_target_pin :: pin
  wi_source_stack :: "int option"
  wi_target_stack :: "int option"

definition make_wire_spec :: "int option \<times> int \<times> pin \<Rightarrow> int option \<times> int \<times> pin \<Rightarrow> wire_spec res" where
  "make_wire_spec a b =
     (case (a, b) of ((ss, sc, sp), (ts, tc, tp)) \<Rightarrow>
        rbind (validate_named_pin sp) (\<lambda>_. rbind (validate_named_pin tp) (\<lambda>_.
        Inr \<lparr>wi_source_carrier = sc, wi_source_pin = sp, wi_target_carrier = tc, wi_target_pin = tp,
             wi_source_stack = ss, wi_target_stack = ts\<rparr>)))"

definition parse_carrier_loc :: "loc_node \<Rightarrow> (int option \<times> int) res" where
  "parse_carrier_loc l =
     (case fst l of
        None \<Rightarrow> rbind (py_int (snd l)) (\<lambda>c. Inr (None, c))
      | Some s \<Rightarrow> rbind (py_int s) (\<lambda>s. rbind (py_int (snd l)) (\<lambda>c. Inr (Some s, c))))"

fun parse_pin :: "pin_node \<Rightarrow> pin res" where
  "parse_pin (IntegerPin s) = rbind (py_int s) (\<lambda>i. Inr (IndexedPin i))"
| "parse_pin (LabelPin s) = Inr (NamedPin s)"

definition parse_wire_loc :: "loc_node \<times> pin_node \<Rightarrow> (int option \<times> int \<times> pin) res" where
  "parse_wire_loc a =
     rbind (parse_carrier_loc (fst a)) (\<lambda>(s, c). rbind (parse_pin (snd a)) (\<lambda>p. Inr (s, c, p)))"

text \<open>\<open>node_to_str\<close> is the text of the node.\<close>

definition parse_host :: "host_node \<Rightarrow> string option \<Rightarrow> (string \<times> int) res" where
  "parse_host h p =
     (case p of None \<Rightarrow> Inr (host_text h, 5732) | Some s \<Rightarrow> rbind (py_int s) (\<lambda>n. Inr (host_text h, n)))"

type_synonym specs = "carrier_spec list \<times> wire_spec list"

definition carrier_def :: "host_node \<Rightarrow> string option \<Rightarrow> loc_node option \<Rightarrow> carrier_spec res" where
  "carrier_def h p l =
     rbind (parse_host h p) (\<lambda>(host, port).
     rbind (case l of None \<Rightarrow> Inr (None, None) | Some l \<Rightarrow> rbind (parse_carrier_loc l) (\<lambda>(s, c). Inr (s, Some c))) (\<lambda>(s, c).
     Inr \<lparr>bs_host = host, bs_port = port, bs_stack = s, bs_carrier = c\<rparr>))"

definition wire_def :: "loc_node \<times> pin_node \<Rightarrow> loc_node \<times> pin_node \<Rightarrow> wire_spec res" where
  "wire_def a b = rbind (parse_wire_loc a) (\<lambda>a. rbind (parse_wire_loc b) (\<lambda>b. make_wire_spec a b))"

fun visit_def :: "def_node \<Rightarrow> (carrier_spec + wire_spec) res" where
  "visit_def (CarrierDef h p l) = rbind (carrier_def h p l) (\<lambda>c. Inr (Inl c))"
| "visit_def (LegacyCarrierDef h p l) = rbind (carrier_def h p l) (\<lambda>c. Inr (Inl c))"
| "visit_def (WireDef a b) = rbind (wire_def a b) (\<lambda>w. Inr (Inr w))"

fun visit_line :: "line_node \<Rightarrow> (carrier_spec + wire_spec) list res" where
  "visit_line (Line d _ _) = (case d of None \<Rightarrow> Inr [] | Some d \<Rightarrow> rbind (visit_def d) (\<lambda>x. Inr [x]))"

definition collect :: "(carrier_spec + wire_spec) list \<Rightarrow> specs" where
  "collect xs = (List.map_filter (case_sum Some (\<lambda>_. None)) xs, List.map_filter (case_sum (\<lambda>_. None) Some) xs)"

definition visit :: "line_node list \<Rightarrow> specs res" where
  "visit ls = rbind (rmap visit_line ls) (\<lambda>xs. Inr (collect (concat xs)))"

text \<open>\<open>parse\<close>: \<open>files\<close> is what reading a path gives, if it exists.\<close>

definition input_text :: "(string \<Rightarrow> string res option) \<Rightarrow> string \<Rightarrow> string res" where
  "input_text files i =
     (case files i of
        Some t \<Rightarrow> t
      | None \<Rightarrow> Inr (map (\<lambda>c. if c = CHR '','' then CHR 0x0A else c) i @ [CHR 0x0A]))"

definition parse_backends ::
    "(string \<Rightarrow> line_node list res) \<Rightarrow> (string \<Rightarrow> string res option) \<Rightarrow> string \<Rightarrow> specs res" where
  "parse_backends parser files i = rbind (input_text files i) (\<lambda>t. rbind (parser t) visit)"

text \<open>What Lark documents: it returns a tree of its input whenever there is one.\<close>

definition parser_ok :: "(string \<Rightarrow> line_node list res) \<Rightarrow> string \<Rightarrow> bool" where
  "parser_ok parser s \<longleftrightarrow> (case parser s of Inr ls \<Rightarrow> grammatical s ls | Inl _ \<Rightarrow> (\<forall>ls. \<not> grammatical s ls))"

section \<open>The proxy command\<close>

text \<open>
  \<open>proxy_plan\<close> are the calls on the native server up to the loop that keeps it running, as long as none of
  them raises; \<open>Inl\<close> is the exit code of a refused list.
\<close>

datatype proxy_call =
    AddBackend string int "int option" "int option"
  | AddWire "int option" int pin "int option" int pin
  | SetDebug
  | SetSessionTimeout rat
  | StartServer string int

definition backend_string :: "string list \<Rightarrow> string" where
  "backend_string bs = (case bs of [b] \<Rightarrow> b | _ \<Rightarrow> join_with CHR '','' bs)"

definition check_wire :: "carrier_spec list \<Rightarrow> wire_spec \<Rightarrow> bool" where
  "check_wire specs w \<longleftrightarrow>
     (wi_source_stack w, Some (wi_source_carrier w)) \<in> set (map (\<lambda>s. (bs_stack s, bs_carrier s)) specs) \<and>
     (wi_target_stack w, Some (wi_target_carrier w)) \<in> set (map (\<lambda>s. (bs_stack s, bs_carrier s)) specs) \<and>
     (wi_source_stack w = None \<longleftrightarrow> wi_target_stack w = None)"

definition add_backend :: "carrier_spec \<Rightarrow> proxy_call" where
  "add_backend s = AddBackend (bs_host s) (bs_port s) (bs_stack s) (bs_carrier s)"

definition add_wire :: "wire_spec \<Rightarrow> proxy_call" where
  "add_wire w = AddWire (wi_source_stack w) (wi_source_carrier w) (wi_source_pin w)
     (wi_target_stack w) (wi_target_carrier w) (wi_target_pin w)"

definition proxy_plan ::
    "(string \<Rightarrow> line_node list res) \<Rightarrow> (string \<Rightarrow> string res option) \<Rightarrow> string list \<Rightarrow> bool \<Rightarrow> rat \<Rightarrow> string \<Rightarrow> int \<Rightarrow>
      (int + proxy_call list) res" where
  "proxy_plan parser files backend debug timeout listen port =
     rbind (parse_backends parser files (backend_string backend)) (\<lambda>(specs, wires).
     if \<not> list_all (check_wire specs) wires then Inr (Inl 1)
     else Inr (Inr ((if debug then [SetDebug] else []) @ map add_backend specs @ map add_wire wires @
       [SetSessionTimeout timeout, StartServer listen port])))"

section \<open>Reading without a grammar\<close>

definition read_loc :: "string list \<Rightarrow> (int option \<times> int) res" where
  "read_loc ws =
     (case ws of
        [c] \<Rightarrow> rbind (py_int c) (\<lambda>c. Inr (None, c))
      | [s, c] \<Rightarrow> rbind (py_int s) (\<lambda>s. rbind (py_int c) (\<lambda>c. Inr (Some s, c)))
      | _ \<Rightarrow> Inl PlainException)"

definition read_pin :: "string \<Rightarrow> pin res" where
  "read_pin s = (if is_digit (hd s) then rbind (py_int s) (\<lambda>i. Inr (IndexedPin i)) else Inr (NamedPin s))"

definition read_wire_loc :: "string \<Rightarrow> (int option \<times> int \<times> pin) res" where
  "read_wire_loc s =
     (let ws = split_on CHR ''/'' s in
      rbind (read_loc (butlast ws)) (\<lambda>(s, c). rbind (read_pin (last ws)) (\<lambda>p. Inr (s, c, p))))"

definition read_carrier :: "string \<Rightarrow> string list \<Rightarrow> (carrier_spec + wire_spec) res" where
  "read_carrier e ws =
     rbind (case split_on CHR '':'' e of
              [h] \<Rightarrow> Inr (h, 5732) | [h, p] \<Rightarrow> rbind (py_int p) (\<lambda>n. Inr (h, n)) | _ \<Rightarrow> Inl PlainException) (\<lambda>(host, port).
     rbind (if ws = [] then Inr (None, None) else rbind (read_loc ws) (\<lambda>(s, c). Inr (s, Some c))) (\<lambda>(s, c).
     Inr (Inl \<lparr>bs_host = host, bs_port = port, bs_stack = s, bs_carrier = c\<rparr>)))"

definition read_entry :: "string \<Rightarrow> (carrier_spec + wire_spec) res" where
  "read_entry s =
     (case split_on CHR '' '' s of
        [x] \<Rightarrow> (let ws = split_on CHR ''/'' x in read_carrier (hd ws) (tl ws))
      | [_, e] \<Rightarrow> read_carrier e []
      | [k, a, b] \<Rightarrow>
          if k = ''carrier'' then read_carrier a (split_on CHR ''/'' b)
          else rbind (read_wire_loc a) (\<lambda>a. rbind (read_wire_loc b) (\<lambda>b. rbind (make_wire_spec a b) (\<lambda>w. Inr (Inr w))))
      | _ \<Rightarrow> Inl PlainException)"

definition read_line :: "string \<Rightarrow> (carrier_spec + wire_spec) list res" where
  "read_line s =
     (let t = before {CHR ''#'', CHR 0x0D} s in if t = [] then Inr [] else rbind (read_entry t) (\<lambda>x. Inr [x]))"

definition read_text :: "string \<Rightarrow> specs res" where
  "read_text s = rbind (rmap read_line (butlast (split_on CHR 0x0A s))) (\<lambda>xs. Inr (collect (concat xs)))"

section \<open>The grammar is unambiguous\<close>

text \<open>Tokens hold none of the separators.\<close>

definition plain_text :: "string \<Rightarrow> bool" where
  "plain_text s \<longleftrightarrow> set s \<inter> {CHR '' '', CHR ''/'', CHR '':'', CHR ''#'', CHR 0x0D, CHR 0x0A} = {}"

lemma plain_text_simps [simp]:
  "plain_text []" "plain_text (x @ y) \<longleftrightarrow> plain_text x \<and> plain_text y"
  "plain_text (c # y) \<longleftrightarrow> c \<notin> {CHR '' '', CHR ''/'', CHR '':'', CHR ''#'', CHR 0x0D, CHR 0x0A} \<and> plain_text y"
  by (auto simp: plain_text_def)

lemma plain_concat: "(\<And>w. w \<in> set ws \<Longrightarrow> plain_text w) \<Longrightarrow> plain_text (concat ws)"
  by (induction ws) auto

lemma plain_join: "(\<And>w. w \<in> set ws \<Longrightarrow> plain_text w) \<Longrightarrow> plain_text (join_with CHR ''.'' ws)"
  by (induction "CHR ''.''" ws rule: join_with.induct) auto

lemma separators_no_label:
  "\<not> label_char CHR '' ''" "\<not> label_char CHR ''/''" "\<not> label_char CHR '':''" "\<not> label_char CHR ''#''"
  "\<not> label_char CHR 0x0D" "\<not> label_char CHR 0x0A"
  by (simp_all add: label_token_def label_char_def is_alpha_def is_digit_def lower_char_def of_char_def)

lemma plain_integer: "integer_token s \<Longrightarrow> plain_text s"
  unfolding integer_token_def plain_text_def list_all_iff using separators_no_label by (fastforce simp: label_char_def)

lemma plain_label: "label_token s \<Longrightarrow> plain_text s"
  unfolding label_token_def plain_text_def list_all_iff using separators_no_label by fastforce

lemma plain_host: "wf_host h \<Longrightarrow> plain_text (host_text h)"
  using plain_label plain_integer by (cases h) (auto simp: list_all_iff intro!: plain_join plain_concat; blast)+

lemma plain_pin: "wf_pin p \<Longrightarrow> plain_text (pin_text p)"
  by (cases p) (auto intro: plain_label plain_integer)

lemma plain_notin:
  assumes "plain_text s"
  shows "CHR '' '' \<notin> set s" "CHR ''/'' \<notin> set s" "CHR '':'' \<notin> set s" "CHR ''#'' \<notin> set s" "CHR 0x0D \<notin> set s" "CHR 0x0A \<notin> set s"
  using assms by (auto simp: plain_text_def)

lemma split_on_sep: "split_on c (x @ c # y) = split_on c x @ split_on c y"
  by (induction x) (auto split: list.splits)

lemma split_plain:
  assumes "plain_text s"
  shows "split_on CHR '' '' s = [s]" "split_on CHR ''/'' s = [s]" "split_on CHR '':'' s = [s]"
  using plain_notin [OF assms] by (simp_all add: split_on_no_sep)

text \<open>A text that separates lines and columns from what is inside.\<close>

definition column :: "string \<Rightarrow> bool" where
  "column s \<longleftrightarrow> s \<noteq> [] \<and> set s \<inter> {CHR '' '', CHR ''#'', CHR 0x0D, CHR 0x0A} = {}"

lemma split_column: "column s \<Longrightarrow> split_on CHR '' '' s = [s]"
  by (simp add: column_def split_on_no_sep)

lemma column_plain: "plain_text s \<Longrightarrow> s \<noteq> [] \<Longrightarrow> column s"
  by (auto simp: column_def plain_text_def)

lemma column_integer: "integer_token s \<Longrightarrow> column s"
  using plain_integer by (auto simp: integer_token_def intro: column_plain)

lemma column_join: "column x \<Longrightarrow> column y \<Longrightarrow> column (x @ CHR '':'' # y)" "column x \<Longrightarrow> column y \<Longrightarrow> column (x @ CHR ''/'' # y)"
  by (auto simp: column_def)

lemma host_text_nonempty: "wf_host h \<Longrightarrow> host_text h \<noteq> []"
proof (cases h)
  case (Hostname ls)
  assume "wf_host h"
  then show ?thesis
    using Hostname by (cases ls) (auto simp: label_token_def dest: hd_join_with)
next
  case (Ip gs)
  assume "wf_host h"
  then have "map concat gs \<noteq> []" "hd (map concat gs) \<noteq> []"
    using Ip by (cases gs; cases "hd gs"; force simp: integer_token_def)+
  then show ?thesis
    using Ip by (cases "map concat gs") (auto dest: hd_join_with)
qed

lemma endpoint_parts:
  assumes "wf_host h" "pred_option integer_token p"
  shows "column (endpoint_text h p)" "split_on CHR ''/'' (endpoint_text h p) = [endpoint_text h p]"
    "split_on CHR '':'' (endpoint_text h p) = host_text h # (case p of None \<Rightarrow> [] | Some n \<Rightarrow> [n])"
proof -
  note h = plain_host [OF assms(1)] host_text_nonempty [OF assms(1)]
  show "column (endpoint_text h p)"
    using assms(2) h by (cases p) (auto simp: endpoint_text_def opt_text_def intro: column_join column_plain column_integer)
  show "split_on CHR ''/'' (endpoint_text h p) = [endpoint_text h p]"
    using assms(2) plain_notin(2) [OF h(1)] plain_notin(2) [OF plain_integer]
    by (cases p) (auto simp: endpoint_text_def opt_text_def intro!: split_on_no_sep)
  show "split_on CHR '':'' (endpoint_text h p) = host_text h # (case p of None \<Rightarrow> [] | Some n \<Rightarrow> [n])"
    using assms(2) split_plain(3) [OF h(1)] split_plain(3) [OF plain_integer]
    by (cases p) (auto simp: endpoint_text_def opt_text_def split_on_sep)
qed

lemma loc_parts:
  assumes "wf_loc l"
  shows "column (loc_text l)" "split_on CHR ''/'' (loc_text l) = (case fst l of None \<Rightarrow> [] | Some s \<Rightarrow> [s]) @ [snd l]"
proof -
  show "column (loc_text l)"
    using assms by (cases "fst l") (auto simp: wf_loc_def loc_text_def intro: column_join column_integer)
  show "split_on CHR ''/'' (loc_text l) = (case fst l of None \<Rightarrow> [] | Some s \<Rightarrow> [s]) @ [snd l]"
    using assms split_plain(2) [OF plain_integer] by (cases "fst l") (auto simp: wf_loc_def loc_text_def split_on_sep)
qed

lemma wire_loc_parts:
  assumes "wf_loc (fst a)" "wf_pin (snd a)"
  shows "column (wire_loc_text a)"
    "split_on CHR ''/'' (wire_loc_text a) = split_on CHR ''/'' (loc_text (fst a)) @ [pin_text (snd a)]"
proof -
  have "pin_text (snd a) \<noteq> []"
    using assms(2) by (cases "snd a") (auto simp: integer_token_def label_token_def)
  then show "column (wire_loc_text a)"
    using loc_parts(1) [OF assms(1)] plain_pin [OF assms(2)] by (simp add: wire_loc_text_def column_join column_plain)
  show "split_on CHR ''/'' (wire_loc_text a) = split_on CHR ''/'' (loc_text (fst a)) @ [pin_text (snd a)]"
    using split_plain(2) [OF plain_pin [OF assms(2)]] by (simp add: wire_loc_text_def split_on_sep)
qed

lemma read_loc_text: "wf_loc l \<Longrightarrow> read_loc (split_on CHR ''/'' (loc_text l)) = parse_carrier_loc l"
  by (cases "fst l") (simp_all add: loc_parts read_loc_def parse_carrier_loc_def)

lemma alpha_not_digit: "is_alpha c \<Longrightarrow> \<not> is_digit c"
  by (auto simp: is_alpha_def is_digit_def lower_char_def)

lemma read_pin_text: "wf_pin p \<Longrightarrow> read_pin (pin_text p) = parse_pin p"
  by (cases p; rename_tac s; case_tac s) (auto simp: read_pin_def integer_token_def label_token_def dest: alpha_not_digit)

lemma read_wire_loc_text: "wf_loc (fst a) \<Longrightarrow> wf_pin (snd a) \<Longrightarrow> read_wire_loc (wire_loc_text a) = parse_wire_loc a"
  by (simp add: read_wire_loc_def wire_loc_parts read_loc_text read_pin_text parse_wire_loc_def Let_def)

lemma read_carrier_text:
  assumes "wf_host h" "pred_option integer_token p" "pred_option wf_loc l"
  shows "read_carrier (endpoint_text h p) (case l of None \<Rightarrow> [] | Some l \<Rightarrow> split_on CHR ''/'' (loc_text l)) =
    rbind (carrier_def h p l) (\<lambda>c. Inr (Inl c))"
  using assms(3) endpoint_parts(3) [OF assms(1,2)]
  by (cases p; cases l) (auto simp: read_carrier_def carrier_def_def parse_host_def read_loc_text rbind_def split: sum.splits)

abbreviation one_entry :: "string \<Rightarrow> bool" where
  "one_entry s \<equiv> s \<noteq> [] \<and> set s \<inter> {CHR ''#'', CHR 0x0D, CHR 0x0A} = {}"

lemma carrier_entry_text:
  assumes wf: "wf_host h" "pred_option integer_token p" "pred_option wf_loc l"
  shows "read_entry (def_text (CarrierDef h p l)) = visit_def (CarrierDef h p l)" "one_entry (def_text (CarrierDef h p l))"
    "read_entry (def_text (LegacyCarrierDef h p l)) = visit_def (LegacyCarrierDef h p l)" "one_entry (def_text (LegacyCarrierDef h p l))"
proof -
  note e = endpoint_parts [OF wf(1,2)] and rc = read_carrier_text [OF wf]
  have lc: "column (loc_text x)" if "l = Some x" for x using wf(3) that loc_parts by simp
  show "read_entry (def_text (CarrierDef h p l)) = visit_def (CarrierDef h p l)"
    using rc split_column [OF e(1)] split_column [OF lc]
    by (cases l) (simp_all add: opt_text_def read_entry_def split_on_sep)
  show "read_entry (def_text (LegacyCarrierDef h p l)) = visit_def (LegacyCarrierDef h p l)"
    using rc e(2) split_column [OF e(1)] split_column [OF column_join(2) [OF e(1) lc]]
    by (cases l) (simp_all add: opt_text_def read_entry_def split_on_sep Let_def)
  show "one_entry (def_text (CarrierDef h p l))" "one_entry (def_text (LegacyCarrierDef h p l))"
    using e(1) lc by (cases l; auto simp: opt_text_def column_def)+
qed

lemma wire_entry_text:
  assumes wf: "wf_loc (fst a)" "wf_pin (snd a)" "wf_loc (fst b)" "wf_pin (snd b)"
  shows "read_entry (def_text (WireDef a b)) = visit_def (WireDef a b)" "one_entry (def_text (WireDef a b))"
proof -
  note a = wire_loc_parts(1) [OF wf(1,2)] and b = wire_loc_parts(1) [OF wf(3,4)]
  show "read_entry (def_text (WireDef a b)) = visit_def (WireDef a b)"
    using split_column [OF a] split_column [OF b] read_wire_loc_text [OF wf(1,2)] read_wire_loc_text [OF wf(3,4)]
    by (simp add: read_entry_def split_on_sep wire_def_def rbind_def split: sum.splits)
  show "one_entry (def_text (WireDef a b))"
    using a b by (auto simp: column_def)
qed

lemma read_entry_text:
  assumes "wf_def d"
  shows "read_entry (def_text d) = visit_def d \<and> one_entry (def_text d)"
proof (cases d)
  case (CarrierDef h p l)
  with assms carrier_entry_text(1,2) show ?thesis by (metis wf_def.simps(1))
next
  case (LegacyCarrierDef h p l)
  with assms carrier_entry_text(3,4) show ?thesis by (metis wf_def.simps(2))
next
  case (WireDef a b)
  with assms wire_entry_text [of a b] show ?thesis by (cases a; cases b) (simp only: wf_def.simps fst_conv snd_conv simp_thms)
qed

lemma read_line_text:
  assumes "wf_line l"
  shows "\<exists>s. line_text l = s @ [CHR 0x0A] \<and> CHR 0x0A \<notin> set s \<and> read_line s = visit_line l"
proof (cases l)
  case (Line d c crlf)
  let ?t = "case d of None \<Rightarrow> [] | Some d \<Rightarrow> def_text d"
  let ?s = "?t @ opt_text ''#'' id c @ (if crlf then [CHR 0x0D] else [])"
  have t: "set ?t \<inter> {CHR ''#'', CHR 0x0D, CHR 0x0A} = {}"
    using assms read_entry_text by (cases d) (simp_all add: Line)
  have "before {CHR ''#'', CHR 0x0D} ?s = ?t"
    using t by (cases c) (auto simp: opt_text_def intro!: before_stop before_all)
  then have "read_line ?s = visit_line l"
    using assms read_entry_text by (cases d) (simp_all add: Line read_line_def Let_def)
  moreover have "CHR 0x0A \<notin> set ?s"
    using t assms by (auto simp: Line opt_text_def list_all_iff split: option.splits)
  ultimately show ?thesis
    by (intro exI [of _ ?s]) (simp add: Line)
qed

lemma read_lines_text:
  assumes "list_all wf_line ls"
  shows "\<exists>ws. split_on CHR 0x0A (lines_text ls) = ws @ [[]] \<and> rmap read_line ws = rmap visit_line ls"
  using assms
proof (induction ls)
  case (Cons l ls)
  then obtain ws where "split_on CHR 0x0A (lines_text ls) = ws @ [[]]" "rmap read_line ws = rmap visit_line ls" by auto
  moreover obtain s where "line_text l = s @ [CHR 0x0A]" "CHR 0x0A \<notin> set s" "read_line s = visit_line l"
    using read_line_text Cons.prems by auto
  ultimately show ?case
    by (intro exI [of _ "s # ws"]) (simp add: lines_text_def split_on_append)
qed (auto simp: lines_text_def)

text \<open>Whatever tree the parser picks, the visitor gives what reading the text gives.\<close>

lemma visit_read: "grammatical s ls \<Longrightarrow> visit ls = read_text s"
  using read_lines_text [of ls] by (auto simp: grammatical_def visit_def read_text_def butlast_append)

lemma parse_grammatical:
  assumes "input_text files i = Inr s" "parser_ok parser s" "grammatical s ls"
  shows "parse_backends parser files i = visit ls"
  using assms visit_read by (auto simp: parse_backends_def parser_ok_def split: sum.splits)

section \<open>Writing lists\<close>

definition host_of :: "string \<Rightarrow> host_node" where
  "host_of s = (if is_digit (hd s) then Ip (map (\<lambda>w. [w]) (split_on CHR ''.'' s)) else Hostname (split_on CHR ''.'' s))"

fun pin_node_of :: "pin \<Rightarrow> pin_node" where
  "pin_node_of (NamedPin s) = LabelPin s"
| "pin_node_of (IndexedPin i) = IntegerPin (int_str i)"

definition carrier_node :: "carrier_spec \<Rightarrow> def_node" where
  "carrier_node c =
     CarrierDef (host_of (bs_host c)) (Some (int_str (bs_port c))) (map_option (\<lambda>i. (map_option int_str (bs_stack c), int_str i)) (bs_carrier c))"

definition wire_node :: "wire_spec \<Rightarrow> def_node" where
  "wire_node w =
     WireDef ((map_option int_str (wi_source_stack w), int_str (wi_source_carrier w)), pin_node_of (wi_source_pin w))
       ((map_option int_str (wi_target_stack w), int_str (wi_target_carrier w)), pin_node_of (wi_target_pin w))"

definition line_of :: "(carrier_spec + wire_spec) option \<times> string option \<Rightarrow> line_node" where
  "line_of x = Line (map_option (case_sum carrier_node wire_node) (fst x)) (snd x) False"

text \<open>The notation as documented: a pin is an index from 0 to 7 or one of four names.\<close>

fun valid_pin :: "pin \<Rightarrow> bool" where
  "valid_pin (NamedPin s) \<longleftrightarrow> s \<in> {''aux0'', ''aux1'', ''gen0'', ''gen1''}"
| "valid_pin (IndexedPin i) \<longleftrightarrow> 0 \<le> i \<and> i \<le> 7"

definition valid_carrier :: "carrier_spec \<Rightarrow> bool" where
  "valid_carrier c \<longleftrightarrow> wf_host (host_of (bs_host c)) \<and> 0 \<le> bs_port c \<and> pred_option ((\<le>) 0) (bs_stack c) \<and>
     pred_option ((\<le>) 0) (bs_carrier c) \<and> (bs_stack c \<noteq> None \<longrightarrow> bs_carrier c \<noteq> None)"

definition valid_wire :: "wire_spec \<Rightarrow> bool" where
  "valid_wire w \<longleftrightarrow> 0 \<le> wi_source_carrier w \<and> 0 \<le> wi_target_carrier w \<and> pred_option ((\<le>) 0) (wi_source_stack w) \<and>
     pred_option ((\<le>) 0) (wi_target_stack w) \<and> valid_pin (wi_source_pin w) \<and> valid_pin (wi_target_pin w)"

lemma integer_int_str: "0 \<le> i \<Longrightarrow> integer_token (int_str i)"
  using nat_str_digits nat_str_neq_Nil by (simp add: integer_token_def int_str_def list_all_iff)

lemma join_split_on: "join_with c (split_on c s) = s"
proof (induction s)
  case (Cons x xs)
  then show ?case
    by (cases "split_on c xs"; cases "tl (split_on c xs)") (auto split: if_splits)
qed simp

lemma host_of_text: "host_text (host_of s) = s"
  by (simp add: host_of_def join_split_on comp_def)

lemma named_pins: "label_token ''aux0''" "label_token ''aux1''" "label_token ''gen0''" "label_token ''gen1''"
  by (simp_all add: label_token_def label_char_def is_alpha_def is_digit_def lower_char_def of_char_def)

lemma written_pin: "valid_pin p \<Longrightarrow> wf_pin (pin_node_of p) \<and> parse_pin (pin_node_of p) = Inr p \<and> validate_named_pin p = Inr ()"
  using named_pins by (cases p) (auto simp: integer_int_str py_int_int_str)

lemma written_carrier:
  assumes "valid_carrier c"
  shows "wf_def (carrier_node c)" "visit_def (carrier_node c) = Inr (Inl c)"
proof -
  note v = assms [unfolded valid_carrier_def]
  show "wf_def (carrier_node c)"
    using v by (cases "bs_carrier c"; cases "bs_stack c") (auto simp: carrier_node_def wf_loc_def integer_int_str)
  show "visit_def (carrier_node c) = Inr (Inl c)"
    using v by (cases "bs_carrier c"; cases "bs_stack c")
      (auto simp: carrier_node_def carrier_def_def parse_host_def parse_carrier_loc_def py_int_int_str host_of_text)
qed

lemma written_wire:
  assumes "valid_wire w"
  shows "wf_def (wire_node w)" "visit_def (wire_node w) = Inr (Inr w)"
proof -
  note v = assms [unfolded valid_wire_def]
  note p = written_pin [of "wi_source_pin w"] written_pin [of "wi_target_pin w"]
  show "wf_def (wire_node w)"
    using v p by (cases "wi_source_stack w"; cases "wi_target_stack w") (simp_all add: wire_node_def wf_loc_def integer_int_str)
  show "visit_def (wire_node w) = Inr (Inr w)"
    using v p by (cases "wi_source_stack w"; cases "wi_target_stack w")
      (simp_all add: wire_node_def wire_def_def parse_wire_loc_def parse_carrier_loc_def make_wire_spec_def py_int_int_str)
qed

definition valid_line :: "(carrier_spec + wire_spec) option \<times> string option \<Rightarrow> bool" where
  "valid_line x \<longleftrightarrow> pred_option (case_sum valid_carrier valid_wire) (fst x) \<and>
     pred_option (list_all (\<lambda>c. c \<noteq> CHR 0x0D \<and> c \<noteq> CHR 0x0A)) (snd x)"

lemma valid_entry: "case_sum valid_carrier valid_wire e \<Longrightarrow>
    wf_def (case_sum carrier_node wire_node e) \<and> visit_def (case_sum carrier_node wire_node e) = Inr e"
  using written_carrier written_wire by (cases e) simp_all

lemma written_line: "valid_line x \<Longrightarrow> wf_line (line_of x) \<and> visit_line (line_of x) = Inr (case fst x of None \<Rightarrow> [] | Some e \<Rightarrow> [e])"
  by (cases "fst x") (simp_all add: valid_line_def line_of_def valid_entry)

lemma written_lines:
  "list_all valid_line xs \<Longrightarrow> list_all wf_line (map line_of xs) \<and>
     rmap visit_line (map line_of xs) = Inr (map (\<lambda>x. case fst x of None \<Rightarrow> [] | Some e \<Rightarrow> [e]) xs)"
  by (induction xs) (auto simp: written_line)

lemma concat_optional: "concat (map (\<lambda>x. case f x of None \<Rightarrow> [] | Some e \<Rightarrow> [e]) xs) = List.map_filter f xs"
  by (induction xs) (auto simp: List.map_filter_simps split: option.splits)

section \<open>Reading lists\<close>


text \<open>A list on the command line: definitions separated by commas.\<close>

lemma comma_list:
  assumes "ds \<noteq> []" "list_all wf_def ds" "\<And>d. d \<in> set ds \<Longrightarrow> CHR '','' \<notin> set (def_text d)"
    and "files (join_with CHR '','' (map def_text ds)) = None"
    and "parser_ok parser (lines_text (map (\<lambda>d. Line (Some d) None False) ds))"
  shows "parse_backends parser files (join_with CHR '','' (map def_text ds)) = visit (map (\<lambda>d. Line (Some d) None False) ds)"
proof -
  let ?f = "\<lambda>c. if c = CHR '','' then CHR 0x0A else c"
  have "map ?f (join_with CHR '','' (map def_text ds)) @ [CHR 0x0A] = lines_text (map (\<lambda>d. Line (Some d) None False) ds)"
    using assms(1,3)
  proof (induction ds rule: induct_list012)
    case (2 d)
    then have "map ?f (def_text d) = def_text d" by (intro map_idI) auto
    then show ?case by (simp add: lines_text_def opt_text_def)
  next
    case (3 d e ds)
    then have "map ?f (def_text d) = def_text d" by (intro map_idI) auto
    then show ?case using 3 by (simp add: lines_text_def opt_text_def)
  qed simp
  then have "input_text files (join_with CHR '','' (map def_text ds)) = Inr (lines_text (map (\<lambda>d. Line (Some d) None False) ds))"
    using assms(4) by (simp add: input_text_def)
  then show ?thesis
    using assms(1,2,5) by (intro parse_grammatical) (auto simp: grammatical_def list_all_iff)
qed

text \<open>A file that does not end in a new line has no tree.\<close>

lemma missing_newline: "s = [] \<or> last s \<noteq> CHR 0x0A \<Longrightarrow> \<not> grammatical s ls"
proof
  assume s: "s = [] \<or> last s \<noteq> CHR 0x0A" and "grammatical s ls"
  then have "ls \<noteq> []" "s = lines_text ls" by (auto simp: grammatical_def)
  moreover have "line_text l \<noteq> [] \<and> last (line_text l) = CHR 0x0A" for l by (cases l) simp
  ultimately show False
    using s by (cases ls rule: rev_cases) (auto simp: lines_text_def last_append)
qed

text \<open>
  C33. A proxy starts with consistent wiring. When the command does not refuse its list, it first adds every
  listed backend, then every wire, then starts the server; both ends of every wire are locations
  of listed backends, and either both name a stack or none.
\<close>

theorem proxy_wiring:
  assumes "proxy_plan parser files backend debug timeout listen port = Inr (Inr calls)"
  shows "\<exists>specs wires. parse_backends parser files (backend_string backend) = Inr (specs, wires) \<and>
    calls = (if debug then [SetDebug] else []) @ map add_backend specs @ map add_wire wires @
      [SetSessionTimeout timeout, StartServer listen port] \<and>
    (\<forall>ss sc sp ts tc tp. AddWire ss sc sp ts tc tp \<in> set calls \<longrightarrow> (ss = None \<longleftrightarrow> ts = None) \<and>
       (\<exists>h p h' p'. AddBackend h p ss (Some sc) \<in> set calls \<and> AddBackend h' p' ts (Some tc) \<in> set calls))"
proof -
  obtain specs wires where p: "parse_backends parser files (backend_string backend) = Inr (specs, wires)"
      "list_all (check_wire specs) wires"
      "calls = (if debug then [SetDebug] else []) @ map add_backend specs @ map add_wire wires @
        [SetSessionTimeout timeout, StartServer listen port]"
    using assms unfolding proxy_plan_def by (auto simp: rbind_eq_Inr_iff split: if_splits)
  have backend: "\<exists>h p. AddBackend h p st (Some c) \<in> set calls" if "(st, Some c) \<in> set (map (\<lambda>s. (bs_stack s, bs_carrier s)) specs)" for st c
    using that by (force simp: p(3) add_backend_def)
  have "(ss = None \<longleftrightarrow> ts = None) \<and> (\<exists>h p h' p'. AddBackend h p ss (Some sc) \<in> set calls \<and> AddBackend h' p' ts (Some tc) \<in> set calls)"
    if "AddWire ss sc sp ts tc tp \<in> set calls" for ss sc sp ts tc tp
  proof -
    have "AddWire ss sc sp ts tc tp \<in> add_wire ` set wires"
      using that by (auto simp: p(3) add_backend_def split: if_splits)
    then obtain w where "w \<in> set wires" "add_wire w = AddWire ss sc sp ts tc tp" by force
    then have "check_wire specs w" "wi_source_stack w = ss" "wi_source_carrier w = sc" "wi_target_stack w = ts" "wi_target_carrier w = tc"
      using p(2) by (auto simp: list_all_iff add_wire_def)
    then show ?thesis
      using backend [of ss sc] backend [of ts tc] unfolding check_wire_def by blast
  qed
  with p(1,3) show ?thesis by blast
qed

section \<open>Witnesses\<close>

definition demo_list :: "((carrier_spec + wire_spec) option \<times> string option) list" where
  "demo_list =
     [(None, Some '' two devices''), (Some (Inl \<lparr>bs_host = ''10.0.0.1'', bs_port = 5732, bs_stack = None, bs_carrier = Some 0\<rparr>), None),
      (Some (Inl \<lparr>bs_host = ''lucidac-a.lab'', bs_port = 80, bs_stack = None, bs_carrier = Some 1\<rparr>), None),
      (Some (Inr \<lparr>wi_source_carrier = 0, wi_source_pin = IndexedPin 4, wi_target_carrier = 1, wi_target_pin = NamedPin ''aux0'',
         wi_source_stack = None, wi_target_stack = None\<rparr>), Some ''wired'')]"

lemma demo_list_valid: "list_all valid_line demo_list"
  unfolding demo_list_def valid_line_def valid_carrier_def valid_wire_def host_of_def
  by (simp add: label_token_def integer_token_def label_char_def is_alpha_def is_digit_def lower_char_def of_char_def)

abbreviation demo_parser :: "string \<Rightarrow> line_node list res" where
  "demo_parser \<equiv> \<lambda>_. Inr (map line_of demo_list)"

abbreviation demo_files :: "string \<Rightarrow> string res option" where
  "demo_files \<equiv> \<lambda>_. Some (Inr (lines_text (map line_of demo_list)))"

lemma demo_parser_ok: "parser_ok demo_parser (lines_text (map line_of demo_list))"
  using written_lines [OF demo_list_valid] by (simp add: parser_ok_def grammatical_def demo_list_def)


lemma demo_list_parsed: "parse_backends demo_parser demo_files i = Inr (collect (List.map_filter fst demo_list))"
proof -
  have "parse_backends demo_parser demo_files i = visit (map line_of demo_list)"
    by (simp add: parse_backends_def input_text_def)
  then show ?thesis
    using written_lines [OF demo_list_valid] by (simp add: visit_def concat_optional)
qed

theorem proxy_wiring_witness:
  "\<exists>calls. proxy_plan demo_parser demo_files [''list.txt''] False 10 ''0.0.0.0'' 5732 = Inr (Inr calls) \<and>
     AddWire None 0 (IndexedPin 4) None 1 (NamedPin ''aux0'') \<in> set calls \<and>
     (\<exists>h p. AddBackend h p None (Some 0) \<in> set calls) \<and> (\<exists>h p. AddBackend h p None (Some 1) \<in> set calls)"
proof -
  have "\<exists>calls. proxy_plan demo_parser demo_files [''list.txt''] False 10 ''0.0.0.0'' 5732 = Inr (Inr calls) \<and>
     AddWire None 0 (IndexedPin 4) None 1 (NamedPin ''aux0'') \<in> set calls"
    unfolding proxy_plan_def demo_list_parsed by (simp add: demo_list_def collect_def List.map_filter_def check_wire_def add_wire_def)
  then obtain calls where c: "proxy_plan demo_parser demo_files [''list.txt''] False 10 ''0.0.0.0'' 5732 = Inr (Inr calls)"
      "AddWire None 0 (IndexedPin 4) None 1 (NamedPin ''aux0'') \<in> set calls" by blast
  with proxy_wiring [OF c(1)] show ?thesis by blast
qed

end
