(* ===== verification/CommandLine.thy ===== *)
theory CommandLine
  imports Backends
begin

text \<open>
  The command line (cli/dac/): the groups \<open>redac\<close> and \<open>lucidac\<close>, which choose and connect the devices, and
  the commands that work on the controller, and the table that \<open>DatExporter\<close> writes (redac/data.py).

  Parameters are the networks (\<open>ip_network\<close> and the search in a network), what each address answers, what
  a configuration file becomes after loading, and the answers of devices to an extract request. Printing is
  left out.
\<close>

section \<open>Choosing devices\<close>

definition is_network :: "string \<Rightarrow> bool" where
  "is_network host \<longleftrightarrow> CHR ''/'' \<in> set host"

text \<open>Each search overwrites the devices found so far, also those that were named.\<close>

definition select_devices ::
    "(string \<Rightarrow> 'n res) \<Rightarrow> ('n \<Rightarrow> (string \<times> int \<times> string) list res) \<Rightarrow> string list \<Rightarrow> int \<Rightarrow> (string \<times> int \<times> string) list res" where
  "select_devices ip_network detect hosts port =
     rbind (rmap ip_network ((if hosts = [] then [''0.0.0.0/0''] else []) @ filter is_network hosts)) (\<lambda>networks.
     rfold (\<lambda>network _. detect network) networks (map (\<lambda>h. (h, port, h)) (filter (\<lambda>h. \<not> is_network h) hosts)))"

text \<open>\<open>redac\<close> and \<open>lucidac\<close> differ in the controller: \<open>add\<close> is its \<open>add_device\<close>.\<close>

definition connect_group ::
    "(endpoint \<Rightarrow> (controller, unit) pym) \<Rightarrow> (string \<times> int \<Rightarrow> endpoint) \<Rightarrow> (controller \<Rightarrow> device_connection list) \<Rightarrow> bool \<Rightarrow>
      (string \<times> int \<times> string) list res \<Rightarrow> (controller, unit) sproc" where
  "connect_group add network order reset devices =
     pbind (plift (lift_res devices)) (\<lambda>ds.
     pbind (plift (for_each ds (\<lambda>(host, port, _). add (network (host, port))))) (\<lambda>_ c.
     if reset then default_reset (order c) c else pret () c))"

definition redac_group where
  "redac_group network order reset devices = connect_group controller_add_device network order reset devices new_controller"

definition lucidac_group where
  "lucidac_group network order reset devices = connect_group lucidac_add_device network order reset devices new_controller"

section \<open>Extraction\<close>

definition with_location :: "int \<times> int \<Rightarrow> pb_entity \<Rightarrow> pb_entity" where
  "with_location l e = PbEntity (pe_id e) (pe_class e) (pe_type e) (pe_variant e) (pe_version e) (Some l) (pe_children e)"

text \<open>Entities without a location get one, in the order of the module.\<close>

fun inject_locations :: "int \<Rightarrow> module_item list \<Rightarrow> module_item list" where
  "inject_locations n [] = []"
| "inject_locations n (EntitySpecification s e # xs) =
     (if pe_location e = None then EntitySpecification s (with_location (0, n) e) # inject_locations (n + 1) xs
      else EntitySpecification s e # inject_locations n xs)"
| "inject_locations n (x # xs) = x # inject_locations n xs"

datatype extract_output = Stored string "module_item list" | UnknownFormat | Printed "module_item list"

text \<open>
  \<open>extract\<close>. The module of the cache is the cached object itself, so the locations stay in the cache.
  A connection without control channel raises \<open>AttributeError\<close>.
\<close>

definition extract_items :: "(device_connection \<Rightarrow> module_item list res) \<Rightarrow> device_connection list \<Rightarrow> module_item list res" where
  "extract_items answer order =
     rbind (rmap (\<lambda>c. if dc_control c then answer c else Inl AttributeError) order) (\<lambda>xs. Inr (concat xs))"

definition extract_command ::
    "(bool \<Rightarrow> bool \<Rightarrow> bool \<Rightarrow> device_connection \<Rightarrow> module_item list res) \<Rightarrow> (controller \<Rightarrow> device_connection list) \<Rightarrow>
      string option \<Rightarrow> bool \<Rightarrow> bool \<Rightarrow> bool \<Rightarrow> bool \<Rightarrow> (controller, extract_output) pym" where
  "extract_command answer order export specification configuration calibration skip_cache =
     sbind get_st (\<lambda>c.
     sbind (if skip_cache \<or> configuration \<or> calibration
            then sbind (lift_res (extract_items (answer specification configuration calibration) (order c))) (\<lambda>m.
                 ret (inject_locations 0 m))
            else sbind (modify (\<lambda>c. c\<lparr>ct_manager := (ct_manager c)\<lparr>mg_cache := inject_locations 0 (mg_cache (ct_manager c))\<rparr>\<rparr>)) (\<lambda>_.
                 eval_st (\<lambda>c. Inr (mg_cache (ct_manager c))))) (\<lambda>m.
     ret (case export of
            Some f \<Rightarrow> if f = [] then Printed m else if suffix ''.apb'' f then Stored f m else UnknownFormat
          | None \<Rightarrow> Printed m)))"

section \<open>Runs\<close>

record cli_object =
  co_run :: run
  co_registered :: "run list"

text \<open>\<open>Run.make_from_other_run\<close>: a new run that shares the configuration objects of the other.\<close>

definition make_from_other_run :: "string \<Rightarrow> run \<Rightarrow> run" where
  "make_from_other_run i r =
     (new_run i \<lparr>rq_config = rr_config r, rq_daq = rr_daq r, rq_entities = None\<rparr>)\<lparr>rr_sync_master := rr_sync_master r, rr_sync_group := rr_sync_group r\<rparr>"

definition set_run_options :: "int option \<Rightarrow> rat option \<Rightarrow> int option \<Rightarrow> run \<Rightarrow> run" where
  "set_run_options ic_time op_time sample_rate r =
     r\<lparr>rr_config := (rr_config r)\<lparr>rc_ic_time := (case ic_time of None \<Rightarrow> rc_ic_time (rr_config r) | Some t \<Rightarrow> t),
         rc_op_time := (case op_time of None \<Rightarrow> rc_op_time (rr_config r) | Some t \<Rightarrow> \<lceil>t * 1000000000\<rceil>)\<rparr>,
       rr_daq := (rr_daq r)\<lparr>dq_sample_rate := (case sample_rate of None \<Rightarrow> dq_sample_rate (rr_daq r) | Some n \<Rightarrow> n)\<rparr>\<rparr>"

definition fill_run :: "env \<Rightarrow> module_item list option \<Rightarrow> run \<Rightarrow> (session, unit) pym" where
  "fill_run en m r =
     sbind (case m of None \<Rightarrow> ret () | Some m \<Rightarrow> set_module_raw m) (\<lambda>_.
     sbind (session_calibrate en [] False True True) (\<lambda>_.
     sbind (session_reset True True True False) (\<lambda>_.
     session_run \<lparr>rq_config = rr_config r, rq_daq = rr_daq r, rq_entities = None\<rparr>)))"

text \<open>A run that is done is replaced.\<close>

definition used_run :: "string \<Rightarrow> cli_object \<Rightarrow> run" where
  "used_run fresh o' =
     (if is_done (dr_run_state (rr_tracker (co_run o'))) then make_from_other_run fresh (co_run o') else co_run o')"

definition finish_run :: "run \<Rightarrow> cli_object \<Rightarrow> run list res \<times> run list \<Rightarrow> unit res \<times> cli_object" where
  "finish_run run o' y =
     (case y of
        (Inl e, rs) \<Rightarrow> (Inl e, o'\<lparr>co_registered := rs\<rparr>)
      | (Inr runs, rs) \<Rightarrow>
          let run = (case runs of [] \<Rightarrow> run | r # _ \<Rightarrow> r)
          in (if dr_run_state (rr_tracker run) = ERROR then Inl RunError else Inr (), o'\<lparr>co_run := run, co_registered := rs\<rparr>))"

text \<open>\<open>loaded\<close> is the module that \<open>set_module\<close> puts into the pipeline for a configuration file.\<close>

definition run_command ::
    "env \<Rightarrow> (string \<Rightarrow> module_item list res) \<Rightarrow> string \<Rightarrow> string option \<Rightarrow> int option \<Rightarrow> rat option \<Rightarrow> int option \<Rightarrow> (cli_object, unit) sproc" where
  "run_command en loaded fresh config_file ic_time op_time sample_rate =
     pbind (plift (lift_res (case config_file of None \<Rightarrow> Inr None | Some f \<Rightarrow> map_sum id Some (loaded f)))) (\<lambda>m.
     pbind (plift (modify (\<lambda>o'. o'\<lparr>co_run := set_run_options ic_time op_time sample_rate (co_run o')\<rparr>))) (\<lambda>_ o'.
     io_bind (on_session en (fill_run en m (used_run fresh o')) (co_registered o')) (\<lambda>y. Done (finish_run (used_run fresh o') o' y))))"

definition reset_command :: "(controller \<Rightarrow> device_connection list) \<Rightarrow> bool \<Rightarrow> bool \<Rightarrow> (controller, unit) sproc" where
  "reset_command order keep sync c = controller_reset keep sync False False (order c) c"

text \<open>\<open>update\<close>: a session with the firmware only; \<open>None\<close> would be a converter that does not end.\<close>

definition update_command ::
    "(string \<Rightarrow> byte list option) \<Rightarrow> (byte list \<Rightarrow> byte list) \<Rightarrow> env \<Rightarrow> string \<Rightarrow> run list \<Rightarrow> (call, reply, run list res \<times> run list) io option" where
  "update_command files sha256 en firmware rs =
     (case set_firmware files sha256 (FirmwareFile firmware) (new_session rs) of
        None \<Rightarrow> None
      | Some (x, s) \<Rightarrow> Some (on_session en (\<lambda>_. (x, s)) rs))"

section \<open>USB boards\<close>

text \<open>
  \<open>reset_usb\<close> on the boards that \<open>tycmd\<close> lists, each with its tag if it has one: the boards it resets.
\<close>

definition matching_boards :: "string \<Rightarrow> string option list \<Rightarrow> string option list" where
  "matching_boards tag_filter boards = filter (\<lambda>t. sublist tag_filter (case t of None \<Rightarrow> [] | Some t \<Rightarrow> t)) boards"

fun reset_boards :: "bool \<Rightarrow> string option list \<Rightarrow> string list \<times> unit res" where
  "reset_boards dry_run [] = ([], Inr ())"
| "reset_boards dry_run (None # bs) = ([], Inl KeyError)"
| "reset_boards dry_run (Some t # bs) =
     (case reset_boards dry_run bs of (ts, x) \<Rightarrow> (if dry_run then ts else t # ts, x))"

definition reset_usb :: "string \<Rightarrow> bool \<Rightarrow> string option list \<Rightarrow> string list \<times> unit res" where
  "reset_usb tag_filter dry_run boards = reset_boards dry_run (matching_boards tag_filter boards)"

section \<open>Exported data\<close>

text \<open>\<open>zip_longest(*columns, fillvalue=None)\<close>.\<close>

definition zip_longest :: "'a list list \<Rightarrow> 'a option list list" where
  "zip_longest cols =
     map (\<lambda>i. map (\<lambda>c. if i < length c then Some (c ! i) else None) cols) [0..<fold max (map length cols) 0]"

definition active_columns :: "'a list option list \<Rightarrow> (nat \<times> 'a list) list" where
  "active_columns data = List.map_filter (\<lambda>(i, v). map_option (Pair i) v) (enumerate 0 data)"

text \<open>The header of probe indices and the numbered rows; \<open>None\<close> is the note that there are no data.\<close>

definition export_data :: "run_data \<Rightarrow> (nat list \<times> (nat \<times> sample option list) list) option" where
  "export_data d =
     (let active = active_columns (rn_data d) in
      if active = [] then None else Some (map fst active, enumerate 0 (zip_longest (map snd active))))"

section \<open>Devices that are left out\<close>

lemma rfold_overwrite:
  "(\<And>x. x \<in> set xs \<Longrightarrow> \<exists>b. f x = Inr b) \<Longrightarrow> rfold (\<lambda>x _. f x) xs a = (if xs = [] then Inr a else f (last xs))"
  by (induction xs arbitrary: a) force+

lemma rmap_all_Inr: "(\<And>x. x \<in> set xs \<Longrightarrow> f x = Inr (g x)) \<Longrightarrow> rmap f xs = Inr (map g xs)"
  by (induction xs) auto

text \<open>
  C34. Hosts and networks on the command line. With host names only, exactly these hosts are connected, in
  their order. As soon as one argument is a network, the devices are those of the last network alone:
  the named hosts and the devices of all other networks are left out.
\<close>

theorem devices_selected:
  assumes "hosts \<noteq> []" and "\<And>h. h \<in> set hosts \<Longrightarrow> is_network h \<Longrightarrow> \<exists>w ds. ip_network h = Inr w \<and> detect w = Inr ds"
  shows "select_devices ip_network detect hosts port =
    (if filter is_network hosts = [] then Inr (map (\<lambda>h. (h, port, h)) hosts)
     else rbind (ip_network (last (filter is_network hosts))) detect)"
proof -
  let ?ns = "filter is_network hosts"
  obtain g where g: "\<And>h. h \<in> set ?ns \<Longrightarrow> ip_network h = Inr (g h) \<and> (\<exists>ds. detect (g h) = Inr ds)"
    using assms(2) by (metis (no_types, lifting) mem_Collect_eq set_filter)
  have "rmap ip_network ?ns = Inr (map g ?ns)"
    using g by (intro rmap_all_Inr) blast
  moreover have "rfold (\<lambda>network _. detect network) (map g ?ns) a = (if ?ns = [] then Inr a else detect (g (last ?ns)))" for a
    using g by (subst rfold_overwrite) (auto simp: last_map)
  ultimately have "select_devices ip_network detect hosts port =
      (if ?ns = [] then Inr (map (\<lambda>h. (h, port, h)) (filter (\<lambda>h. \<not> is_network h) hosts)) else detect (g (last ?ns)))"
    using assms(1) by (simp add: select_devices_def)
  moreover have "ip_network (last ?ns) = Inr (g (last ?ns))" if "?ns \<noteq> []"
    using g [OF last_in_set [OF that]] by blast
  moreover have "filter (\<lambda>h. \<not> is_network h) hosts = hosts" if "?ns = []"
    using that by (simp add: filter_empty_conv)
  ultimately show ?thesis by simp
qed

section \<open>The run command\<close>

lemma fill_run_filled:
  assumes "fill_run en m r (new_session rs) = (Inr (), s)"
  shows "\<exists>leader. s = (new_session rs)\<lparr>se_pipeline := map SetConfigCommand (case m of None \<Rightarrow> [] | Some m \<Rightarrow> [m]) @
    [CalibrateCommand leader False True True, ResetCommand True True True False] @
    [RunCommand \<lparr>rq_config = rr_config r, rq_daq = rr_daq r, rq_entities = None\<rparr>]\<rparr>"
  using assms
  by (cases m) (auto simp: fill_run_def sbind_Inr_iff session_calibrate_def session_reset_def session_run_def set_module_raw_def
      modify_def eval_st_def ret_def append_command_def new_session_def split: if_splits sum.splits)

text \<open>
  The run command. When it returns, the run that it leaves for the commands after it was started on every
  carrier, every carrier has reported DONE, none an error, and, with a configuration file, every
  connection had accepted its configuration before.
\<close>

theorem run_command_executed:
  assumes "exchanges (run_command en loaded fresh config_file ic_time op_time sample_rate o1) l (Inr (), o2)"
    and "set (en_order en) = get_unique_connections (ct_manager (en_controller en))"
  shows "\<exists>ms. executed_with en ms l (co_run o2) \<and> dr_run_state (rr_tracker (co_run o2)) \<noteq> ERROR \<and>
    (case config_file of None \<Rightarrow> ms = [] | Some f \<Rightarrow> \<exists>m. loaded f = Inr m \<and> ms = [m])"
proof -
  obtain m run rs y o3 where m: "(case config_file of None \<Rightarrow> Inr None | Some f \<Rightarrow> map_sum id Some (loaded f)) = Inr m"
    and ex: "exchanges (on_session en (fill_run en m run) rs) l y" and o2: "finish_run run o3 y = (Inr (), o2)"
    using assms(1) unfolding run_command_def
    by (auto simp: trace_pbind trace_plift trace_bind lift_res_def modify_def) metis
  obtain runs rs' where y: "y = (Inr runs, rs')" and run: "co_run o2 = (case runs of [] \<Rightarrow> run | r # _ \<Rightarrow> r)"
      "dr_run_state (rr_tracker (co_run o2)) \<noteq> ERROR"
    using o2 by (auto simp: finish_run_def Let_def split: prod.splits sum.splits if_splits)
  obtain s s' where s: "fill_run en m run (new_session rs) = (Inr (), s)" "exchanges (run_pipeline en s) l (Inr (), s')" "runs = se_runs s'"
    using on_session_Inr [OF ex [unfolded y]] by blast
  let ?ms = "case m of None \<Rightarrow> [] | Some m \<Rightarrow> [m]"
  obtain leader where p: "s = (new_session rs)\<lparr>se_pipeline := map SetConfigCommand ?ms @
      [CalibrateCommand leader False True True, ResetCommand True True True False] @
      [RunCommand \<lparr>rq_config = rr_config run, rq_daq = rr_daq run, rq_entities = None\<rparr>]\<rparr>"
    using fill_run_filled [OF s(1)] by blast
  have "\<exists>r. se_runs s' = [r] \<and> executed_with en ?ms l r"
  proof (rule pipeline_result [OF _ _ _ assms(2)])
    show "exchanges (pfor (map SetConfigCommand ?ms @ [CalibrateCommand leader False True True, ResetCommand True True True False] @
        [RunCommand \<lparr>rq_config = rr_config run, rq_daq = rr_daq run, rq_entities = None\<rparr>]) (execute_command en)
        (s\<lparr>se_executed := True\<rparr>)) l (Inr (), s')"
      using s(2) by (simp add: p run_pipeline_def new_session_def)
  qed (auto simp: execute_command_def stays_configuration stays_execute_reset p new_session_def)
  then have "executed_with en ?ms l (co_run o2)"
    using run(1) s(3) by auto
  with m run(2) show ?thesis
    by (intro exI [of _ ?ms]) (cases config_file; auto; cases "loaded (the config_file)"; auto)
qed

section \<open>Injected locations\<close>

fun located :: "module_item \<Rightarrow> bool" where
  "located (EntitySpecification s e) \<longleftrightarrow> pe_location e \<noteq> None"
| "located _ \<longleftrightarrow> True"

lemma inject_located: "list_all located (inject_locations n its)"
  by (induction n its rule: inject_locations.induct) (auto simp: with_location_def)

lemma inject_id: "list_all located its \<Longrightarrow> inject_locations n its = its"
  by (induction n its rule: inject_locations.induct) auto

lemma inject_nth:
  "i < length its \<Longrightarrow> inject_locations n its ! i =
    (case its ! i of
       EntitySpecification s e \<Rightarrow> EntitySpecification s
         (if pe_location e = None then with_location (0, n + int (length (filter (\<lambda>x. \<not> located x) (take i its)))) e else e)
     | x \<Rightarrow> x)"
  by (induction n its arbitrary: i rule: inject_locations.induct) (auto simp: nth_Cons' take_Cons' add.assoc split: module_item.split)

text \<open>
  A cached extraction completes the locations of the cache once; repeating it changes nothing. Given locations
  are kept, also when they coincide with injected ones.
\<close>

lemma extract_cached:
  assumes "extract_command answer order export sp False False False c = (Inr x, c')"
  shows "mg_cache (ct_manager c') = inject_locations 0 (mg_cache (ct_manager c)) \<and> list_all located (mg_cache (ct_manager c')) \<and>
    extract_command answer order export sp False False False c' = (Inr x, c')"
  using assms inject_located [of 0 "mg_cache (ct_manager c)"]
  by (cases export) (auto simp: extract_command_def sbind_def get_st_def modify_def eval_st_def ret_def inject_id)

lemma locations_collide:
  "inject_locations 0 [EntitySpecification s (with_location (0, 0) e), EntitySpecification s' (PbEntity i k t v w None ch)] =
     [EntitySpecification s (with_location (0, 0) e), EntitySpecification s' (PbEntity i k t v w (Some (0, 0)) ch)]"
  by (simp add: with_location_def)

section \<open>The exported table\<close>

lemma fold_max_bound: "c \<in> set cs \<Longrightarrow> c \<le> fold max cs (m :: nat)"
proof -
  have "fold max cs m = Max (insert m (set cs))" by (simp add: Max.set_eq_fold [symmetric] del: Max_insert)
  moreover assume "c \<in> set cs"
  ultimately show ?thesis by simp
qed

lemma zip_longest_nth:
  "i < length (zip_longest cols) \<Longrightarrow> j < length cols \<Longrightarrow>
    zip_longest cols ! i ! j = (if i < length (cols ! j) then Some (cols ! j ! i) else None)"
  by (simp add: zip_longest_def)

lemma active_columns_iff: "(i, c) \<in> set (active_columns data) \<longleftrightarrow> i < length data \<and> data ! i = Some c"
  by (auto simp: active_columns_def List.map_filter_def in_set_enumerate_eq image_iff split: option.splits)

lemma sorted_active: "sorted_wrt (<) (map fst (active_columns data))"
proof -
  have "sorted_wrt (<) (map fst (List.map_filter (\<lambda>(i, v). map_option (Pair i) v) (enumerate n data)))" for n
  proof (induction data arbitrary: n)
    case (Cons x data)
    then show ?case
      by (cases x) (fastforce simp: List.map_filter_simps List.map_filter_def in_set_enumerate_eq)+
  qed (simp add: List.map_filter_simps)
  then show ?thesis by (simp add: active_columns_def)
qed

text \<open>
  C35. The exported table. It has one column for every probe with data, in the order of the probes, and one row for
  every sample index; a cell is the sample of its probe, or empty after the last one. All samples
  are in the table. Without data there is no table.
\<close>

theorem data_exported:
  "case export_data d of
     None \<Rightarrow> \<forall>v \<in> set (rn_data d). v = None
   | Some (ps, rows) \<Rightarrow>
       sorted_wrt (<) ps \<and> set ps = {p. p < length (rn_data d) \<and> rn_data d ! p \<noteq> None} \<and>
       map fst rows = [0..<length rows] \<and>
       (\<forall>j < length ps. \<forall>c. rn_data d ! (ps ! j) = Some c \<longrightarrow> length c \<le> length rows \<and>
          (\<forall>i < length rows. snd (rows ! i) ! j = (if i < length c then Some (c ! i) else None)))"
proof (cases "active_columns (rn_data d) = []")
  case True
  then have "v = None" if "v \<in> set (rn_data d)" for v
    using that active_columns_iff [of _ _ "rn_data d"] by (cases v) (force simp: in_set_conv_nth)+
  with True show ?thesis by (auto simp: export_data_def Let_def)
next
  case False
  let ?a = "active_columns (rn_data d)" and ?rows = "zip_longest (map snd (active_columns (rn_data d)))"
  have column: "j < length ?a \<Longrightarrow> rn_data d ! fst (?a ! j) = Some c \<Longrightarrow> map snd ?a ! j = c" for j c
    using active_columns_iff [of "fst (?a ! j)" "snd (?a ! j)" "rn_data d"] by simp
  have rows: "length c \<le> length ?rows" "i < length ?rows \<Longrightarrow> ?rows ! i ! j = (if i < length c then Some (c ! i) else None)"
    if "j < length ?a" "rn_data d ! fst (?a ! j) = Some c" for i j c
  proof -
    have c: "map snd ?a ! j = c" by (rule column [OF that])
    then have "c \<in> set (map snd ?a)" using that(1) by (metis length_map nth_mem)
    then have "length c \<in> set (map length (map snd ?a))" by (simp only: set_map imageI)
    then show "length c \<le> length ?rows" by (simp only: zip_longest_def length_map length_upt diff_zero fold_max_bound)
    show "i < length ?rows \<Longrightarrow> ?rows ! i ! j = (if i < length c then Some (c ! i) else None)"
      using zip_longest_nth [of i "map snd ?a" j] that(1) c by simp
  qed
  have "set (map fst ?a) = {p. p < length (rn_data d) \<and> rn_data d ! p \<noteq> None}"
    using active_columns_iff [of _ _ "rn_data d"] by force
  then show ?thesis
    using False sorted_active [of "rn_data d"] rows
    by (simp add: export_data_def Let_def nth_enumerate_eq)
qed

section \<open>Witnesses\<close>

text \<open>One named host and two networks, of which the last has one device.\<close>

theorem devices_selected_witness:
  "select_devices Inr (\<lambda>w. Inr (if w = ''10.0.0.0/24'' then [(''10.0.0.7'', 5732, ''x'')] else []))
     [''lab'', ''192.168.0.0/16'', ''10.0.0.0/24''] 5732 = Inr [(''10.0.0.7'', 5732, ''x'')]"
proof -
  have "select_devices Inr (\<lambda>w. Inr (if w = ''10.0.0.0/24'' then [(''10.0.0.7'', 5732, ''x'')] else []))
     [''lab'', ''192.168.0.0/16'', ''10.0.0.0/24''] 5732 =
    (if filter is_network [''lab'', ''192.168.0.0/16'', ''10.0.0.0/24''] = [] then Inr (map (\<lambda>h. (h, 5732, h)) [''lab'', ''192.168.0.0/16'', ''10.0.0.0/24''])
     else rbind (Inr (last (filter is_network [''lab'', ''192.168.0.0/16'', ''10.0.0.0/24''])))
       (\<lambda>w. Inr (if w = ''10.0.0.0/24'' then [(''10.0.0.7'', 5732, ''x'')] else [])))"
    by (rule devices_selected) simp_all
  then show ?thesis by (simp add: is_network_def)
qed

definition demo_data :: run_data where
  "demo_data = \<lparr>rn_data = [Some [1, 2], None, Some [3]], rn_final = Map.empty\<rparr>"

lemma demo_data_table: "export_data demo_data = Some ([0, 2], [(0, [Some 1, Some 3]), (1, [Some 2, None])])"
  by (simp add: export_data_def demo_data_def active_columns_def zip_longest_def List.map_filter_simps numeral_eq_Suc enumerate_eq_zip upt_rec)

theorem data_exported_witness:
  "export_data demo_data = Some ([0, 2], [(0, [Some 1, Some 3]), (1, [Some 2, None])]) \<and>
   {0, 2} = {p. p < length (rn_data demo_data) \<and> rn_data demo_data ! p \<noteq> None}"
  using data_exported [of demo_data] unfolding demo_data_table option.case prod.case by simp

definition demo_object :: cli_object where
  "demo_object = \<lparr>co_run = new_run ''x'' demo_request, co_registered = []\<rparr>"

definition demo_cli_run :: run where
  "demo_cli_run = (new_run ''x'' demo_request)\<lparr>rr_config := \<lparr>rc_ic_time = 200, rc_op_time = 1000000, rc_halt_on_overload = True\<rparr>\<rparr>"

abbreviation demo_command :: "(cli_object, unit) sproc" where
  "demo_command \<equiv> run_command demo_env (\<lambda>_. Inr []) ''y'' (Some ''config.apb'') (Some 200) (Some (1 / 1000)) None"

lemma demo_options: "set_run_options (Some 200) (Some (1 / 1000)) None (co_run demo_object) = demo_cli_run"
  by (simp add: set_run_options_def demo_object_def demo_cli_run_def new_run_def demo_request_def)

definition demo_cli_play :: "(call_log \<times> run list res \<times> run list) option" where
  "demo_cli_play = play (on_session demo_env (fill_run demo_env (Some []) demo_cli_run) [])
     [RBool True, RNone, RNone, RNone, RNone, RNone, demo_messages 4, demo_messages 2, RStatus False [], RBlobs [], RNone]"

lemma demo_cli_plays:
  "case demo_cli_play of
     Some (l, Inr [r], rs) \<Rightarrow> rr_id r = ''r'' \<and> rc_op_time (rr_config r) = 1000000 \<and> dr_run_state (rr_tracker r) \<noteq> ERROR | _ \<Rightarrow> False"
  by code_simp

theorem run_command_executed_witness:
  "\<exists>l o2. exchanges (demo_command demo_object) l (Inr (), o2) \<and> rr_id (co_run o2) = ''r'' \<and>
     rc_op_time (rr_config (co_run o2)) = 1000000 \<and> executed_with demo_env [[]] l (co_run o2)"
proof -
  obtain l r rs where p: "demo_cli_play = Some (l, Inr [r], rs)" "rr_id r = ''r''" "rc_op_time (rr_config r) = 1000000"
      "dr_run_state (rr_tracker r) \<noteq> ERROR"
    using demo_cli_plays by (auto split: option.splits prod.splits sum.splits list.splits)
  let ?o = "demo_object\<lparr>co_run := demo_cli_run\<rparr>"
  have "used_run ''y'' ?o = demo_cli_run" "co_registered ?o = []"
    by (simp_all add: used_run_def demo_cli_run_def new_run_def is_done_def demo_object_def)
  moreover have "exchanges (on_session demo_env (fill_run demo_env (Some []) demo_cli_run) []) l (Inr [r], rs)"
    using p(1) unfolding demo_cli_play_def by (rule play_exchanges)
  moreover have "demo_command demo_object = io_bind (on_session demo_env (fill_run demo_env (Some []) (used_run ''y'' ?o)) (co_registered ?o))
      (\<lambda>y. Done (finish_run (used_run ''y'' ?o) ?o y))"
    by (simp add: run_command_def pbind_plift lift_res_def modify_def demo_options)
  ultimately have "exchanges (demo_command demo_object) l (finish_run demo_cli_run ?o (Inr [r], rs))"
    by (simp only: trace_bind) (intro exI [of _ l] exI [of _ "(Inr [r], rs)"] exI [of _ "[]"], simp)
  then have ex: "exchanges (demo_command demo_object) l (Inr (), ?o\<lparr>co_run := r, co_registered := rs\<rparr>)"
    using p(4) by (simp add: finish_run_def)
  from run_command_executed [OF ex demo_order_complete] have "executed_with demo_env [[]] l r"
    by auto
  with ex p(2,3) show ?thesis by (intro exI [of _ l] exI [of _ "?o\<lparr>co_run := r, co_registered := rs\<rparr>"]) simp
qed

end
