(* ===== verification/Spec2Isabelle.thy ===== *)
theory Spec2Isabelle
  imports Circuit Mock Simulator Versioning Scheduling CommandLine
begin

text \<open>
  A verification development for pybrid-computing, the host-side library that configures and runs
  anabrid's analog computers. All sources named below are under
  src/packages/pybrid-computing/src/pybrid.

  \<^bold>\<open>The program.\<close> A computer is a tree of entities: carriers with clusters, each cluster with function
  blocks that select (U), weight (C), sum (I) and compute (M) signals, and switch blocks (T, backplane)
  that lead lanes from cluster to cluster. A user builds a circuit (lucipy/) or configures the blocks
  directly (redac/); a session collects commands, serializes the configuration to protobuf modules,
  sends them over the control channels of the connected devices, starts runs, follows the state of
  every carrier, drains the samples that stream in and assembles them. The same channels install
  firmware. Programs repeat runs and reconfigure in between; a wrapper hides controller and session from
  the users of a LUCIDAC. A mock device stands in for the hardware.

  \<^bold>\<open>Theories and sources.\<close>
  \<^item> \<open>Prelude\<close>: Python values and control flow. \<open>py_exn\<close> are the exceptions; \<open>'a res\<close> is a pure computation
    that may raise; \<open>('s, 'a) pym\<close> is a method, which returns the new object state also when it raises, so
    that partial effects are visible; \<open>py_get\<close> and \<open>py_set\<close> are list indexing with negative indices and
    \<open>IndexError\<close>. \<open>keeps\<close> and \<open>triple\<close> are the invariant and Hoare rules over methods.
  \<^item> \<open>Entities\<close>: base/hybrid/entities.py, redac/entities.py, base/utils/addressing.py.
  \<^item> \<open>Blocks\<close>: redac/blocks/, redac/cluster.py, redac/computations.py. The two kinds of switch block
    interpret the locale \<open>mux_block\<close>.
  \<^item> \<open>Carrier\<close>: redac/carrier.py, redac/computer.py, redac/protocol/validators.py, lucidac/front_plane.py.
  \<^item> \<open>Circuit\<close>: lucipy/circuits.py, elements.py, helpers.py. The three kinds of element interpret the
    locale \<open>allocator\<close>.
  \<^item> \<open>Routing\<close>: redac/router.py and REDAC.route.
  \<^item> \<open>Config\<close>, \<open>Transmission\<close>, \<open>Specification\<close>: the serializers of redac/protocol/ and lucidac/protocol/: the
    payload of every block, the traversal of the entity tree and the dependency data, and entity
    specifications and modules. The locales \<open>path_codec\<close> and \<open>entity_codec\<close> state what the transfer of a
    whole configuration needs of the codecs of paths and entities.
  \<^item> \<open>Connections\<close>: redac/connection.py and the part of redac/controller.py that adds devices.
  \<^item> \<open>Runs\<close>: redac/run.py and DistributedRunState of redac/controller.py.
  \<^item> \<open>Samples\<close>: the sample blob, \<open>_parse_sample_blob\<close>, the drains and \<open>_assemble_run_data\<close> of redac/session.py.
  \<^item> \<open>Firmware\<close>: util/updater.py.
  \<^item> \<open>Processes\<close>: coroutines that exchange calls and replies with devices, and the calculus of their
    traces.
  \<^item> \<open>Session\<close>: the rest of redac/session.py, redac/control.py and base/result.py.
  \<^item> \<open>Framing\<close>, \<open>Mock\<close>: mock/, the test device and its protocol.
  \<^item> \<open>Programs\<close>: base/hybrid/programs/, the run-evaluate-reconfigure loop around the methods of a user.
  \<^item> \<open>Wrapper\<close>: lucipy/computer.py, lucidac/controller.py, and reset and the shortcuts of redac/controller.py.
  \<^item> \<open>Backends\<close>, \<open>CommandLine\<close>: cli/dac/ and redac/data.py: the lists of backends with their grammar, the proxy
    command, the groups that choose and connect devices, and the commands on a connected computer.
  \<^item> \<open>Scheduling\<close>: several tasks that execute sessions of one controller under its lock (\<open>Session.execute\<close>), as
    a step relation.
  \<^item> \<open>Simulator\<close>: sim/, the settings of a simulated computer and their transfer.
  \<^item> \<open>Versioning\<close>: base/proto/versioning.py and base/proto/io.py.

  State is a record per class with the fields of the class; an operation is a function of the same
  name (prefixed where names of several classes clash). Object identity matters in two places and is
  explicit there: connections carry a number, and the shared T-blocks of the router live in a store.
  Factors, gains and weights are rationals, sample values bit patterns.

  \<^bold>\<open>What is shown.\<close>
  \<^item> Circuits: \<open>connect\<close> realises exactly the requested weight on the analog paths of the cluster and
    changes no other connection (refinement of an abstract gain matrix), or raises and leaves all lanes
    and blocks as they were; lanes are used exclusively as long as ACL ports are not negative; allocation
    hands out each element once. A captured signal gets its ADC channel and the next probe index.
  \<^item> Routing: with the backplanes of the stacks on the way registered, a route that was accepted is found by
    the tracer and other lanes are not disturbed; the switch blocks always stay well-typed; the tracer
    can run forever on unregistered stacks.
  \<^item> Configuration and specification: what the receiver rebuilds is what was serialized, up to
    protobuf rounding and without SH-blocks, for single entities, whole configurations, entity trees and
    modules whose numbers fit the fields of the messages; the dependency data names real sources and
    sinks.
  \<^item> Connections: an invariant of every reachable manager, refinement of an abstract fleet, and that
    every carrier put into the computer since the last closing has a connection with a running control
    channel.
  \<^item> Runs and samples: the reported state is the least advanced one over all carriers and monotone,
    waiting stops at the first turn that decides it, blobs are parsed to what was written, and the data
    assembled from well-formed chunks does not depend on the order in which they arrive.
  \<^item> Sessions: for all replies of the devices, a configuration reaches each connection once, no device
    commits firmware before all have verified it, a failed update is aborted everywhere, for a run that
    returns every carrier was started and a message then reported it DONE (\<open>told\<close>), and the callbacks of a
    run are released unless registering them fails.
  \<^item> Firmware: the converter ends on every file, computes the memory image that the records describe,
    refuses damaged files, and what a session commits is this image.
  \<^item> Mock: framing loses nothing, requests are answered once, the controller accepts every mock, runs
    end as injected and their chunks carry all samples.
  \<^item> Programs and wrapper: the runs of a program are those of its turns, each configured on the state of
    its turn (\<open>program_history\<close>), started and reported DONE on all carriers, as is a run of the wrapper; the
    loop of a program ends when errors are not ignored; endpoints are read as written; a wrapper whose
    start has failed does not connect again.
  \<^item> Command line: backend lists are read as written whatever tree the parser picks, a proxy is only
    started with wires between listed backends, a run command that returns has completed on all
    carriers, and an exported table holds all samples at their places.
  \<^item> Scheduling: an invariant of all reachable states: executions of sessions never interleave, and a session
    is executed at most once, whatever is cancelled or times out.
  \<^item> Simulator and versioning: settings arrive as sent (except \<open>k0\<close>, and plugins when none are sent); the update of a message ends, and a
    stored module is loaded again.

  \<^bold>\<open>Bounds and fuel.\<close> Loops are recursive functions with a termination proof, except four: the tracer of
  Routing takes fuel, because its loop can run forever (\<open>trace_diverges\<close>), and the theorems about it say
  how much is enough, one unit per stack crossed and two for the rest; the converter of Firmware is a
  \<open>while_option\<close> that is shown to end; the loop of a program takes its number of turns, since it can repeat
  forever when errors are ignored (\<open>ignored_errors_repeat\<close>), and \<open>program_ends\<close> says how many are enough
  otherwise; the update of a message is a partial function that is shown to end. A coroutine is a finite tree, so it ends for all replies.

  \<^bold>\<open>Parameters.\<close> Protobuf's number conversion (\<open>pb_wire\<close>) and encoder, the native channels (arbitrary
  replies), the answers of the network, the methods of user programs, brackets in URLs, the parser
  library Lark (some tree of its input, \<open>parser_ok\<close>), the search for devices, the file system, SHA-256, numpy's sine and the generator of identifiers are arguments of the
  definitions; what is assumed of them is a named hypothesis with an instance in the witness.

  \<^bold>\<open>Not modelled.\<close> The native C++ channels and bindings and generated protobuf code (not code of this
  library), the search for devices in the network (a third-party library), option parsing, displays, logging and
  reports (printing around the operations modelled here), and examples and build scripts. Within
  modelled files: delays and timeouts as durations (a timeout is a reply that did not arrive), texts of errors,
  and the start and the end of event loops.
\<close>

end
